(* ===== verification/Prelude.thy ===== *)
theory Prelude
  imports Main "HOL-Library.Word"
begin

text \<open>
  Shared vocabulary of the development: machine integers and bytes, the result type that
  makes every contract violation, out-of-range access and failed assertion of the C++ code a
  value, the sequential containers of the code (fixed-capacity vectors as lists, iterators as
  indices), raw buffers with bounds-checked copies, and the little-endian image of integers.
  The lemmas collected in \<open>result_simps\<close>, \<open>vector_simps\<close> and
  \<open>buffer_simps\<close> carry the component proofs.
\<close>

section \<open>Machine types and results\<close>

type_synonym byte = "8 word"
type_synonym u32 = "32 word"
type_synonym u64 = "64 word"

text \<open>
  What can go wrong at run time: \<^verbatim>\<open>iox::cxx::Expects\<close> aborts the process; an access
  outside an array, a container or a buffer, a division by zero, the use of a chunk that has
  been given back, the use of a variable that was never set and of a null pointer or an empty
  optional are undefined behaviour.
  \<open>Waits_Forever\<close> is a wait for an event that never comes. \<open>No_Fuel\<close> stands for a bounded
  recursion that was cut off; theorems about such recursions show that it is not reached.
  \<open>Uncaught_Exception\<close> is an exception that leaves a \<^verbatim>\<open>noexcept\<close> function and ends the process.
\<close>

datatype fault =
    Expects_Violated
  | Out_Of_Bounds
  | Division_By_Zero
  | Use_After_Release
  | Uninitialised_Read
  | Null_Dereference
  | Waits_Forever
  | No_Fuel
  | Uncaught_Exception

type_synonym 'a result = "fault + 'a"

fun bindR :: "'a result \<Rightarrow> ('a \<Rightarrow> 'b result) \<Rightarrow> 'b result" where
  "bindR (Inl e) f = Inl e"
| "bindR (Inr x) f = f x"

definition expects :: "bool \<Rightarrow> unit result" where
  "expects b = (if b then Inr () else Inl Expects_Violated)"

named_theorems result_simps
named_theorems vector_simps
named_theorems buffer_simps

lemma bindR_Inr_iff [result_simps]:
  "bindR m f = Inr y \<longleftrightarrow> (\<exists>x. m = Inr x \<and> f x = Inr y)"
  by (cases m) auto

lemma bindR_Inl_iff [result_simps]:
  "bindR m f = Inl e \<longleftrightarrow> m = Inl e \<or> (\<exists>x. m = Inr x \<and> f x = Inl e)"
  by (cases m) auto

lemma bindR_cong [fundef_cong]:
  "m = m' \<Longrightarrow> (\<And>x. m' = Inr x \<Longrightarrow> f x = g x) \<Longrightarrow> bindR m f = bindR m' g"
  by (cases m') auto

text \<open>Local variables of the source are \<open>let\<close> bindings; the simplifier always expands them.\<close>

declare Let_def [simp]

lemma bindR_Inr_right [simp]: "bindR m Inr = m"
  by (cases m) auto

lemma bindR_assoc: "bindR (bindR m f) g = bindR m (\<lambda>x. bindR (f x) g)"
  by (cases m) auto

lemma expects_simps [simp]:
  "expects True = Inr ()" "expects False = Inl Expects_Violated"
  by (simp_all add: expects_def)

lemma expects_iff [result_simps]:
  "expects b = Inr u \<longleftrightarrow> b" "expects b = Inl e \<longleftrightarrow> \<not> b \<and> e = Expects_Violated"
  by (auto simp: expects_def)

section \<open>Sequential containers\<close>

text \<open>
  \<^verbatim>\<open>std::find_if(first, last, P)\<close> returns an iterator; the model returns its distance from
  \<^verbatim>\<open>begin()\<close>, which is the length of the sequence when nothing is found.
\<close>

fun find_if :: "('a \<Rightarrow> bool) \<Rightarrow> 'a list \<Rightarrow> nat" where
  "find_if P [] = 0"
| "find_if P (x # xs) = (if P x then 0 else Suc (find_if P xs))"

text \<open>
  A \<^verbatim>\<open>cxx::vector<T, Capacity>\<close> is a list of at most \<open>Capacity\<close> elements:
  \<^verbatim>\<open>push_back\<close> and \<^verbatim>\<open>emplace_back\<close> report whether there was room, \<^verbatim>\<open>erase(it)\<close>
  closes the gap and does nothing when \<^verbatim>\<open>it\<close> is \<^verbatim>\<open>end()\<close>. \<open>push_all\<close> is a loop of
  \<^verbatim>\<open>push_back\<close> whose results are ignored.
\<close>

definition push_back :: "nat \<Rightarrow> 'a list \<Rightarrow> 'a \<Rightarrow> 'a list \<times> bool" where
  "push_back cap xs x = (if length xs < cap then (xs @ [x], True) else (xs, False))"

fun push_all :: "nat \<Rightarrow> 'a list \<Rightarrow> 'a list \<Rightarrow> 'a list" where
  "push_all cap xs [] = xs"
| "push_all cap xs (y # ys) = push_all cap (fst (push_back cap xs y)) ys"

definition erase_at :: "nat \<Rightarrow> 'a list \<Rightarrow> 'a list" where
  "erase_at i xs = take i xs @ drop (Suc i) xs"

text \<open>Reading through an iterator: outside the sequence it is undefined behaviour.\<close>

definition read_at :: "'a list \<Rightarrow> nat \<Rightarrow> 'a result" where
  "read_at xs i = (if i < length xs then Inr (xs ! i) else Inl Out_Of_Bounds)"

lemma find_if_le [simp]: "find_if P xs \<le> length xs"
  by (induction xs) auto

lemma find_if_less [vector_simps]: "find_if P xs < length xs \<longleftrightarrow> (\<exists>x \<in> set xs. P x)"
  by (induction xs) auto

lemma find_if_end [vector_simps]: "find_if P xs = length xs \<longleftrightarrow> (\<forall>x \<in> set xs. \<not> P x)"
  by (induction xs) auto

lemma find_if_nth: "find_if P xs < length xs \<Longrightarrow> P (xs ! find_if P xs)"
  by (induction xs) auto

lemma find_if_first: "i < find_if P xs \<Longrightarrow> \<not> P (xs ! i)"
  by (induction xs arbitrary: i) (auto simp: nth_Cons' split: if_splits)

lemma find_if_append:
  "find_if P (xs @ ys) = (if \<exists>x \<in> set xs. P x then find_if P xs else length xs + find_if P ys)"
  by (induction xs) auto

lemma find_if_cong: "(\<And>x. x \<in> set xs \<Longrightarrow> P x = Q x) \<Longrightarrow> find_if P xs = find_if Q xs"
  by (induction xs) auto

lemma find_if_map: "find_if P (map f xs) = find_if (P \<circ> f) xs"
  by (induction xs) auto

lemma push_back_simps [vector_simps]:
  "length xs < cap \<Longrightarrow> push_back cap xs x = (xs @ [x], True)"
  "\<not> length xs < cap \<Longrightarrow> push_back cap xs x = (xs, False)"
  by (simp_all add: push_back_def)

lemma push_back_bounded: "length xs \<le> cap \<Longrightarrow> length (fst (push_back cap xs x)) \<le> cap"
  by (simp add: push_back_def)

lemma push_all_take: "length xs \<le> cap \<Longrightarrow> push_all cap xs ys = take cap (xs @ ys)"
  by (induction ys arbitrary: xs) (auto simp: push_back_def take_Cons')

lemma erase_at_simps [simp]:
  "erase_at 0 (x # xs) = xs" "erase_at (Suc i) (x # xs) = x # erase_at i xs" "erase_at i [] = []"
  by (simp_all add: erase_at_def)

lemma erase_at_end [simp]: "length xs \<le> i \<Longrightarrow> erase_at i xs = xs"
  by (simp add: erase_at_def)

lemma length_erase_at [vector_simps]:
  "length (erase_at i xs) = (if i < length xs then length xs - 1 else length xs)"
  by (auto simp: erase_at_def)

lemma set_erase_at: "set (erase_at i xs) \<subseteq> set xs"
  by (auto simp: erase_at_def dest: in_set_takeD in_set_dropD)

lemma map_erase_at: "map f (erase_at i xs) = erase_at i (map f xs)"
  by (simp add: erase_at_def take_map drop_map)

lemma zip_erase_at:
  "length xs = length ys \<Longrightarrow> zip (erase_at i xs) (erase_at i ys) = erase_at i (zip xs ys)"
  by (simp add: erase_at_def take_zip drop_zip)

lemma distinct_erase_at: "distinct xs \<Longrightarrow> distinct (erase_at i xs)"
  by (simp add: erase_at_def set_take_disj_set_drop_if_distinct)

lemma erase_at_find_if: "erase_at (find_if (\<lambda>y. y = x) xs) xs = remove1 x xs"
  by (induction xs) auto

lemma read_at_Inr [result_simps]: "read_at xs i = Inr x \<longleftrightarrow> i < length xs \<and> xs ! i = x"
  by (auto simp: read_at_def)

lemma length_filter_update:
  "i < length xs \<Longrightarrow> length (filter P (xs[i := y])) + (if P (xs ! i) then 1 else 0)
     = length (filter P xs) + (if P y then 1 else 0)"
proof (induction xs arbitrary: i)
  case Nil
  then show ?case by simp
next
  case (Cons x xs)
  then show ?case by (cases i) auto
qed

section \<open>Raw buffers\<close>

text \<open>
  \<open>memcpy dst off src\<close> copies the bytes \<open>src\<close> to \<^verbatim>\<open>dst + off\<close>. Writing outside the
  destination is a fault.
\<close>

definition memcpy :: "'a list \<Rightarrow> nat \<Rightarrow> 'a list \<Rightarrow> 'a list result" where
  "memcpy dst off src =
     (if off + length src \<le> length dst
      then Inr (take off dst @ src @ drop (off + length src) dst)
      else Inl Out_Of_Bounds)"

lemma memcpy_ok [buffer_simps]:
  "off + length src \<le> length dst \<Longrightarrow>
     memcpy dst off src = Inr (take off dst @ src @ drop (off + length src) dst)"
  by (simp add: memcpy_def)

lemma memcpy_length: "memcpy dst off src = Inr dst' \<Longrightarrow> length dst' = length dst"
  by (auto simp: memcpy_def split: if_splits)

lemma memcpy_nth:
  assumes "memcpy dst off src = Inr dst'" and "i < length dst"
  shows "dst' ! i = (if off \<le> i \<and> i < off + length src then src ! (i - off) else dst ! i)"
proof -
  from assms have len: "off + length src \<le> length dst"
    and dst': "dst' = take off dst @ src @ drop (off + length src) dst"
    by (auto simp: memcpy_def split: if_splits)
  consider "i < off" | "off \<le> i" "i < off + length src" | "off + length src \<le> i"
    by linarith
  then show ?thesis
    using len assms(2) by cases (simp_all add: dst' nth_append less_diff_conv2)
qed

lemma memcpy_faults [result_simps]:
  "memcpy dst off src = Inl e \<longleftrightarrow> length dst < off + length src \<and> e = Out_Of_Bounds"
  by (auto simp: memcpy_def)

section \<open>Little-endian images of integers\<close>

fun nat_bytes :: "nat \<Rightarrow> nat \<Rightarrow> byte list" where
  "nat_bytes 0 v = []"
| "nat_bytes (Suc n) v = word_of_nat v # nat_bytes n (v div 256)"

fun bytes_nat :: "byte list \<Rightarrow> nat" where
  "bytes_nat [] = 0"
| "bytes_nat (b # bs) = unat b + 256 * bytes_nat bs"

lemma length_nat_bytes [simp]: "length (nat_bytes n v) = n"
  by (induction n arbitrary: v) auto

lemma bytes_nat_bytes: "bytes_nat (nat_bytes n v) = v mod 256 ^ n"
proof (induction n arbitrary: v)
  case 0
  then show ?case by simp
next
  case (Suc n)
  have "unat (word_of_nat v :: byte) = v mod 256"
    by (simp add: unat_of_nat)
  then show ?case
    by (simp add: Suc.IH mod_mult2_eq)
qed

lemma u32_bytes_nat [simp]: "word_of_nat (bytes_nat (nat_bytes 4 (unat (w :: u32)))) = w"
proof -
  have "unat w < 256 ^ 4"
    using unsigned_less [of w, where 'a = nat] by simp
  then show ?thesis by (simp add: bytes_nat_bytes)
qed

lemma u64_bytes_nat [simp]: "word_of_nat (bytes_nat (nat_bytes 8 (unat (w :: u64)))) = w"
proof -
  have "unat w < 256 ^ 8"
    using unsigned_less [of w, where 'a = nat] by simp
  then show ?thesis by (simp add: bytes_nat_bytes)
qed

text \<open>The bytes of a character literal of the source.\<close>

definition bytes_of :: "string \<Rightarrow> byte list" where
  "bytes_of s = map (\<lambda>c. word_of_nat (of_char c)) s"

end
