(* ===== verification/Types.thy ===== *)
theory Types
  imports Prelude
begin

text \<open>
  The types and constants of \<^verbatim>\<open>include/p3com/generic/config.hpp\<close>,
  \<^verbatim>\<open>include/p3com/generic/types.hpp\<close> and \<^verbatim>\<open>include/p3com/transport/transport_type.hpp\<close>
  (the build that is not for FreeRTOS), and the record \<open>iox_env\<close> of what the sources take
  from the iceoryx middleware: its constants and the functions whose bodies are not part of
  this repository. Definitions that use them take an \<open>iox_env\<close> as an argument.
\<close>

section \<open>Configuration constants\<close>

definition MAX_TOPICS :: nat where
  "MAX_TOPICS = 32"

definition TRANSPORT_TYPE_COUNT :: nat where
  "TRANSPORT_TYPE_COUNT = 4"

definition MAX_DEVICE_COUNT :: nat where
  "MAX_DEVICE_COUNT = 10"

definition MAX_FORWARDED_SERVICES :: nat where
  "MAX_FORWARDED_SERVICES = 8"

definition USER_HEADER_ALIGNMENT :: u32 where
  "USER_HEADER_ALIGNMENT = 8"

definition MAX_NETWORK_IFACE_COUNT :: nat where
  "MAX_NETWORK_IFACE_COUNT = 10"

lemmas config_defs = MAX_TOPICS_def TRANSPORT_TYPE_COUNT_def MAX_DEVICE_COUNT_def
  MAX_FORWARDED_SERVICES_def USER_HEADER_ALIGNMENT_def MAX_NETWORK_IFACE_COUNT_def

section \<open>Transport types\<close>

text \<open>
  \<^verbatim>\<open>enum struct TransportType\<close> numbers its enumerators from 1. A \<^verbatim>\<open>static_cast\<close> from any
  other number yields a value with no name: \<open>Unnamed\<close>.
\<close>

datatype transport_type = PCIE | UDP | TCP | NONE | Unnamed nat

fun index :: "transport_type \<Rightarrow> nat" where
  "index PCIE = 1"
| "index UDP = 2"
| "index TCP = 3"
| "index NONE = 4"
| "index (Unnamed i) = i"

definition type_of_index :: "nat \<Rightarrow> transport_type" where
  "type_of_index i =
     (if i = 1 then PCIE else if i = 2 then UDP else if i = 3 then TCP
      else if i = 4 then NONE else Unnamed i)"

text \<open>An array of four C strings with three initialisers; the last element is a null pointer.\<close>

definition TRANSPORT_TYPE_NAMES :: "string option list" where
  "TRANSPORT_TYPE_NAMES = [Some ''PCIE'', Some ''UDP'', Some ''TCP'', None]"

definition LOSSY_TRANSPORT_TYPES :: "transport_type list" where
  "LOSSY_TRANSPORT_TYPES = [UDP, TCP]"

lemma index_type_of_index [simp]: "index (type_of_index i) = i"
  by (simp add: type_of_index_def)

section \<open>Messages\<close>

type_synonym hash = u32
type_synonym bitset = u64
type_synonym id_string = "byte list"
type_synonym class_hash = "u32 list"

record service_description =
  serviceID :: id_string
  instanceID :: id_string
  eventID :: id_string

record device_index =
  di_type :: transport_type
  di_device :: u32

record pub_sub_info =
  userSubscribers :: "service_description list"
  gatewayBitset :: bitset
  gatewayHash :: hash
  infoHash :: hash
  isTermination :: bool

record datagram_header =
  serviceHash :: class_hash
  messageHash :: hash
  submessageCount :: u32
  submessageOffset :: u32
  submessageSize :: u32
  userPayloadSize :: u32
  userPayloadAlignment :: u32
  userHeaderSize :: u32

section \<open>What the sources take from iceoryx\<close>

text \<open>
  \<open>idCapacity\<close> is \<^verbatim>\<open>capro::IdString_t::capacity()\<close>, \<open>classHashCount\<close> is
  \<^verbatim>\<open>capro::CLASS_HASH_ELEMENT_COUNT\<close>, \<open>maxPublishers\<close> is \<^verbatim>\<open>MAX_PUBLISHERS\<close>,
  \<open>getClassHash\<close> is \<^verbatim>\<open>ServiceDescription::getClassHash\<close> and \<open>unsafeAssign\<close> is
  \<^verbatim>\<open>string::unsafe_assign\<close> applied to the memory at a C string pointer: the assigned
  string, or nothing when the assignment fails.
\<close>

record iox_env =
  idCapacity :: nat
  classHashCount :: nat
  maxPublishers :: nat
  getClassHash :: "service_description \<Rightarrow> class_hash"
  unsafeAssign :: "byte list \<Rightarrow> id_string option"

text \<open>
  The documented behaviour of \<^verbatim>\<open>unsafe_assign\<close>: it assigns a null-terminated string that
  fits the capacity, and what it has assigned was such a string.
\<close>

definition assigns_c_strings :: "iox_env \<Rightarrow> bool" where
  "assigns_c_strings E \<longleftrightarrow>
     (\<forall>s rest. 0 \<notin> set s \<longrightarrow> length s \<le> idCapacity E \<longrightarrow> unsafeAssign E (s @ 0 # rest) = Some s)"

text \<open>A concrete environment, for evaluating the model on examples.\<close>

definition sample_hash :: "service_description \<Rightarrow> class_hash" where
  "sample_hash s =
     (let w = (\<lambda>bs. word_of_nat (bytes_nat bs))
      in [w (serviceID s), w (instanceID s), w (eventID s), 0])"

definition sample_assign :: "byte list \<Rightarrow> id_string option" where
  "sample_assign mem =
     (let s = takeWhile (\<lambda>b. b \<noteq> 0) mem
      in if length s \<le> 100 \<and> length s < length mem then Some s else None)"

definition sample_env :: iox_env where
  "sample_env = \<lparr>idCapacity = 100, classHashCount = 4, maxPublishers = 512,
     getClassHash = sample_hash, unsafeAssign = sample_assign\<rparr>"

lemma sample_env_assigns: "assigns_c_strings sample_env"
proof -
  have "takeWhile (\<lambda>b. b \<noteq> 0) (s @ 0 # rest) = s" if "0 \<notin> set s" for s rest :: "byte list"
    using that by (metis (mono_tags, lifting) takeWhile_append2 takeWhile.simps(2) append_Nil2)
  then show ?thesis
    by (auto simp: assigns_c_strings_def sample_env_def sample_assign_def)
qed

end
