(* ===== verification/Transport.thy ===== *)
theory Transport
  imports Types
begin

text \<open>
  The transport layer registry: the failure status of a transport layer
  (\<^verbatim>\<open>include/p3com/transport/transport.hpp\<close>) and the class \<^verbatim>\<open>TransportInfo\<close>
  (\<^verbatim>\<open>include/p3com/transport/transport_info.hpp\<close>, \<^verbatim>\<open>source/p3com/transport/transport_info.cpp\<close>)
  that creates layers, runs a function on the good ones, disables the failed ones and chooses
  the layer to reach a remote gateway with. Log output is not modelled.
\<close>

section \<open>The status of a transport layer\<close>

datatype transport_status = GOOD | FAILED | DISABLED

record transport_layer =
  getType :: transport_type
  m_status :: transport_status

definition isGood :: "transport_layer \<Rightarrow> bool" where
  "isGood t = (m_status t = GOOD)"

text \<open>\<^verbatim>\<open>compare_exchange_strong\<close>: one atomic test and store; the result says whether it stored.\<close>

definition compareExchange ::
  "transport_layer \<Rightarrow> transport_status \<Rightarrow> transport_status \<Rightarrow> transport_layer \<times> bool" where
  "compareExchange t expected desired =
     (if m_status t = expected then (t\<lparr>m_status := desired\<rparr>, True) else (t, False))"

definition hasFailedSetDisabled :: "transport_layer \<Rightarrow> transport_layer \<times> bool" where
  "hasFailedSetDisabled t = compareExchange t FAILED DISABLED"

definition setFailed :: "transport_layer \<Rightarrow> transport_layer" where
  "setFailed t = fst (compareExchange t GOOD FAILED)"

text \<open>
  The status is shared by the worker threads of the layers and the threads of the gateway.
  Both accesses are atomic, so an execution is an interleaving of them: a list of calls, of
  which we keep the final layer and the number of \<^verbatim>\<open>hasFailedSetDisabled\<close> calls that
  returned true.
\<close>

datatype status_call = Call_setFailed | Call_hasFailedSetDisabled

fun status_run :: "transport_layer \<Rightarrow> status_call list \<Rightarrow> transport_layer \<times> nat" where
  "status_run t [] = (t, 0)"
| "status_run t (Call_setFailed # cs) = status_run (setFailed t) cs"
| "status_run t (Call_hasFailedSetDisabled # cs) =
     (case hasFailedSetDisabled t of (t', b) \<Rightarrow>
        (case status_run t' cs of (t'', n) \<Rightarrow> (t'', if b then Suc n else n)))"

inductive status_step :: "transport_status \<Rightarrow> transport_status \<Rightarrow> bool" where
  fail: "status_step GOOD FAILED"
| disable: "status_step FAILED DISABLED"

inductive_cases status_step_from_good: "status_step GOOD s"
inductive_cases status_step_from_failed: "status_step FAILED s"
inductive_cases status_step_from_disabled: "status_step DISABLED s"
inductive_simps status_step_simps: "status_step s s'"

lemmas status_defs = isGood_def compareExchange_def hasFailedSetDisabled_def setFailed_def

lemma setFailed_step:
  "setFailed t = t \<or> status_step (m_status t) (m_status (setFailed t))"
  by (auto simp: status_defs status_step_simps)

lemma hasFailedSetDisabled_step:
  "hasFailedSetDisabled t = (t, False) \<or>
   snd (hasFailedSetDisabled t) \<and> status_step (m_status t) (m_status (fst (hasFailedSetDisabled t)))"
  by (auto simp: status_defs status_step_simps)

lemma hasFailedSetDisabled_iff [simp]: "snd (hasFailedSetDisabled t) \<longleftrightarrow> m_status t = FAILED"
  by (simp add: status_defs)

lemma getType_status [simp]:
  "getType (setFailed t) = getType t" "getType (fst (hasFailedSetDisabled t)) = getType t"
  by (simp_all add: status_defs)

lemma status_run_getType: "getType (fst (status_run t cs)) = getType t"
  by (induction t cs rule: status_run.induct)
    (auto simp: split_beta hasFailedSetDisabled_def compareExchange_def split: if_splits)

lemma status_run_disabled: "m_status t = DISABLED \<Longrightarrow> status_run t cs = (t, 0)"
  by (induction t cs rule: status_run.induct) (auto simp: status_defs)

lemma status_run_failed:
  "m_status t = FAILED \<Longrightarrow>
     status_run t cs = (if Call_hasFailedSetDisabled \<in> set cs then (t\<lparr>m_status := DISABLED\<rparr>, 1) else (t, 0))"
  by (induction t cs rule: status_run.induct) (auto simp: status_defs status_run_disabled)

section \<open>The registry of transport layers\<close>

text \<open>
  The preprocessor symbols of the build decide which layers exist. A constructed layer is
  good unless its constructor failed; the outcome of the constructors is the parameter
  \<open>ctor\<close>.
\<close>

record build =
  PCIE_GATEWAY :: bool
  UDP_GATEWAY :: bool
  TCP_GATEWAY :: bool

record transport_info =
  s_transports :: "transport_layer option list"
  s_bitset :: bitset

definition initial_transport_info :: transport_info where
  "initial_transport_info = \<lparr>s_transports = replicate TRANSPORT_TYPE_COUNT None, s_bitset = 0\<rparr>"

definition put_transport :: "nat \<Rightarrow> transport_layer \<Rightarrow> transport_info \<Rightarrow> transport_info" where
  "put_transport i t ti = ti\<lparr>s_transports := (s_transports ti)[i := Some t]\<rparr>"

definition compiled :: "build \<Rightarrow> transport_type \<Rightarrow> bool" where
  "compiled B type =
     (case type of PCIE \<Rightarrow> PCIE_GATEWAY B | UDP \<Rightarrow> UDP_GATEWAY B | TCP \<Rightarrow> TCP_GATEWAY B | _ \<Rightarrow> False)"

definition enable ::
  "build \<Rightarrow> (transport_type \<Rightarrow> transport_status) \<Rightarrow> transport_type \<Rightarrow> transport_info \<Rightarrow> transport_info" where
  "enable B ctor type ti =
     (let i = index type;
          ti1 = ti\<lparr>s_bitset := set_bit i (s_bitset ti)\<rparr>;
          make = put_transport i \<lparr>getType = type, m_status = ctor type\<rparr> ti1
      in case type of
           PCIE \<Rightarrow> if PCIE_GATEWAY B then make else ti1
         | UDP \<Rightarrow> if UDP_GATEWAY B then make else ti1
         | TCP \<Rightarrow> if TCP_GATEWAY B then make else ti1
         | _ \<Rightarrow> ti1)"

definition enableAll ::
  "build \<Rightarrow> (transport_type \<Rightarrow> transport_status) \<Rightarrow> transport_info \<Rightarrow> transport_info" where
  "enableAll B ctor ti =
     (let ti1 = if PCIE_GATEWAY B then enable B ctor PCIE ti else ti;
          ti2 = if UDP_GATEWAY B \<and> \<not> TCP_GATEWAY B then enable B ctor UDP ti1 else ti1
      in if TCP_GATEWAY B then enable B ctor TCP ti2 else ti2)"

definition disable_type :: "transport_type \<Rightarrow> transport_info \<Rightarrow> transport_info" where
  "disable_type type ti = ti\<lparr>s_bitset := unset_bit (index type) (s_bitset ti)\<rparr>"

definition terminate_transports :: "transport_info \<Rightarrow> transport_info" where
  "terminate_transports ti = ti\<lparr>s_transports := map (\<lambda>_. None) (s_transports ti)\<rparr>"

definition findMatchingType :: "bitset \<Rightarrow> transport_type \<Rightarrow> transport_info \<Rightarrow> transport_type" where
  "findMatchingType remoteBitset preferredType ti =
     (let preferredTypeIndex = index preferredType
      in if preferredType \<noteq> NONE \<and> bit remoteBitset preferredTypeIndex \<and> bit (s_bitset ti) preferredTypeIndex
         then preferredType
         else case find (\<lambda>t. case t of None \<Rightarrow> False
                              | Some l \<Rightarrow> isGood l \<and> bit remoteBitset (index (getType l))) (s_transports ti)
              of Some (Some l) \<Rightarrow> getType l
               | _ \<Rightarrow> NONE)"

section \<open>Running a function on the enabled layers\<close>

text \<open>
  A call on a layer may change the layer (it may fail) and the rest of the world \<open>'w\<close>. The
  registered failure callback runs on the registry after a failed layer has been disabled.
\<close>

type_synonym 'w layer_fn = "transport_layer \<Rightarrow> 'w \<Rightarrow> (transport_layer \<times> 'w) result"
type_synonym 'w fail_callback = "transport_info \<Rightarrow> 'w \<Rightarrow> (transport_info \<times> 'w) result"

definition callGood :: "'w layer_fn \<Rightarrow> nat \<Rightarrow> transport_info \<times> 'w \<Rightarrow> (transport_info \<times> 'w) result" where
  "callGood fn i = (\<lambda>(ti, w).
     case s_transports ti ! i of
       None \<Rightarrow> Inr (ti, w)
     | Some t \<Rightarrow>
         if isGood t then bindR (fn t w) (\<lambda>(t', w'). Inr (put_transport i t' ti, w')) else Inr (ti, w))"

definition checkFailed ::
  "'w fail_callback option \<Rightarrow> nat \<Rightarrow> transport_info \<times> 'w \<Rightarrow> (transport_info \<times> 'w) result" where
  "checkFailed cb i = (\<lambda>(ti, w).
     case s_transports ti ! i of
       None \<Rightarrow> Inr (ti, w)
     | Some t \<Rightarrow>
         (case hasFailedSetDisabled t of (t', failed) \<Rightarrow>
            if failed
            then let ti' = disable_type (getType t') (put_transport i t' ti)
                 in (case cb of None \<Rightarrow> Inr (ti', w) | Some f \<Rightarrow> f ti' w)
            else Inr (ti, w)))"

definition doFor ::
  "transport_type \<Rightarrow> 'w layer_fn \<Rightarrow> 'w fail_callback option \<Rightarrow> transport_info \<times> 'w
     \<Rightarrow> (transport_info \<times> 'w) result" where
  "doFor type fn cb s =
     (let i = index type
      in if i < TRANSPORT_TYPE_COUNT then bindR (callGood fn i s) (checkFailed cb i)
         else Inl Out_Of_Bounds)"

fun foldR :: "('a \<Rightarrow> 's \<Rightarrow> 's result) \<Rightarrow> 'a list \<Rightarrow> 's \<Rightarrow> 's result" where
  "foldR f [] s = Inr s"
| "foldR f (x # xs) s = bindR (f x s) (foldR f xs)"

lemma foldR_Nil_fun [simp]: "foldR f [] = Inr"
  by (rule ext) simp

lemma foldR_append: "foldR f (xs @ ys) y = bindR (foldR f xs y) (foldR f ys)"
  by (induction xs arbitrary: y) (simp_all add: bindR_assoc cong: bindR_cong)

definition doForAllEnabled ::
  "'w layer_fn \<Rightarrow> 'w fail_callback option \<Rightarrow> transport_info \<times> 'w \<Rightarrow> (transport_info \<times> 'w) result" where
  "doForAllEnabled fn cb s =
     bindR (foldR (callGood fn) [0..<TRANSPORT_TYPE_COUNT] s)
           (foldR (checkFailed cb) [0..<TRANSPORT_TYPE_COUNT])"

section \<open>The registry invariant\<close>

text \<open>
  Every slot holds a layer of its own type, and the bits announced to the other gateways are
  those of the layers that exist and have not been disabled.
\<close>

definition ti_wf :: "transport_info \<Rightarrow> bool" where
  "ti_wf ti \<longleftrightarrow> length (s_transports ti) = TRANSPORT_TYPE_COUNT \<and>
     (\<forall>i t. i < TRANSPORT_TYPE_COUNT \<longrightarrow> s_transports ti ! i = Some t \<longrightarrow>
        getType t \<in> {PCIE, UDP, TCP} \<and> index (getType t) = i) \<and>
     (\<forall>i. bit (s_bitset ti) i \<longleftrightarrow>
        i < TRANSPORT_TYPE_COUNT \<and> (\<exists>t. s_transports ti ! i = Some t \<and> m_status t \<noteq> DISABLED))"

lemma ti_wfD:
  assumes "ti_wf ti"
  shows "length (s_transports ti) = TRANSPORT_TYPE_COUNT"
    and "i < TRANSPORT_TYPE_COUNT \<Longrightarrow> s_transports ti ! i = Some t \<Longrightarrow> index (getType t) = i"
    and "i < TRANSPORT_TYPE_COUNT \<Longrightarrow> s_transports ti ! i = Some t \<Longrightarrow> getType t \<in> {PCIE, UDP, TCP}"
    and "bit (s_bitset ti) i \<longleftrightarrow>
      i < TRANSPORT_TYPE_COUNT \<and> (\<exists>t. s_transports ti ! i = Some t \<and> m_status t \<noteq> DISABLED)"
  using assms unfolding ti_wf_def by blast+

lemma initial_transport_info_wf: "ti_wf initial_transport_info"
  by (auto simp: ti_wf_def initial_transport_info_def)

text \<open>Storing a layer of the right type keeps the invariant when its bit tells its status.\<close>

lemma put_transport_wf:
  assumes "ti_wf ti" "i < TRANSPORT_TYPE_COUNT" "getType t \<in> {PCIE, UDP, TCP}" "index (getType t) = i"
    and "\<And>j. bit b j \<longleftrightarrow> (if j = i then m_status t \<noteq> DISABLED else bit (s_bitset ti) j)"
  shows "ti_wf (put_transport i t (ti\<lparr>s_bitset := b\<rparr>))"
  unfolding ti_wf_def
proof (intro conjI allI impI)
  fix j
  show "bit (s_bitset (put_transport i t (ti\<lparr>s_bitset := b\<rparr>))) j \<longleftrightarrow> j < TRANSPORT_TYPE_COUNT \<and>
      (\<exists>t'. s_transports (put_transport i t (ti\<lparr>s_bitset := b\<rparr>)) ! j = Some t' \<and> m_status t' \<noteq> DISABLED)"
    using assms ti_wfD(1) [OF assms(1)] ti_wfD(4) [OF assms(1), of j]
    by (cases "j = i") (auto simp: put_transport_def)
next
  fix j t'
  assume "j < TRANSPORT_TYPE_COUNT" "s_transports (put_transport i t (ti\<lparr>s_bitset := b\<rparr>)) ! j = Some t'"
  then have "t' = t \<and> j = i \<or> s_transports ti ! j = Some t'"
    using ti_wfD(1) [OF assms(1)] by (cases "j = i") (auto simp: put_transport_def)
  then show "getType t' \<in> {PCIE, UDP, TCP}" "index (getType t') = j"
    using assms ti_wfD(2,3) [OF assms(1) \<open>j < _\<close>, of t'] by auto
qed (use ti_wfD(1) [OF assms(1)] in \<open>simp add: put_transport_def\<close>)

lemma enable_wf:
  assumes "ti_wf ti" "compiled B type" "ctor type \<noteq> DISABLED"
  shows "ti_wf (enable B ctor type ti)"
proof -
  have ty: "type \<in> {PCIE, UDP, TCP}"
    using assms(2) by (cases type) (auto simp: compiled_def)
  have "enable B ctor type ti = put_transport (index type) \<lparr>getType = type, m_status = ctor type\<rparr>
      (ti\<lparr>s_bitset := set_bit (index type) (s_bitset ti)\<rparr>)"
    using assms(2) by (cases type) (auto simp: enable_def compiled_def)
  also have "ti_wf \<dots>"
    using assms ty by (intro put_transport_wf) (auto simp: bit_simps TRANSPORT_TYPE_COUNT_def)
  finally show ?thesis .
qed

section \<open>The contract between the registry and the functions run on it\<close>

text \<open>
  The number of layers that are not disabled. It never grows, and it shrinks whenever the
  failure callback runs, which is what bounds the recursion of the callbacks.
\<close>

definition active :: "transport_info \<Rightarrow> nat" where
  "active ti = length (filter (\<lambda>t. \<exists>l. t = Some l \<and> m_status l \<noteq> DISABLED) (s_transports ti))"

lemma active_put_same:
  assumes "i < length (s_transports ti)" "s_transports ti ! i = Some t"
    and "m_status t \<noteq> DISABLED" "m_status t' \<noteq> DISABLED"
  shows "active (put_transport i t' ti) = active ti"
  using length_filter_update [OF assms(1), of "\<lambda>t. \<exists>l. t = Some l \<and> m_status l \<noteq> DISABLED" "Some t'"] assms
  by (simp add: active_def put_transport_def)

lemma active_put_disabled:
  assumes "i < length (s_transports ti)" "s_transports ti ! i = Some t"
    and "m_status t \<noteq> DISABLED" "m_status t' = DISABLED"
  shows "Suc (active (disable_type ty (put_transport i t' ti))) = active ti"
  using length_filter_update [OF assms(1), of "\<lambda>t. \<exists>l. t = Some l \<and> m_status l \<noteq> DISABLED" "Some t'"] assms
  by (simp add: active_def put_transport_def disable_type_def)

lemma active_le:
  assumes "ti_wf ti"
  shows "active ti \<le> TRANSPORT_TYPE_COUNT"
proof -
  have "active ti \<le> length (s_transports ti)"
    unfolding active_def by (rule length_filter_le)
  then show ?thesis using ti_wfD(1) [OF assms] by simp
qed

text \<open>
  What a function run on a good layer may do to it: change its status, but not its type, and
  not disable it (only the registry does that). What a failure callback may do to the
  registry: keep the invariant and never bring a disabled layer back.
\<close>

locale layer_client =
  fixes fn :: "'w layer_fn"
  assumes fn_type: "isGood t \<Longrightarrow> fn t w = Inr (t', w') \<Longrightarrow> getType t' = getType t"
    and fn_status: "isGood t \<Longrightarrow> fn t w = Inr (t', w') \<Longrightarrow> m_status t' \<noteq> DISABLED"
begin

lemma callGood_wf:
  assumes "ti_wf ti" "i < TRANSPORT_TYPE_COUNT" "callGood fn i (ti, w) = Inr (ti', w')"
  shows "ti_wf ti' \<and> active ti' = active ti"
proof (cases "s_transports ti ! i")
  case None
  then show ?thesis using assms by (simp add: callGood_def)
next
  case (Some t)
  show ?thesis
  proof (cases "isGood t")
    case True
    with assms(3) Some obtain t' where t': "fn t w = Inr (t', w')" "ti' = put_transport i t' ti"
      by (auto simp: callGood_def result_simps)
    have st: "m_status t \<noteq> DISABLED" "m_status t' \<noteq> DISABLED"
      using True fn_status [OF True t'(1)] by (simp_all add: isGood_def)
    have "ti_wf (put_transport i t' (ti\<lparr>s_bitset := s_bitset ti\<rparr>))"
      using assms(1,2) Some st fn_type [OF True t'(1)] ti_wfD(2,3) [OF assms(1,2) Some]
      by (intro put_transport_wf) (auto simp: ti_wfD(4) [OF assms(1)])
    then show ?thesis
      using t' st Some assms(2) ti_wfD(1) [OF assms(1)] by (simp add: active_put_same)
  next
    case False
    then show ?thesis using assms Some by (simp add: callGood_def)
  qed
qed

lemma foldR_callGood_wf:
  assumes "ti_wf ti" "\<forall>i \<in> set is. i < TRANSPORT_TYPE_COUNT" "foldR (callGood fn) is (ti, w) = Inr (ti', w')"
  shows "ti_wf ti' \<and> active ti' = active ti"
  using assms
proof (induction "is" arbitrary: ti w)
  case Nil
  then show ?case by simp
next
  case (Cons i "is")
  then obtain ti1 w1 where step: "callGood fn i (ti, w) = Inr (ti1, w1)"
    and rest: "foldR (callGood fn) is (ti1, w1) = Inr (ti', w')"
    by (auto simp: result_simps)
  have "ti_wf ti1" "active ti1 = active ti"
    using callGood_wf [OF _ _ step] Cons.prems by auto
  then show ?case using Cons.IH [OF _ _ rest] Cons.prems by simp
qed

end

definition has_failed :: "transport_info \<Rightarrow> nat \<Rightarrow> bool" where
  "has_failed ti i \<longleftrightarrow> (\<exists>t. s_transports ti ! i = Some t \<and> m_status t = FAILED)"

lemma checkFailed_skip: "\<not> has_failed ti i \<Longrightarrow> checkFailed cb i (ti, w) = Inr (ti, w)"
  by (auto simp: checkFailed_def has_failed_def status_defs split: option.splits)

lemma checkFailed_None: "checkFailed None = checkFailed (Some (\<lambda>ti w. Inr (ti, w)))"
  unfolding checkFailed_def option.case Let_def ..

lemma checkFailed_run:
  assumes "ti_wf ti" "i < TRANSPORT_TYPE_COUNT" "has_failed ti i"
  obtains ti' where "ti_wf ti'" "Suc (active ti') = active ti" "checkFailed (Some f) i (ti, w) = f ti' w"
proof -
  from assms(3) obtain t where t: "s_transports ti ! i = Some t" "m_status t = FAILED"
    by (auto simp: has_failed_def)
  let ?t = "t\<lparr>m_status := DISABLED\<rparr>"
  let ?ti = "disable_type (getType t) (put_transport i ?t ti)"
  have eq: "?ti = put_transport i ?t (ti\<lparr>s_bitset := unset_bit (index (getType t)) (s_bitset ti)\<rparr>)"
    by (simp add: disable_type_def put_transport_def)
  have "ti_wf ?ti"
    unfolding eq using ti_wfD(2,3) [OF assms(1,2) t(1)] assms(1,2)
    by (intro put_transport_wf) (auto simp: bit_simps)
  moreover have "Suc (active ?ti) = active ti"
    using assms(2) t ti_wfD(1) [OF assms(1)] by (intro active_put_disabled) auto
  moreover have "checkFailed (Some f) i (ti, w) = f ?ti w"
    using t by (simp add: checkFailed_def status_defs)
  ultimately show ?thesis by (rule that)
qed

locale fail_handler =
  fixes cb :: "'w fail_callback option"
  assumes cb_wf: "cb = Some f \<Longrightarrow> ti_wf ti \<Longrightarrow> f ti w = Inr (ti', w') \<Longrightarrow> ti_wf ti'"
    and cb_active: "cb = Some f \<Longrightarrow> ti_wf ti \<Longrightarrow> f ti w = Inr (ti', w') \<Longrightarrow> active ti' \<le> active ti"
begin

lemma checkFailed_wf:
  assumes "ti_wf ti" "i < TRANSPORT_TYPE_COUNT" "checkFailed cb i (ti, w) = Inr (ti', w')"
  shows "ti_wf ti' \<and> active ti' \<le> active ti"
proof (cases "has_failed ti i")
  case True
  show ?thesis
  proof (cases cb)
    case None
    then have "checkFailed (Some (\<lambda>ti w. Inr (ti, w))) i (ti, w) = Inr (ti', w')"
      using assms(3) by (simp add: checkFailed_None)
    then show ?thesis using checkFailed_run [OF assms(1,2) True, of "\<lambda>ti w. Inr (ti, w)" w] by fastforce
  next
    case (Some f)
    obtain ti1 where "ti_wf ti1" "Suc (active ti1) = active ti" "checkFailed cb i (ti, w) = f ti1 w"
      using checkFailed_run [OF assms(1,2) True, of f w] Some by blast
    moreover from this have "f ti1 w = Inr (ti', w')" using assms(3) by simp
    ultimately show ?thesis using cb_wf [OF Some, of ti1] cb_active [OF Some, of ti1] by fastforce
  qed
next
  case False
  then show ?thesis using assms by (simp add: checkFailed_skip)
qed

lemma foldR_checkFailed_wf:
  assumes "ti_wf ti" "\<forall>i \<in> set is. i < TRANSPORT_TYPE_COUNT" "foldR (checkFailed cb) is (ti, w) = Inr (ti', w')"
  shows "ti_wf ti' \<and> active ti' \<le> active ti"
  using assms
proof (induction "is" arbitrary: ti w)
  case Nil
  then show ?case by simp
next
  case (Cons i "is")
  then obtain ti1 w1 where step: "checkFailed cb i (ti, w) = Inr (ti1, w1)"
    and rest: "foldR (checkFailed cb) is (ti1, w1) = Inr (ti', w')"
    by (auto simp: result_simps)
  have "ti_wf ti1" "active ti1 \<le> active ti"
    using checkFailed_wf [OF _ _ step] Cons.prems by auto
  then show ?case using Cons.IH [OF _ _ rest] Cons.prems by simp
qed

end

locale registry_client = layer_client fn + fail_handler cb
  for fn :: "'w layer_fn" and cb :: "'w fail_callback option"
begin

lemma doFor_wf:
  assumes "ti_wf ti" "doFor type fn cb (ti, w) = Inr (ti', w')"
  shows "ti_wf ti' \<and> active ti' \<le> active ti"
proof -
  let ?i = "index type"
  from assms(2) obtain ti1 w1 where "?i < TRANSPORT_TYPE_COUNT"
    "callGood fn ?i (ti, w) = Inr (ti1, w1)" "checkFailed cb ?i (ti1, w1) = Inr (ti', w')"
    by (auto simp: doFor_def result_simps split: if_splits)
  then show ?thesis using callGood_wf [OF assms(1)] checkFailed_wf by fastforce
qed

lemma doForAllEnabled_wf:
  assumes "ti_wf ti" "doForAllEnabled fn cb (ti, w) = Inr (ti', w')"
  shows "ti_wf ti' \<and> active ti' \<le> active ti"
proof -
  from assms(2) obtain ti1 w1
    where call: "foldR (callGood fn) [0..<TRANSPORT_TYPE_COUNT] (ti, w) = Inr (ti1, w1)"
      and check: "foldR (checkFailed cb) [0..<TRANSPORT_TYPE_COUNT] (ti1, w1) = Inr (ti', w')"
    by (auto simp: doForAllEnabled_def result_simps)
  have "ti_wf ti1 \<and> active ti1 = active ti"
    using foldR_callGood_wf [OF assms(1) _ call] by simp
  then show ?thesis using foldR_checkFailed_wf [OF _ _ check] by simp
qed

end

lemma doFor_good:
  assumes "index type < TRANSPORT_TYPE_COUNT" "s_transports ti ! index type = Some t" "isGood t" "fn t w = Inr (t, w')"
  shows "doFor type fn cb (ti, w) = Inr (ti, w')"
proof -
  have "put_transport (index type) t ti = ti"
    using assms(2) list_update_id [of "s_transports ti" "index type"] by (simp add: put_transport_def)
  then have "callGood fn (index type) (ti, w) = Inr (ti, w')"
    using assms by (simp add: callGood_def)
  moreover have "\<not> has_failed ti (index type)" using assms(2,3) by (simp add: has_failed_def isGood_def)
  ultimately show ?thesis using assms(1) by (simp add: doFor_def checkFailed_skip)
qed

text \<open>What both the function and the callback preserve, \<^verbatim>\<open>doFor\<close> preserves.\<close>

lemma doFor_invariant:
  assumes "doFor type fn cb (ti, w) = Inr (ti', w')" "I w"
    and "\<And>t w t' w'. fn t w = Inr (t', w') \<Longrightarrow> I w \<Longrightarrow> I w'"
    and "\<And>f ti w ti' w'. cb = Some f \<Longrightarrow> f ti w = Inr (ti', w') \<Longrightarrow> I w \<Longrightarrow> I w'"
  shows "I w'"
proof -
  let ?i = "index type"
  from assms(1) obtain ti1 w1 where 1: "callGood fn ?i (ti, w) = Inr (ti1, w1)" "checkFailed cb ?i (ti1, w1) = Inr (ti', w')"
    by (auto simp: doFor_def result_simps split: if_splits)
  have "I w1"
    using 1(1) assms(2,3) by (auto simp: callGood_def result_simps split: option.splits if_splits)
  then show ?thesis
    using 1(2) assms(4) by (auto simp: checkFailed_def split: option.splits prod.splits if_splits)
qed

section \<open>Total runs\<close>

text \<open>
  A callback is adequate below \<open>K\<close> when it returns on every registry with fewer than \<open>K\<close> active
  layers, starting from a world with \<open>I\<close> and ending in one with \<open>J\<close>. Since a failed layer is
  disabled before the callback runs, the checks of a registry with at most \<open>K\<close> active layers
  return, and if they disabled anything the final world satisfies \<open>J\<close>.
\<close>

definition adequate ::
  "nat \<Rightarrow> ('w \<Rightarrow> bool) \<Rightarrow> ('w \<Rightarrow> bool) \<Rightarrow> 'w fail_callback \<Rightarrow> bool" where
  "adequate K I J f \<longleftrightarrow> (\<forall>ti w. ti_wf ti \<longrightarrow> active ti < K \<longrightarrow> I w \<longrightarrow>
     (\<exists>ti' w'. f ti w = Inr (ti', w') \<and> ti_wf ti' \<and> active ti' \<le> active ti \<and> J w'))"

lemma foldR_checkFailed_skip:
  assumes "\<forall>i \<in> set is. \<not> has_failed ti i"
  shows "foldR (checkFailed cb) is (ti, w) = Inr (ti, w)"
  using assms by (induction "is") (simp_all add: checkFailed_skip)

lemma foldR_checkFailed_total:
  assumes "adequate K I J f" "\<And>w. J w \<Longrightarrow> I w" "ti_wf ti" "active ti \<le> K" "I w"
    and "\<forall>i \<in> set is. i < TRANSPORT_TYPE_COUNT"
  shows "\<exists>ti' w'. foldR (checkFailed (Some f)) is (ti, w) = Inr (ti', w') \<and> ti_wf ti' \<and> active ti' \<le> active ti \<and>
    I w' \<and> (J w \<or> (\<exists>i \<in> set is. has_failed ti i) \<longrightarrow> J w')"
  using assms(3-6)
proof (induction "is" arbitrary: ti w)
  case Nil
  then show ?case by simp
next
  case (Cons i "is")
  show ?case
  proof (cases "has_failed ti i")
    case True
    then obtain ti1 where ti1: "ti_wf ti1" "Suc (active ti1) = active ti"
      "checkFailed (Some f) i (ti, w) = f ti1 w"
      using checkFailed_run [OF Cons.prems(1)] Cons.prems(4) by (metis list.set_intros(1))
    then obtain ti2 w2 where 2: "f ti1 w = Inr (ti2, w2)" "ti_wf ti2" "active ti2 \<le> active ti1" "J w2"
      using assms(1) Cons.prems(2,3) unfolding adequate_def by (metis Suc_le_lessD)
    then have "active ti2 \<le> K" using ti1(2) Cons.prems(2) by simp
    from Cons.IH [OF 2(2) this assms(2) [OF 2(4)]] Cons.prems(4) 2(4) obtain ti' w' where
      "foldR (checkFailed (Some f)) is (ti2, w2) = Inr (ti', w')" "ti_wf ti'" "active ti' \<le> active ti2" "J w'"
      by auto
    then show ?thesis using 2 ti1 assms(2) by auto
  next
    case False
    then show ?thesis using Cons.IH [OF Cons.prems(1-3)] Cons.prems(4) by (simp add: checkFailed_skip)
  qed
qed

text \<open>A layer function that returns on every good layer and keeps \<open>I\<close>.\<close>

locale total_client = layer_client fn for fn :: "'w layer_fn" +
  fixes I :: "'w \<Rightarrow> bool"
  assumes fn_total: "isGood t \<Longrightarrow> I w \<Longrightarrow> \<exists>t' w'. fn t w = Inr (t', w') \<and> I w'"
begin

lemma callGood_total:
  assumes "ti_wf ti" "i < TRANSPORT_TYPE_COUNT" "I w"
  shows "\<exists>ti' w'. callGood fn i (ti, w) = Inr (ti', w') \<and> I w' \<and> ti_wf ti' \<and> active ti' = active ti \<and>
    (ti' = ti \<or> has_failed ti' i) \<and> (\<forall>j. j \<noteq> i \<longrightarrow> s_transports ti' ! j = s_transports ti ! j)"
proof (cases "\<exists>t. s_transports ti ! i = Some t \<and> isGood t")
  case True
  then obtain t where t: "s_transports ti ! i = Some t" "isGood t" by blast
  obtain t' w' where fn: "fn t w = Inr (t', w')" "I w'" using fn_total [OF t(2) assms(3)] by blast
  have eq: "callGood fn i (ti, w) = Inr (put_transport i t' ti, w')"
    using t fn by (simp add: callGood_def)
  have "put_transport i t' ti = ti \<or> has_failed (put_transport i t' ti) i"
  proof (cases "m_status t'")
    case GOOD
    then have "t' = t" using t(2) fn_type [OF t(2) fn(1)] by (simp add: isGood_def)
    then show ?thesis using t(1) list_update_id [of "s_transports ti" i] by (simp add: put_transport_def)
  next
    case FAILED
    then show ?thesis
      using assms(2) ti_wfD(1) [OF assms(1)] by (simp add: has_failed_def put_transport_def)
  qed (use fn_status [OF t(2) fn(1)] in simp)
  moreover have "\<forall>j. j \<noteq> i \<longrightarrow> s_transports (put_transport i t' ti) ! j = s_transports ti ! j"
    by (simp add: put_transport_def)
  ultimately show ?thesis using eq fn(2) callGood_wf [OF assms(1,2) eq] by blast
next
  case False
  then have "callGood fn i (ti, w) = Inr (ti, w)"
    by (auto simp: callGood_def split: option.splits)
  then show ?thesis using assms by simp
qed

lemma foldR_callGood_total:
  assumes "ti_wf ti" "\<forall>i \<in> set is. i < TRANSPORT_TYPE_COUNT" "I w" "distinct is"
  shows "\<exists>ti' w'. foldR (callGood fn) is (ti, w) = Inr (ti', w') \<and> I w' \<and> ti_wf ti' \<and> active ti' = active ti \<and>
    (ti' = ti \<or> (\<exists>i \<in> set is. has_failed ti' i)) \<and> (\<forall>j. j \<notin> set is \<longrightarrow> s_transports ti' ! j = s_transports ti ! j)"
  using assms
proof (induction "is" arbitrary: ti w)
  case Nil
  then show ?case by simp
next
  case (Cons i "is")
  obtain ti1 w1 where 1: "callGood fn i (ti, w) = Inr (ti1, w1)" "I w1" "ti_wf ti1" "active ti1 = active ti"
    "ti1 = ti \<or> has_failed ti1 i" "\<forall>j. j \<noteq> i \<longrightarrow> s_transports ti1 ! j = s_transports ti ! j"
    using callGood_total [OF Cons.prems(1) _ Cons.prems(3)] Cons.prems(2) by (metis list.set_intros(1))
  obtain ti2 w2 where 2: "foldR (callGood fn) is (ti1, w1) = Inr (ti2, w2)" "I w2" "ti_wf ti2"
    "active ti2 = active ti1" "ti2 = ti1 \<or> (\<exists>i \<in> set is. has_failed ti2 i)"
    "\<forall>j. j \<notin> set is \<longrightarrow> s_transports ti2 ! j = s_transports ti1 ! j"
    using Cons.IH [OF 1(3) _ 1(2)] Cons.prems by auto
  have "has_failed ti1 i \<longrightarrow> has_failed ti2 i"
    using 2(6) Cons.prems(4) by (simp add: has_failed_def)
  then have "ti2 = ti \<or> (\<exists>i \<in> set (i # is). has_failed ti2 i)" using 1(5) 2(5) by auto
  moreover have "\<forall>j. j \<notin> set (i # is) \<longrightarrow> s_transports ti2 ! j = s_transports ti ! j"
    using 1(6) 2(6) by auto
  ultimately show ?case using 1 2 by auto
qed

lemma doFor_total:
  assumes "adequate K I J f" "\<And>w. J w \<Longrightarrow> I w" "ti_wf ti" "active ti \<le> K" "I w"
    and "index type < TRANSPORT_TYPE_COUNT"
  shows "\<exists>ti' w'. doFor type fn (Some f) (ti, w) = Inr (ti', w') \<and> ti_wf ti' \<and> active ti' \<le> active ti \<and>
    I w' \<and> (ti' = ti \<or> J w')"
proof -
  let ?i = "index type"
  obtain ti1 w1 where 1: "callGood fn ?i (ti, w) = Inr (ti1, w1)" "I w1" "ti_wf ti1" "active ti1 = active ti"
    "ti1 = ti \<or> has_failed ti1 ?i"
    using callGood_total [OF assms(3,6,5)] by blast
  then have "active ti1 \<le> K" using assms(4) by simp
  then obtain ti2 w2 where 2: "checkFailed (Some f) ?i (ti1, w1) = Inr (ti2, w2)"
    "ti_wf ti2" "active ti2 \<le> active ti1" "I w2" "has_failed ti1 ?i \<longrightarrow> J w2"
    using foldR_checkFailed_total [OF assms(1,2) 1(3) _ 1(2), of "[?i]"] assms(6) by auto
  have "ti2 = ti \<or> J w2"
    using 1(5) 2(1,5) checkFailed_skip [of ti1 ?i "Some f" w1] by auto
  then show ?thesis using 1 2 assms(6) by (simp add: doFor_def)
qed

lemma doForAllEnabled_total:
  assumes "adequate K I J f" "\<And>w. J w \<Longrightarrow> I w" "ti_wf ti" "active ti \<le> K" "I w"
  shows "\<exists>ti' w'. doForAllEnabled fn (Some f) (ti, w) = Inr (ti', w') \<and> ti_wf ti' \<and> active ti' \<le> active ti \<and>
    I w' \<and> (ti' = ti \<or> J w')"
proof -
  obtain ti1 w1 where 1: "foldR (callGood fn) [0..<TRANSPORT_TYPE_COUNT] (ti, w) = Inr (ti1, w1)" "I w1"
    "ti_wf ti1" "active ti1 = active ti" "ti1 = ti \<or> (\<exists>i \<in> set [0..<TRANSPORT_TYPE_COUNT]. has_failed ti1 i)"
    using foldR_callGood_total [OF assms(3) _ assms(5), of "[0..<TRANSPORT_TYPE_COUNT]"] by auto
  then have "active ti1 \<le> K" using assms(4) by simp
  then obtain ti2 w2 where 2: "foldR (checkFailed (Some f)) [0..<TRANSPORT_TYPE_COUNT] (ti1, w1) = Inr (ti2, w2)"
    "ti_wf ti2" "active ti2 \<le> active ti1" "I w2" "(\<exists>i \<in> set [0..<TRANSPORT_TYPE_COUNT]. has_failed ti1 i) \<longrightarrow> J w2"
    using foldR_checkFailed_total [OF assms(1,2) 1(3) _ 1(2), of "[0..<TRANSPORT_TYPE_COUNT]"] by auto
  have "ti2 = ti \<or> J w2"
  proof (cases "\<exists>i \<in> set [0..<TRANSPORT_TYPE_COUNT]. has_failed ti1 i")
    case False
    then have "ti1 = ti" "foldR (checkFailed (Some f)) [0..<TRANSPORT_TYPE_COUNT] (ti1, w1) = Inr (ti1, w1)"
      using 1(5) by (blast, intro foldR_checkFailed_skip) blast
    then show ?thesis using 2(1) by simp
  qed (use 2(5) in blast)
  then show ?thesis using 1 2 by (simp add: doForAllEnabled_def)
qed

end

section \<open>Choosing the transport to a remote gateway\<close>

lemma find_good_Some:
  assumes "ti_wf ti" "find (\<lambda>t. case t of None \<Rightarrow> False | Some l \<Rightarrow> isGood l \<and> bit rb (index (getType l)))
      (s_transports ti) = Some x"
  obtains l where "x = Some l" "isGood l" "bit rb (index (getType l))" "bit (s_bitset ti) (index (getType l))"
    "getType l \<in> {PCIE, UDP, TCP}"
proof -
  from assms(2) obtain i where i: "i < length (s_transports ti)" "x = s_transports ti ! i"
    and P: "case x of None \<Rightarrow> False | Some l \<Rightarrow> isGood l \<and> bit rb (index (getType l))"
    by (auto simp: find_Some_iff)
  from P obtain l where l: "x = Some l" "isGood l" "bit rb (index (getType l))"
    by (cases x) auto
  then have "s_transports ti ! i = Some l" "i < TRANSPORT_TYPE_COUNT"
    using i ti_wfD(1) [OF assms(1)] by auto
  then have "bit (s_bitset ti) (index (getType l))" "getType l \<in> {PCIE, UDP, TCP}"
    using ti_wfD [OF assms(1)] l(2) by (auto simp: isGood_def)
  with l that show ?thesis by blast
qed

lemma findMatchingType_common:
  assumes "ti_wf ti" "findMatchingType rb pref ti = ty" "ty \<noteq> NONE"
  shows "bit rb (index ty) \<and> bit (s_bitset ti) (index ty)"
proof (cases "pref \<noteq> NONE \<and> bit rb (index pref) \<and> bit (s_bitset ti) (index pref)")
  case True
  then show ?thesis using assms(2) by (simp add: findMatchingType_def)
next
  case False
  let ?find = "find (\<lambda>t. case t of None \<Rightarrow> False | Some l \<Rightarrow> isGood l \<and> bit rb (index (getType l)))
      (s_transports ti)"
  have eq: "ty = (case ?find of Some (Some l) \<Rightarrow> getType l | _ \<Rightarrow> NONE)"
    using False assms(2) unfolding findMatchingType_def Let_def by presburger
  with assms(3) obtain l where "?find = Some (Some l)" "ty = getType l"
    by (auto split: option.splits)
  then show ?thesis using find_good_Some [OF assms(1)] by blast
qed

lemma findMatchingType_none:
  assumes "ti_wf ti" "findMatchingType rb pref ti = NONE" "s_transports ti ! i = Some l"
    and "i < TRANSPORT_TYPE_COUNT" "isGood l"
  shows "\<not> bit rb i"
proof
  assume bit: "bit rb i"
  let ?P = "\<lambda>t. case t of None \<Rightarrow> False | Some l \<Rightarrow> isGood l \<and> bit rb (index (getType l))"
  have "?P (s_transports ti ! i)"
    using assms(3,5) bit ti_wfD(2) [OF assms(1,4,3)] by simp
  moreover have "s_transports ti ! i \<in> set (s_transports ti)"
    using assms(4) ti_wfD(1) [OF assms(1)] by simp
  ultimately obtain x where x: "find ?P (s_transports ti) = Some x"
    by (metis find_None_iff not_Some_eq)
  from find_good_Some [OF assms(1) x] obtain l' where l': "x = Some l'" "getType l' \<in> {PCIE, UDP, TCP}"
    by blast
  then have "findMatchingType rb pref ti \<noteq> NONE"
    unfolding findMatchingType_def x by auto
  with assms(2) show False by simp
qed

section \<open>Properties\<close>

lemma status_run_steps: "status_step\<^sup>*\<^sup>* (m_status t) (m_status (fst (status_run t cs)))"
proof (induction t cs rule: status_run.induct)
  case (2 t cs)
  then show ?case using setFailed_step [of t] by (auto intro: converse_rtranclp_into_rtranclp)
next
  case (3 t cs)
  then show ?case
    using hasFailedSetDisabled_step [of t]
    by (auto split: prod.splits intro: converse_rtranclp_into_rtranclp)
qed simp

lemma status_run_count:
  "m_status t \<noteq> DISABLED \<Longrightarrow> snd (status_run t cs) = (if m_status (fst (status_run t cs)) = DISABLED then 1 else 0)"
proof (induction cs arbitrary: t)
  case (Cons c cs)
  then show ?case
    by (cases c; cases "m_status t")
      (auto simp: status_defs status_run_disabled status_run_failed split: prod.splits)
qed simp

text \<open>
  C32. The failure status of a transport layer, however the calls of the threads interleave: it
  only moves from good to failed to disabled, and \<^verbatim>\<open>hasFailedSetDisabled\<close> answers true at most
  once, exactly when the layer has become disabled; so a failure is handled exactly once.
\<close>

theorem failure_reported_once:
  assumes "m_status t = GOOD" "status_run t cs = (t', n)"
  shows "status_step\<^sup>*\<^sup>* GOOD (m_status t') \<and> getType t' = getType t \<and> n = (if m_status t' = DISABLED then 1 else 0)"
  using status_run_steps [of t cs] status_run_count [of t cs] status_run_getType [of t cs] assms by simp

theorem failure_reported_once_witness:
  "status_run \<lparr>getType = UDP, m_status = GOOD\<rparr>
     [Call_hasFailedSetDisabled, Call_setFailed, Call_setFailed, Call_hasFailedSetDisabled, Call_hasFailedSetDisabled]
   = (\<lparr>getType = UDP, m_status = DISABLED\<rparr>, 1)"
  using failure_reported_once [of "\<lparr>getType = UDP, m_status = GOOD\<rparr>"
      "[Call_hasFailedSetDisabled, Call_setFailed, Call_setFailed, Call_hasFailedSetDisabled, Call_hasFailedSetDisabled]"
      "\<lparr>getType = UDP, m_status = DISABLED\<rparr>" 1]
  by (simp add: status_defs)

text \<open>
  \<^verbatim>\<open>findMatchingType\<close> picks a transport both gateways have enabled; it picks the preferred one
  whenever both have it, and answers \<^verbatim>\<open>NONE\<close> only if the remote gateway has no transport whose
  layer is good here.
\<close>

theorem matching_type:
  assumes "ti_wf ti" "findMatchingType rb pref ti = ty"
  shows "(ty \<noteq> NONE \<longrightarrow> bit rb (index ty) \<and> bit (s_bitset ti) (index ty)) \<and>
    (pref \<noteq> NONE \<and> bit rb (index pref) \<and> bit (s_bitset ti) (index pref) \<longrightarrow> ty = pref) \<and>
    (ty = NONE \<longrightarrow> (\<forall>i < TRANSPORT_TYPE_COUNT. \<forall>l. s_transports ti ! i = Some l \<longrightarrow> isGood l \<longrightarrow> \<not> bit rb i))"
proof (intro conjI impI allI)
  show "bit rb (index ty)" "bit (s_bitset ti) (index ty)" if "ty \<noteq> NONE"
    using findMatchingType_common [OF assms that] by simp_all
  show "ty = pref" if "pref \<noteq> NONE \<and> bit rb (index pref) \<and> bit (s_bitset ti) (index pref)"
    using that assms(2) by (simp add: findMatchingType_def)
  show "\<not> bit rb i" if "ty = NONE" "i < TRANSPORT_TYPE_COUNT" "s_transports ti ! i = Some l" "isGood l" for i l
    using findMatchingType_none [OF assms(1) _ that(3,2,4)] assms(2) that(1) by blast
qed

definition sample_registry :: transport_info where
  "sample_registry = \<lparr>s_transports = [None, None, Some \<lparr>getType = UDP, m_status = GOOD\<rparr>, None], s_bitset = 4\<rparr>"

lemma sample_registry_wf: "ti_wf sample_registry"
proof -
  have "enable \<lparr>PCIE_GATEWAY = False, UDP_GATEWAY = True, TCP_GATEWAY = False\<rparr> (\<lambda>_. GOOD) UDP initial_transport_info
    = sample_registry"
    by (simp add: enable_def put_transport_def initial_transport_info_def sample_registry_def TRANSPORT_TYPE_COUNT_def
        numeral_eq_Suc set_bit_eq_or push_bit_eq_mult)
  then show ?thesis
    using enable_wf [OF initial_transport_info_wf, of "\<lparr>PCIE_GATEWAY = False, UDP_GATEWAY = True, TCP_GATEWAY = False\<rparr>" UDP "\<lambda>_. GOOD"]
    by (simp add: compiled_def)
qed

theorem matching_type_witness: "findMatchingType 12 PCIE sample_registry = UDP \<and> bit (12 :: bitset) (index UDP)"
proof -
  have "findMatchingType 12 PCIE sample_registry = UDP"
    by (simp add: findMatchingType_def sample_registry_def isGood_def bit_numeral_rec)
  then show ?thesis using matching_type [OF sample_registry_wf, of 12 PCIE UDP] by simp
qed

end
