(* ===== verification/Config.thy ===== *)
theory Config
  imports Types Transport
begin

text \<open>
  The command line (\<^verbatim>\<open>source/p3com/gateway/cmd_line.cpp\<close>) and the configuration file
  (\<^verbatim>\<open>source/p3com/gateway/gateway_config.cpp\<close>, the build with \<^verbatim>\<open>TOML_CONFIG\<close>), and how
  \<^verbatim>\<open>GatewayApp\<close> uses them to enable transport layers. \<^verbatim>\<open>getopt_long\<close> is represented by the
  options it returns, the TOML library by the document it parsed.
\<close>

section \<open>Command line\<close>

datatype log_level = kOff | kFatal | kError | kWarn | kInfo | kDebug | kVerbose

record cmd_line_args =
  logLevel :: log_level
  enabledTransports :: "bool list"
  enabledTransportSpecified :: bool
  configFile :: string
  cl_run :: bool

definition default_args :: cmd_line_args where
  "default_args = \<lparr>logLevel = kWarn, enabledTransports = replicate TRANSPORT_TYPE_COUNT False,
     enabledTransportSpecified = False, configFile = '''', cl_run = True\<rparr>"

definition parseLogLevel :: "string \<Rightarrow> log_level option" where
  "parseLogLevel s =
     (if s = ''off'' then Some kOff
      else if s = ''fatal'' then Some kFatal
      else if s = ''error'' then Some kError
      else if s = ''warning'' then Some kWarn
      else if s = ''info'' then Some kInfo
      else if s = ''debug'' then Some kDebug
      else if s = ''verbose'' then Some kVerbose
      else None)"

definition enableFlag :: "transport_type \<Rightarrow> cmd_line_args \<Rightarrow> cmd_line_args" where
  "enableFlag type config =
     config\<lparr>enabledTransports := (enabledTransports config)[index type := True], enabledTransportSpecified := True\<rparr>"

text \<open>
  One turn of the loop: the option character and its argument, the two flags of the function
  and the configuration. \<open>cap\<close> is the capacity of the path string.
\<close>

definition parseOption :: "nat \<Rightarrow> char \<times> string \<Rightarrow> cmd_line_args \<times> bool \<times> bool \<Rightarrow> cmd_line_args \<times> bool \<times> bool" where
  "parseOption cap = (\<lambda>(opt, optarg) (config, wasUdp, wasTcp).
     if opt = CHR ''h'' then (config\<lparr>cl_run := False\<rparr>, wasUdp, wasTcp)
     else if opt = CHR ''p'' then (enableFlag PCIE config, wasUdp, wasTcp)
     else if opt = CHR ''u''
     then (if wasTcp then (config\<lparr>cl_run := False\<rparr>, wasUdp, wasTcp) else (enableFlag UDP config, True, wasTcp))
     else if opt = CHR ''t''
     then (if wasUdp then (config\<lparr>cl_run := False\<rparr>, wasUdp, wasTcp) else (enableFlag TCP config, wasUdp, True))
     else if opt = CHR ''l''
     then (case parseLogLevel optarg of
             Some l \<Rightarrow> (config\<lparr>logLevel := l\<rparr>, wasUdp, wasTcp)
           | None \<Rightarrow> (config\<lparr>cl_run := False\<rparr>, wasUdp, wasTcp))
     else if opt = CHR ''L'' then (config\<lparr>logLevel := kInfo\<rparr>, wasUdp, wasTcp)
     else if opt = CHR ''c'' then (config\<lparr>configFile := take cap optarg\<rparr>, wasUdp, wasTcp)
     else (config\<lparr>cl_run := False\<rparr>, wasUdp, wasTcp))"

definition parseCmdLine :: "nat \<Rightarrow> (char \<times> string) list \<Rightarrow> cmd_line_args" where
  "parseCmdLine cap opts = fst (fold (parseOption cap) opts (default_args, False, False))"

section \<open>Configuration file\<close>

record gateway_config =
  preferredTransport :: transport_type
  forwardedServices :: "service_description list"

definition default_config :: gateway_config where
  "default_config = \<lparr>preferredTransport = NONE, forwardedServices = []\<rparr>"

record toml_service =
  toml_service :: "byte list option"
  toml_instance :: "byte list option"
  toml_event :: "byte list option"

record toml =
  toml_preferred :: "string option"
  toml_forwarded :: "toml_service list"

text \<open>
  \<^verbatim>\<open>std::find\<close> over the array of names compares the string with each C string in turn;
  comparing with the null pointer that ends the array is undefined.
\<close>

fun findName :: "string option list \<Rightarrow> string \<Rightarrow> nat result" where
  "findName [] name = Inr 0"
| "findName (None # ns) name = Inl Null_Dereference"
| "findName (Some n # ns) name = (if n = name then Inr 0 else bindR (findName ns name) (\<lambda>i. Inr (Suc i)))"

definition parsePreferred :: "string option \<Rightarrow> gateway_config \<Rightarrow> gateway_config result" where
  "parsePreferred preferred config =
     (case preferred of
        None \<Rightarrow> Inr config
      | Some name \<Rightarrow>
          bindR (findName TRANSPORT_TYPE_NAMES name) (\<lambda>i.
          Inr (if i \<noteq> length TRANSPORT_TYPE_NAMES then config\<lparr>preferredTransport := type_of_index i\<rparr> else config)))"

definition parseService :: "nat \<Rightarrow> toml_service \<Rightarrow> service_description result" where
  "parseService cap t =
     (case (toml_service t, toml_instance t, toml_event t) of
        (Some s, Some i, Some e) \<Rightarrow> Inr \<lparr>serviceID = take cap s, instanceID = take cap i, eventID = take cap e\<rparr>
      | _ \<Rightarrow> Inl Null_Dereference)"

fun parseServices :: "nat \<Rightarrow> toml_service list \<Rightarrow> service_description list \<Rightarrow> service_description list result" where
  "parseServices cap [] ss = Inr ss"
| "parseServices cap (t # ts) ss =
     bindR (parseService cap t) (\<lambda>s. parseServices cap ts (fst (push_back MAX_FORWARDED_SERVICES ss s)))"

text \<open>\<open>doc\<close> is the parsed file: \<open>None\<close> when it cannot be opened or is not valid TOML.\<close>

definition parseConfig :: "iox_env \<Rightarrow> toml option \<Rightarrow> gateway_config result" where
  "parseConfig E doc =
     (case doc of
        None \<Rightarrow> Inr default_config
      | Some t \<Rightarrow>
          bindR (parsePreferred (toml_preferred t) default_config) (\<lambda>config.
          bindR (parseServices (idCapacity E) (toml_forwarded t) []) (\<lambda>ss.
          Inr (config\<lparr>forwardedServices := ss\<rparr>))))"

section \<open>Enabling the transports\<close>

definition enableTransports ::
  "build \<Rightarrow> (transport_type \<Rightarrow> transport_status) \<Rightarrow> cmd_line_args \<Rightarrow> transport_info \<Rightarrow> transport_info" where
  "enableTransports B ctor args ti =
     (if enabledTransportSpecified args
      then fold (\<lambda>i ti. if enabledTransports args ! i then enable B ctor (type_of_index i) ti else ti)
             [0..<TRANSPORT_TYPE_COUNT] ti
      else enableAll B ctor ti)"

text \<open>The constructor of \<^verbatim>\<open>GatewayApp\<close>: a preferred transport that is not enabled is dropped.\<close>

definition newGatewayApp ::
  "build \<Rightarrow> (transport_type \<Rightarrow> transport_status) \<Rightarrow> cmd_line_args \<Rightarrow> gateway_config \<Rightarrow> transport_info
     \<Rightarrow> gateway_config \<times> transport_info" where
  "newGatewayApp B ctor args config ti =
     (let ti' = enableTransports B ctor args ti
      in (if preferredTransport config \<noteq> NONE \<and> \<not> bit (s_bitset ti') (index (preferredTransport config))
          then config\<lparr>preferredTransport := NONE\<rparr> else config, ti'))"

section \<open>What the command line can enable\<close>

text \<open>The two local flags tell whether UDP or TCP has been enabled, and never both.\<close>

definition parse_inv :: "cmd_line_args \<times> bool \<times> bool \<Rightarrow> bool" where
  "parse_inv = (\<lambda>(config, wasUdp, wasTcp).
     length (enabledTransports config) = TRANSPORT_TYPE_COUNT \<and> \<not> enabledTransports config ! 0 \<and>
     enabledTransports config ! index UDP = wasUdp \<and> enabledTransports config ! index TCP = wasTcp \<and>
     \<not> (wasUdp \<and> wasTcp) \<and> ((\<exists>i < TRANSPORT_TYPE_COUNT. enabledTransports config ! i) \<longrightarrow> enabledTransportSpecified config))"

lemma parseOption_inv:
  assumes "parse_inv s"
  shows "parse_inv (parseOption cap opn s)"
proof -
  obtain config u t c arg where s: "s = (config, u, t)" "opn = (c, arg)" by (metis prod_cases3 surj_pair)
  have flag: "parse_inv (enableFlag PCIE config, u, t)" "\<not> t \<Longrightarrow> parse_inv (enableFlag UDP config, True, t)"
    "\<not> u \<Longrightarrow> parse_inv (enableFlag TCP config, u, True)"
    using assms by (auto simp: s parse_inv_def enableFlag_def TRANSPORT_TYPE_COUNT_def nth_list_update)
  have same: "parse_inv (config\<lparr>cl_run := False\<rparr>, u, t)" "parse_inv (config\<lparr>logLevel := l\<rparr>, u, t)"
    "parse_inv (config\<lparr>configFile := f\<rparr>, u, t)" for l f
    using assms by (auto simp: s parse_inv_def)
  show ?thesis using flag same by (auto simp: s parseOption_def split: option.splits)
qed

lemma parseCmdLine_inv: "\<exists>u t. parse_inv (parseCmdLine cap opts, u, t)"
proof -
  have "parse_inv (fold (parseOption cap) opts s)" if "parse_inv s" for s
    using that by (induction opts arbitrary: s) (simp_all add: parseOption_inv)
  moreover have "parse_inv (default_args, False, False)"
    by (simp add: parse_inv_def default_args_def TRANSPORT_TYPE_COUNT_def)
  ultimately have "parse_inv (fold (parseOption cap) opts (default_args, False, False))" by blast
  then show ?thesis unfolding parseCmdLine_def by (metis prod.collapse)
qed

lemma fold_enable_wf:
  assumes "ti_wf ti" "\<forall>i \<in> set is. P i \<longrightarrow> compiled B (type_of_index i)" "\<And>t. ctor t \<noteq> DISABLED"
  shows "ti_wf (fold (\<lambda>i ti. if P i then enable B ctor (type_of_index i) ti else ti) is ti)"
  using assms by (induction "is" arbitrary: ti) (simp_all add: enable_wf)

lemma enableAll_wf:
  assumes "ti_wf ti" "\<And>t. ctor t \<noteq> DISABLED"
  shows "ti_wf (enableAll B ctor ti)"
  using assms by (auto simp: enableAll_def compiled_def intro!: enable_wf)

lemma newGatewayApp_wf:
  assumes "\<And>t. ctor t \<noteq> DISABLED" "newGatewayApp B ctor args config initial_transport_info = (config', ti)"
    and "\<forall>i < TRANSPORT_TYPE_COUNT. enabledTransports args ! i \<longrightarrow> compiled B (type_of_index i)"
  shows "ti_wf ti"
proof -
  have "ti = enableTransports B ctor args initial_transport_info" using assms(2) by (auto simp: newGatewayApp_def)
  then show ?thesis
    using fold_enable_wf [OF initial_transport_info_wf _ assms(1), of "[0..<TRANSPORT_TYPE_COUNT]" "\<lambda>i. enabledTransports args ! i" B]
      enableAll_wf [OF initial_transport_info_wf assms(1), of B] assms(3)
    by (auto simp: enableTransports_def)
qed

section \<open>Properties\<close>

text \<open>
  Whatever options are given in whatever order, the parsed arguments never enable both UDP and
  TCP, never enable the slot that no transport has, and say that transports were specified
  if any is enabled.
\<close>

theorem udp_tcp_exclusive:
  "length (enabledTransports (parseCmdLine cap opts)) = TRANSPORT_TYPE_COUNT \<and>
   \<not> (enabledTransports (parseCmdLine cap opts) ! index UDP \<and> enabledTransports (parseCmdLine cap opts) ! index TCP) \<and>
   \<not> enabledTransports (parseCmdLine cap opts) ! 0 \<and>
   ((\<exists>i < TRANSPORT_TYPE_COUNT. enabledTransports (parseCmdLine cap opts) ! i) \<longrightarrow> enabledTransportSpecified (parseCmdLine cap opts))"
  using parseCmdLine_inv [of cap opts] by (auto simp: parse_inv_def)

theorem udp_tcp_exclusive_witness:
  "enabledTransports (parseCmdLine 10 [(CHR ''u'', ''''), (CHR ''t'', '''')]) = [False, False, True, False] \<and>
   enabledTransportSpecified (parseCmdLine 10 [(CHR ''u'', ''''), (CHR ''t'', '''')])"
proof -
  let ?a = "parseCmdLine 10 [(CHR ''u'', ''''), (CHR ''t'', '''')]"
  have "enabledTransports ?a = [False, False, True, False]" by code_simp
  moreover from this have "\<exists>i < TRANSPORT_TYPE_COUNT. enabledTransports ?a ! i"
    by (intro exI [of _ 2]) (simp add: TRANSPORT_TYPE_COUNT_def)
  ultimately show ?thesis using udp_tcp_exclusive [of 10 "[(CHR ''u'', ''''), (CHR ''t'', '''')]"] by blast
qed



text \<open>
  The preferred transport of the configuration file is off by one: the names are listed from
  position 0 and the enumerators are numbered from 1, so \<^verbatim>\<open>UDP\<close> selects PCIe, \<^verbatim>\<open>TCP\<close> selects
  UDP, and \<^verbatim>\<open>PCIE\<close> selects a value with no name; any other name, the documented \<^verbatim>\<open>NONE\<close>
  among them, makes the search compare it with a null pointer.
\<close>

theorem preferred_name_off_by_one:
  "parsePreferred (Some name) config =
    (if name = ''PCIE'' then Inr (config\<lparr>preferredTransport := Unnamed 0\<rparr>)
     else if name = ''UDP'' then Inr (config\<lparr>preferredTransport := PCIE\<rparr>)
     else if name = ''TCP'' then Inr (config\<lparr>preferredTransport := UDP\<rparr>)
     else Inl Null_Dereference)"
  by (auto simp: parsePreferred_def TRANSPORT_TYPE_NAMES_def type_of_index_def)

end
