(* ===== verification/VectorMap.thy ===== *)
theory VectorMap
  imports Prelude
begin

text \<open>
  \<^verbatim>\<open>cxx::vector_map<Key, T, Capacity>\<close> (\<^verbatim>\<open>include/p3com/utility/vector_map.hpp\<close>,
  \<^verbatim>\<open>include/p3com/internal/utility/vector_map.inl\<close>): keys and values in two parallel
  fixed-capacity vectors, searched linearly. The locale \<open>bounded_map\<close> states what its
  clients (pending messages, segmented messages, gateway endpoints, the device index cache
  and the forwarder) rely on; its interpretation discharges the laws for the code's model.
\<close>

section \<open>The data structure\<close>

record ('k, 'v) vector_map =
  m_keys :: "'k list"
  m_elems :: "'v list"

definition vm_empty :: "('k, 'v) vector_map" where
  "vm_empty = \<lparr>m_keys = [], m_elems = []\<rparr>"

text \<open>Iterators point into the values; \<open>vm_end\<close> is the one past the last.\<close>

definition vm_begin :: "('k, 'v) vector_map \<Rightarrow> nat" where
  "vm_begin m = 0"

definition vm_end :: "('k, 'v) vector_map \<Rightarrow> nat" where
  "vm_end m = length (m_elems m)"

definition vm_find :: "('k, 'v) vector_map \<Rightarrow> 'k \<Rightarrow> nat" where
  "vm_find m key =
     (let it = find_if (\<lambda>k. k = key) (m_keys m)
      in if it = length (m_keys m) then vm_end m else vm_begin m + it)"

text \<open>
  \<^verbatim>\<open>m_keys.push_back(key) && m_elems.emplace_back(...)\<close>: the values are only touched when
  the key went in.
\<close>

definition vm_emplace :: "nat \<Rightarrow> ('k, 'v) vector_map \<Rightarrow> 'k \<Rightarrow> 'v \<Rightarrow> ('k, 'v) vector_map \<times> bool" where
  "vm_emplace cap m key v =
     (case push_back cap (m_keys m) key of
        (keys, False) \<Rightarrow> (m, False)
      | (keys, True) \<Rightarrow>
          (case push_back cap (m_elems m) v of
             (elems, b) \<Rightarrow> (\<lparr>m_keys = keys, m_elems = elems\<rparr>, b)))"

definition vm_erase :: "('k, 'v) vector_map \<Rightarrow> nat \<Rightarrow> ('k, 'v) vector_map" where
  "vm_erase m it = \<lparr>m_keys = erase_at it (m_keys m), m_elems = erase_at it (m_elems m)\<rparr>"

definition vm_clear :: "('k, 'v) vector_map \<Rightarrow> ('k, 'v) vector_map" where
  "vm_clear m = \<lparr>m_keys = [], m_elems = []\<rparr>"

definition vm_size :: "('k, 'v) vector_map \<Rightarrow> nat" where
  "vm_size m = length (m_elems m)"

definition vm_front :: "('k, 'v) vector_map \<Rightarrow> 'v result" where
  "vm_front m = read_at (m_elems m) 0"

definition vm_back :: "('k, 'v) vector_map \<Rightarrow> 'v result" where
  "vm_back m = (if m_elems m = [] then Inl Out_Of_Bounds else Inr (last (m_elems m)))"

text \<open>\<^verbatim>\<open>*it\<close> and an assignment through \<^verbatim>\<open>*it\<close>.\<close>

definition vm_deref :: "('k, 'v) vector_map \<Rightarrow> nat \<Rightarrow> 'v result" where
  "vm_deref m it = read_at (m_elems m) it"

definition vm_assign :: "('k, 'v) vector_map \<Rightarrow> nat \<Rightarrow> 'v \<Rightarrow> ('k, 'v) vector_map" where
  "vm_assign m it v = m\<lparr>m_elems := (m_elems m)[it := v]\<rparr>"

text \<open>
  The idioms of the clients: look a key up and compare with \<^verbatim>\<open>end()\<close>; erase or change what
  the search found.
\<close>

definition vm_lookup :: "('k, 'v) vector_map \<Rightarrow> 'k \<Rightarrow> 'v option" where
  "vm_lookup m key =
     (let it = vm_find m key in if it = vm_end m then None else Some (m_elems m ! it))"

definition vm_remove :: "('k, 'v) vector_map \<Rightarrow> 'k \<Rightarrow> ('k, 'v) vector_map" where
  "vm_remove m key = vm_erase m (vm_find m key)"

definition vm_modify :: "('k, 'v) vector_map \<Rightarrow> 'k \<Rightarrow> ('v \<Rightarrow> 'v) \<Rightarrow> ('k, 'v) vector_map" where
  "vm_modify m key f =
     (let it = vm_find m key in if it = vm_end m then m else vm_assign m it (f (m_elems m ! it)))"

section \<open>Invariant and abstraction\<close>

definition vm_wf :: "nat \<Rightarrow> ('k, 'v) vector_map \<Rightarrow> bool" where
  "vm_wf cap m \<longleftrightarrow> length (m_keys m) = length (m_elems m) \<and> length (m_elems m) \<le> cap"

definition vm_invar :: "nat \<Rightarrow> ('k, 'v) vector_map \<Rightarrow> bool" where
  "vm_invar cap m \<longleftrightarrow> vm_wf cap m \<and> distinct (m_keys m)"

abbreviation vm_alist :: "('k, 'v) vector_map \<Rightarrow> ('k \<times> 'v) list" where
  "vm_alist m \<equiv> zip (m_keys m) (m_elems m)"

lemmas vm_defs = vm_empty_def vm_begin_def vm_end_def vm_find_def vm_erase_def vm_clear_def
  vm_size_def vm_deref_def vm_assign_def

lemma find_if_zip_map_of:
  assumes "length ks = length vs"
  shows "map_of (zip ks vs) k =
    (if find_if (\<lambda>y. y = k) ks = length ks then None else Some (vs ! find_if (\<lambda>y. y = k) ks))"
  using assms by (induction ks vs rule: list_induct2) auto

text \<open>Searching and dereferencing is lookup in the association list of the two vectors.\<close>

lemma vm_lookup_map_of: "vm_wf cap m \<Longrightarrow> vm_lookup m k = map_of (vm_alist m) k"
  by (auto simp: vm_lookup_def vm_defs vm_wf_def find_if_zip_map_of)

lemma vm_lookup_None_iff: "vm_wf cap m \<Longrightarrow> vm_lookup m k = None \<longleftrightarrow> k \<notin> set (m_keys m)"
  using vm_lookup_map_of [of cap m k] by (simp add: vm_wf_def)

lemma vm_emplace_room:
  "vm_wf cap m \<Longrightarrow> vm_size m < cap \<Longrightarrow>
     vm_emplace cap m k v = (\<lparr>m_keys = m_keys m @ [k], m_elems = m_elems m @ [v]\<rparr>, True)"
  by (simp add: vm_emplace_def push_back_def vm_wf_def vm_size_def)

lemma vm_emplace_full:
  "vm_wf cap m \<Longrightarrow> \<not> vm_size m < cap \<Longrightarrow> vm_emplace cap m k v = (m, False)"
  by (simp add: vm_emplace_def push_back_def vm_wf_def vm_size_def)

lemma vm_emplace_snd: "vm_wf cap m \<Longrightarrow> snd (vm_emplace cap m k v) \<longleftrightarrow> vm_size m < cap"
  by (cases "vm_size m < cap") (simp_all add: vm_emplace_room vm_emplace_full)

lemma vm_emplace_wf: "vm_wf cap m \<Longrightarrow> vm_wf cap (fst (vm_emplace cap m k v))"
  by (cases "vm_size m < cap")
    (auto simp: vm_emplace_room vm_emplace_full vm_wf_def vm_size_def)

lemma vm_erase_wf: "vm_wf cap m \<Longrightarrow> vm_wf cap (vm_erase m i)"
  by (auto simp: vm_wf_def vm_erase_def length_erase_at)

lemma vm_assign_wf: "vm_wf cap m \<Longrightarrow> vm_wf cap (vm_assign m i v)"
  by (simp add: vm_wf_def vm_assign_def)

lemma vm_erase_assign: "vm_erase (vm_assign m i v) i = vm_erase m i"
  by (simp add: vm_erase_def vm_assign_def erase_at_def)

lemma vm_clear_wf [simp]: "vm_wf cap (vm_clear m)"
  by (simp add: vm_wf_def vm_clear_def)

lemma vm_empty_wf [simp]: "vm_wf cap vm_empty"
  by (simp add: vm_wf_def vm_empty_def)

text \<open>A duplicate key stays shadowed by the entry emplaced first.\<close>

lemma vm_lookup_emplace:
  assumes "vm_wf cap m" "vm_size m < cap"
  shows "vm_lookup (fst (vm_emplace cap m k v)) k' =
    (if k' = k \<and> vm_lookup m k = None then Some v else vm_lookup m k')"
proof -
  have "vm_lookup (fst (vm_emplace cap m k v)) k' = map_of (vm_alist m @ [(k, v)]) k'"
    using vm_lookup_map_of [OF vm_emplace_wf [OF assms(1)], of k v k'] assms
    by (simp add: vm_emplace_room vm_wf_def)
  also have "\<dots> = (if k' = k \<and> vm_lookup m k = None then Some v else vm_lookup m k')"
    by (auto simp: vm_lookup_map_of [OF assms(1)] map_add_def split: option.splits)
  finally show ?thesis .
qed

lemma map_of_erase_at:
  assumes "distinct (map fst ps)" "i < length ps"
  shows "map_of (erase_at i ps) = (map_of ps)(fst (ps ! i) := None)"
  using assms
proof (induction ps arbitrary: i)
  case Nil
  then show ?case by simp
next
  case (Cons p ps)
  then show ?case
    by (cases i) (auto simp: fun_eq_iff map_of_eq_None_iff nth_mem image_iff)
qed

lemma vm_find_cases:
  assumes "vm_wf cap m"
  obtains (absent) "vm_find m k = vm_end m" "k \<notin> set (m_keys m)" "vm_lookup m k = None"
  | (present) "vm_find m k < vm_end m" "m_keys m ! vm_find m k = k"
      "vm_lookup m k = Some (m_elems m ! vm_find m k)" "k \<in> set (m_keys m)"
proof (cases "k \<in> set (m_keys m)")
  case True
  then have "find_if (\<lambda>y. y = k) (m_keys m) < length (m_keys m)"
    by (simp add: find_if_less)
  moreover from this have "m_keys m ! find_if (\<lambda>y. y = k) (m_keys m) = k"
    by (rule find_if_nth)
  ultimately show ?thesis
    using assms True present by (auto simp: vm_lookup_def vm_defs vm_wf_def)
next
  case False
  then have "find_if (\<lambda>y. y = k) (m_keys m) = length (m_keys m)"
    by (auto simp: find_if_end)
  then show ?thesis
    using assms False absent by (simp add: vm_lookup_def vm_defs)
qed

lemma vm_remove_wf: "vm_wf cap m \<Longrightarrow> vm_wf cap (vm_remove m k)"
  by (simp add: vm_remove_def vm_erase_wf)

lemma vm_lookup_remove:
  assumes inv: "vm_invar cap m"
  shows "vm_lookup (vm_remove m k) = (vm_lookup m)(k := None)"
proof -
  have wf: "vm_wf cap m" and dist: "distinct (m_keys m)"
    using inv by (auto simp: vm_invar_def)
  then have len: "length (m_keys m) = length (m_elems m)" by (simp add: vm_wf_def)
  have alist: "vm_lookup (vm_remove m k) = map_of (erase_at (vm_find m k) (vm_alist m))"
    using vm_lookup_map_of [OF vm_remove_wf [OF wf]]
    by (auto simp: vm_remove_def vm_erase_def zip_erase_at len)
  from wf show ?thesis
  proof (cases rule: vm_find_cases [where k = k])
    case absent
    then show ?thesis
      by (auto simp: alist vm_end_def len vm_lookup_map_of [OF wf] fun_eq_iff)
  next
    case present
    then have "vm_find m k < length (vm_alist m)" "fst (vm_alist m ! vm_find m k) = k"
      using len by (simp_all add: vm_end_def)
    then show ?thesis
      using dist len by (simp add: alist map_of_erase_at vm_lookup_map_of [OF wf, abs_def] fun_eq_iff)
  qed
qed

lemma vm_remove_invar: "vm_invar cap m \<Longrightarrow> vm_invar cap (vm_remove m k)"
  using vm_remove_wf [of cap m k]
  by (simp add: vm_invar_def vm_remove_def vm_erase_def distinct_erase_at)

lemma vm_size_remove:
  assumes "vm_wf cap m"
  shows "vm_size (vm_remove m k) = (if vm_lookup m k = None then vm_size m else vm_size m - 1)"
  using assms by (cases rule: vm_find_cases [where k = k])
    (simp_all add: vm_remove_def vm_defs length_erase_at)

lemma vm_lookup_modify:
  assumes "vm_wf cap m"
  shows "vm_lookup (vm_modify m k f) = (vm_lookup m)(k := map_option f (vm_lookup m k))"
  using assms
proof (cases rule: vm_find_cases [where k = k])
  case absent
  then show ?thesis by (simp add: vm_modify_def fun_eq_iff)
next
  case present
  have find: "vm_find (vm_modify m k f) k' = vm_find m k'" for k'
    by (simp add: vm_modify_def vm_assign_def vm_find_def vm_end_def vm_begin_def)
  have elems: "m_elems (vm_modify m k f) = (m_elems m)[vm_find m k := f (m_elems m ! vm_find m k)]"
    using present by (simp add: vm_modify_def vm_assign_def)
  have "vm_lookup (vm_modify m k f) k' = ((vm_lookup m)(k := map_option f (vm_lookup m k))) k'" for k'
    using assms
  proof (cases rule: vm_find_cases [where k = k'])
    case absent
    with present have "k' \<noteq> k" by auto
    with absent show ?thesis by (simp add: vm_lookup_def [of "vm_modify m k f"] find elems vm_end_def)
  next
    case p': present
    then have "vm_lookup (vm_modify m k f) k' = Some (m_elems (vm_modify m k f) ! vm_find m k')"
      by (simp add: vm_lookup_def [of "vm_modify m k f"] find elems vm_end_def)
    moreover have "vm_find m k' = vm_find m k \<longleftrightarrow> k' = k"
      using present p' by metis
    ultimately show ?thesis
      using present p' by (auto simp: elems vm_end_def)
  qed
  then show ?thesis by (rule ext)
qed

lemma vm_modify_invar: "vm_invar cap m \<Longrightarrow> vm_invar cap (vm_modify m k f)"
  by (simp add: vm_invar_def vm_modify_def vm_assign_def vm_wf_def)

lemma vm_size_modify [simp]: "vm_size (vm_modify m k f) = vm_size m"
  by (simp add: vm_modify_def vm_assign_def vm_size_def)

section \<open>The interface of a bounded map\<close>

locale bounded_map =
  fixes empty :: "'m"
    and lookup :: "'m \<Rightarrow> 'k \<Rightarrow> 'v option"
    and emplace :: "'m \<Rightarrow> 'k \<Rightarrow> 'v \<Rightarrow> 'm \<times> bool"
    and remove :: "'m \<Rightarrow> 'k \<Rightarrow> 'm"
    and modify :: "'m \<Rightarrow> 'k \<Rightarrow> ('v \<Rightarrow> 'v) \<Rightarrow> 'm"
    and sz :: "'m \<Rightarrow> nat"
    and cap :: nat
    and invar :: "'m \<Rightarrow> bool"
  assumes invar_empty: "invar empty"
    and lookup_empty: "lookup empty k = None"
    and emplace_accepts: "invar m \<Longrightarrow> snd (emplace m k v) \<longleftrightarrow> sz m < cap"
    and emplace_rejects: "invar m \<Longrightarrow> \<not> snd (emplace m k v) \<Longrightarrow> fst (emplace m k v) = m"
    and invar_emplace: "invar m \<Longrightarrow> lookup m k = None \<Longrightarrow> invar (fst (emplace m k v))"
    and lookup_emplace: "invar m \<Longrightarrow> snd (emplace m k v) \<Longrightarrow> lookup m k = None \<Longrightarrow>
      lookup (fst (emplace m k v)) = (lookup m)(k \<mapsto> v)"
    and size_emplace: "invar m \<Longrightarrow> snd (emplace m k v) \<Longrightarrow> sz (fst (emplace m k v)) = Suc (sz m)"
    and invar_remove: "invar m \<Longrightarrow> invar (remove m k)"
    and lookup_remove: "invar m \<Longrightarrow> lookup (remove m k) = (lookup m)(k := None)"
    and size_remove: "invar m \<Longrightarrow> lookup m k \<noteq> None \<Longrightarrow> Suc (sz (remove m k)) = sz m"
    and invar_modify: "invar m \<Longrightarrow> invar (modify m k f)"
    and lookup_modify: "invar m \<Longrightarrow> lookup (modify m k f) = (lookup m)(k := map_option f (lookup m k))"
    and size_modify: "invar m \<Longrightarrow> sz (modify m k f) = sz m"
begin

lemmas map_laws = invar_empty lookup_empty emplace_accepts invar_emplace lookup_emplace
  size_emplace invar_remove lookup_remove size_remove invar_modify lookup_modify size_modify

lemma emplace_remove_lookup:
  assumes "invar m" "sz m < cap" "lookup m k = None"
  shows "lookup (remove (fst (emplace m k v)) k) = lookup m"
  using assms by (auto simp: map_laws fun_eq_iff)

lemma emplace_remove_size:
  assumes "invar m" "sz m < cap" "lookup m k = None"
  shows "sz (remove (fst (emplace m k v)) k) = sz m"
proof -
  have "Suc (sz (remove (fst (emplace m k v)) k)) = sz (fst (emplace m k v))"
    using assms by (intro size_remove) (auto simp: map_laws)
  then show ?thesis using assms by (simp add: size_emplace emplace_accepts)
qed

lemma modify_remove_lookup:
  "invar m \<Longrightarrow> lookup (remove (modify m k f) k) = lookup (remove m k)"
  by (auto simp: map_laws fun_eq_iff)

text \<open>A failed insertion leaves every entry in place, a successful one hides none.\<close>

lemma emplace_keeps:
  assumes "invar m" "lookup m k = None" "lookup m k' = Some v'"
  shows "lookup (fst (emplace m k v)) k' = Some v'"
  using assms by (cases "snd (emplace m k v)") (auto simp: map_laws emplace_rejects)

end

lemma vm_emplace_invar:
  "vm_invar cap m \<Longrightarrow> vm_lookup m k = None \<Longrightarrow> vm_invar cap (fst (vm_emplace cap m k v))"
  using vm_emplace_wf [of cap m k v]
  by (cases "vm_size m < cap")
    (auto simp: vm_invar_def vm_emplace_room vm_emplace_full vm_lookup_None_iff)

lemma vm_lookup_emplace_fresh:
  "vm_invar cap m \<Longrightarrow> snd (vm_emplace cap m k v) \<Longrightarrow> vm_lookup m k = None \<Longrightarrow>
     vm_lookup (fst (vm_emplace cap m k v)) = (vm_lookup m)(k \<mapsto> v)"
  by (rule ext) (simp add: vm_invar_def vm_lookup_emplace vm_emplace_snd)

lemma vm_size_emplace:
  "vm_invar cap m \<Longrightarrow> snd (vm_emplace cap m k v) \<Longrightarrow>
     vm_size (fst (vm_emplace cap m k v)) = Suc (vm_size m)"
  by (simp add: vm_invar_def vm_emplace_snd vm_emplace_room vm_size_def)

lemma vm_emplace_rejects:
  "vm_invar cap m \<Longrightarrow> \<not> snd (vm_emplace cap m k v) \<Longrightarrow> fst (vm_emplace cap m k v) = m"
  by (simp add: vm_invar_def vm_emplace_snd vm_emplace_full)

lemma vm_emplace_accepts:
  "vm_invar cap m \<Longrightarrow> snd (vm_emplace cap m k v) \<longleftrightarrow> vm_size m < cap"
  by (simp add: vm_invar_def vm_emplace_snd)

lemma vm_lookup_modify_invar:
  "vm_invar cap m \<Longrightarrow> vm_lookup (vm_modify m k f) = (vm_lookup m)(k := map_option f (vm_lookup m k))"
  unfolding vm_invar_def by (blast intro: vm_lookup_modify)

lemma vm_size_remove_present:
  assumes "vm_invar cap m" "vm_lookup m k \<noteq> None"
  shows "Suc (vm_size (vm_remove m k)) = vm_size m"
proof -
  have wf: "vm_wf cap m" using assms(1) by (simp add: vm_invar_def)
  have "vm_size m \<noteq> 0"
    using assms(2) vm_lookup_map_of [OF wf, of k] by (auto simp: vm_size_def)
  then show ?thesis using assms(2) by (simp add: vm_size_remove [OF wf])
qed

interpretation vm: bounded_map vm_empty vm_lookup "vm_emplace cap" vm_remove vm_modify vm_size cap
  "vm_invar cap" for cap
proof unfold_locales
  show "vm_invar cap vm_empty"
    by (simp add: vm_invar_def vm_empty_def vm_wf_def)
  show "vm_lookup vm_empty k = None" for k :: 'a
    by (simp add: vm_lookup_def vm_defs)
qed (simp_all add: vm_emplace_accepts vm_emplace_invar vm_lookup_emplace_fresh vm_size_emplace
    vm_emplace_rejects vm_remove_invar vm_lookup_remove vm_size_remove_present vm_modify_invar
    vm_lookup_modify_invar)

section \<open>Properties\<close>

text \<open>
  C36. The vector map refines a finite partial map of bounded size: under its invariant (two
  vectors of equal length within the capacity, distinct keys), inserting a fresh key succeeds
  exactly when the capacity is not reached and then adds that one entry, a rejected insertion
  changes nothing, erasing a key removes that one entry, assigning through an iterator changes
  that one entry, and all of them keep the invariant.
\<close>

theorem vector_map_refines_map:
  assumes "vm_invar cap m" "vm_lookup m k = None"
  shows "(snd (vm_emplace cap m k v) \<longleftrightarrow> vm_size m < cap) \<and>
    vm_lookup (fst (vm_emplace cap m k v)) = (if vm_size m < cap then (vm_lookup m)(k \<mapsto> v) else vm_lookup m) \<and>
    vm_invar cap (fst (vm_emplace cap m k v)) \<and>
    vm_lookup (vm_remove m k') = (vm_lookup m)(k' := None) \<and> vm_invar cap (vm_remove m k') \<and>
    vm_lookup (vm_modify m k' f) = (vm_lookup m)(k' := map_option f (vm_lookup m k')) \<and> vm_invar cap (vm_modify m k' f)"
  using assms vm.map_laws(4,5,7,8,10,11) vm_emplace_accepts [OF assms(1), of k v] vm_emplace_rejects [OF assms(1), of k v]
  by auto

theorem vector_map_refines_map_witness:
  "vm_invar 2 \<lparr>m_keys = [1 :: nat], m_elems = [CHR ''a'']\<rparr> \<and>
   vm_lookup (fst (vm_emplace 2 \<lparr>m_keys = [1 :: nat], m_elems = [CHR ''a'']\<rparr> 5 CHR ''b'')) 5 = Some CHR ''b''"
  using vector_map_refines_map [of 2 "\<lparr>m_keys = [1 :: nat], m_elems = [CHR ''a'']\<rparr>" 5 "CHR ''b''"]
  by (simp add: vm_invar_def vm_wf_def vm_lookup_def vm_defs)

end
