(* ===== verification/HelperFunctions.thy ===== *)
theory HelperFunctions
  imports Prelude "HOL-Library.Multiset" "HOL-Library.Sublist"
begin

text \<open>
  The generic container and copy helpers of \<^verbatim>\<open>include/p3com/utility/helper_functions.hpp\<close>,
  translated loop by loop, and what they compute: membership, multiset difference, a
  duplicate-free union cut off at the capacity, and a byte copy.
\<close>

section \<open>Element search, deletion and union\<close>

definition containsElement :: "'a list \<Rightarrow> 'a \<Rightarrow> bool" where
  "containsElement container element =
     (let it = find_if (\<lambda>y. y = element) container in it \<noteq> length container)"

text \<open>
  The specialisation for a service vector and a class hash; the class hash of a service is
  computed by the middleware, so it is the parameter \<open>getClassHash\<close>.
\<close>

definition containsElementHash :: "('s \<Rightarrow> 'h) \<Rightarrow> 's list \<Rightarrow> 'h \<Rightarrow> bool" where
  "containsElementHash getClassHash container element =
     (let it = find_if (\<lambda>s. getClassHash s = element) container in it \<noteq> length container)"

definition deleteElement :: "'a list \<Rightarrow> 'a \<Rightarrow> 'a list" where
  "deleteElement container element =
     (let it = find_if (\<lambda>y. y = element) container
      in if it \<noteq> length container then erase_at it container else container)"

fun deleteElements :: "'a list \<Rightarrow> 'a list \<Rightarrow> 'a list" where
  "deleteElements a [] = a"
| "deleteElements a (elem # b) = deleteElements (deleteElement a elem) b"

fun pushUnique :: "nat \<Rightarrow> 'a list \<Rightarrow> 'a list \<Rightarrow> 'a list" where
  "pushUnique cap a [] = a"
| "pushUnique cap a (elem # b) =
     pushUnique cap (if \<not> containsElement a elem then fst (push_back cap a elem) else a) b"

text \<open>The same union without a capacity: the reference \<^const>\<open>pushUnique\<close> is compared with.\<close>

fun uniqueUnion :: "'a list \<Rightarrow> 'a list \<Rightarrow> 'a list" where
  "uniqueUnion a [] = a"
| "uniqueUnion a (x # b) = uniqueUnion (if x \<in> set a then a else a @ [x]) b"

lemma containsElement_iff [simp]: "containsElement xs x \<longleftrightarrow> x \<in> set xs"
  by (auto simp: containsElement_def find_if_end)

lemma containsElementHash_iff [simp]:
  "containsElementHash f xs h \<longleftrightarrow> (\<exists>s \<in> set xs. f s = h)"
  by (auto simp: containsElementHash_def find_if_end)

lemma deleteElement_remove1 [simp]: "deleteElement xs x = remove1 x xs"
  by (auto simp: deleteElement_def erase_at_find_if find_if_end remove1_idem)

lemma mset_deleteElements: "mset (deleteElements a b) = mset a - mset b"
  by (induction b arbitrary: a) (simp_all add: diff_right_commute)

lemma deleteElements_Nil_iff: "deleteElements a b = [] \<longleftrightarrow> mset a \<subseteq># mset b"
  by (metis Diff_eq_empty_iff_mset mset_deleteElements mset_zero_iff)

lemma uniqueUnion_set [simp]: "set (uniqueUnion a b) = set a \<union> set b"
  by (induction a b rule: uniqueUnion.induct) auto

lemma uniqueUnion_distinct: "distinct a \<Longrightarrow> distinct (uniqueUnion a b)"
  by (induction a b rule: uniqueUnion.induct) auto

lemma uniqueUnion_prefix: "prefix a (uniqueUnion a b)"
proof (induction a b rule: uniqueUnion.induct)
  case (1 a)
  then show ?case by simp
next
  case (2 a x b)
  have "prefix a (if x \<in> set a then a else a @ [x])" by simp
  then show ?case using "2.IH" by (auto intro: prefix_order.trans)
qed

lemma pushUnique_full: "cap \<le> length a \<Longrightarrow> pushUnique cap a b = a"
  by (induction b) (simp_all add: push_back_def)

lemma pushUnique_uniqueUnion:
  "length a \<le> cap \<Longrightarrow> pushUnique cap a b = take cap (uniqueUnion a b)"
proof (induction b arbitrary: a)
  case Nil
  then show ?case by simp
next
  case (Cons x b)
  show ?case
  proof (cases "x \<in> set a")
    case True
    then show ?thesis using Cons by simp
  next
    case False
    show ?thesis
    proof (cases "length a < cap")
      case True
      then show ?thesis using Cons.IH [of "a @ [x]"] False by (simp add: push_back_def)
    next
      case full: False
      with Cons.prems have "length a = cap" by simp
      moreover from uniqueUnion_prefix [of "a @ [x]" b] obtain r
        where "uniqueUnion (a @ [x]) b = a @ [x] @ r" by (auto simp: prefix_def)
      ultimately show ?thesis using False by (simp add: push_back_def pushUnique_full)
    qed
  qed
qed

lemma pushUnique_distinct: "distinct a \<Longrightarrow> length a \<le> cap \<Longrightarrow> distinct (pushUnique cap a b)"
  by (simp add: pushUnique_uniqueUnion uniqueUnion_distinct)

lemma pushUnique_bounded: "length a \<le> cap \<Longrightarrow> length (pushUnique cap a b) \<le> cap"
  by (simp add: pushUnique_uniqueUnion)

lemma pushUnique_subset: "length a \<le> cap \<Longrightarrow> set (pushUnique cap a b) \<subseteq> set a \<union> set b"
  by (metis pushUnique_uniqueUnion set_take_subset uniqueUnion_set)

text \<open>With room for every element the union is complete.\<close>

lemma pushUnique_complete:
  assumes "distinct a" "card (set a \<union> set b) \<le> cap"
  shows "set (pushUnique cap a b) = set a \<union> set b"
proof -
  have "length a \<le> cap"
    using assms distinct_card [OF assms(1)] card_mono [of "set a \<union> set b" "set a"] by simp
  moreover have "length (uniqueUnion a b) \<le> cap"
    using assms(2) distinct_card [OF uniqueUnion_distinct [OF assms(1), of b]] by simp
  ultimately show ?thesis by (simp add: pushUnique_uniqueUnion)
qed

section \<open>Byte copies\<close>

text \<open>
  \<open>source\<close> is the memory at the source pointer. Reading past it is a fault, as is writing
  outside the destination. The plain build copies with \<^verbatim>\<open>std::memcpy\<close>.
\<close>

definition read_bytes :: "'a list \<Rightarrow> nat \<Rightarrow> 'a list result" where
  "read_bytes source sz = (if sz \<le> length source then Inr (take sz source) else Inl Out_Of_Bounds)"

definition neonMemcpy :: "'a list \<Rightarrow> nat \<Rightarrow> 'a list \<Rightarrow> nat \<Rightarrow> 'a list result" where
  "neonMemcpy destination off source sz = bindR (read_bytes source sz) (memcpy destination off)"

text \<open>
  On ARM, a loop of 64-byte vector moves (post-incrementing both pointers and counting the
  iterations down) is followed by a copy of the remaining bytes.
\<close>

definition ITERATION_SIZE :: nat where
  "ITERATION_SIZE = 64"

fun neon_memcpy_loop :: "nat \<Rightarrow> 'a list \<Rightarrow> nat \<Rightarrow> 'a list \<Rightarrow> ('a list \<times> nat \<times> 'a list) result" where
  "neon_memcpy_loop 0 dst off src = Inr (dst, off, src)"
| "neon_memcpy_loop (Suc iterations) dst off src =
     bindR (neonMemcpy dst off src ITERATION_SIZE) (\<lambda>dst'.
       neon_memcpy_loop iterations dst' (off + ITERATION_SIZE) (drop ITERATION_SIZE src))"

definition neonMemcpyArm :: "'a list \<Rightarrow> nat \<Rightarrow> 'a list \<Rightarrow> nat \<Rightarrow> 'a list result" where
  "neonMemcpyArm destination off source sz =
     bindR (if sz \<ge> ITERATION_SIZE
            then neon_memcpy_loop (sz div ITERATION_SIZE) destination off source
            else Inr (destination, off, source)) (\<lambda>(dst, off', src).
       let remainingSize = sz mod ITERATION_SIZE
       in if remainingSize \<noteq> 0 then neonMemcpy dst off' src remainingSize else Inr dst)"

lemma neonMemcpy_ok [buffer_simps]:
  "sz \<le> length src \<Longrightarrow> off + sz \<le> length dst \<Longrightarrow>
     neonMemcpy dst off src sz = Inr (take off dst @ take sz src @ drop (off + sz) dst)"
  by (simp add: neonMemcpy_def read_bytes_def memcpy_def min_absorb2)

lemma neonMemcpy_fault:
  "length src < sz \<or> length dst < off + sz \<Longrightarrow> neonMemcpy dst off src sz = Inl Out_Of_Bounds"
  by (auto simp: neonMemcpy_def read_bytes_def memcpy_def)

lemma neonMemcpy_0: "off \<le> length dst \<Longrightarrow> neonMemcpy dst off src 0 = Inr dst"
  by (simp add: neonMemcpy_ok)

text \<open>Two adjacent copies are one copy.\<close>

lemma neonMemcpy_split:
  "bindR (neonMemcpy dst off src m) (\<lambda>dst'. neonMemcpy dst' (off + m) (drop m src) n)
     = neonMemcpy dst off src (m + n)"
proof (cases "m + n \<le> length src \<and> off + (m + n) \<le> length dst")
  case True
  then have "neonMemcpy (take off dst @ take m src @ drop (off + m) dst) (off + m) (drop m src) n
      = Inr (take off dst @ take m src @ take n (drop m src) @ drop (off + m + n) dst)"
    by (subst neonMemcpy_ok) (auto simp: ac_simps)
  with True show ?thesis
    by (simp add: neonMemcpy_ok take_add add.assoc)
next
  case False
  then show ?thesis
  proof (cases "m \<le> length src \<and> off + m \<le> length dst")
    case True
    with False have "neonMemcpy (take off dst @ take m src @ drop (off + m) dst) (off + m) (drop m src) n
        = Inl Out_Of_Bounds"
      by (intro neonMemcpy_fault) auto
    moreover from False have "neonMemcpy dst off src (m + n) = Inl Out_Of_Bounds"
      by (intro neonMemcpy_fault) auto
    ultimately show ?thesis using True by (simp add: neonMemcpy_ok)
  next
    case inner: False
    with False show ?thesis by (auto simp: neonMemcpy_fault)
  qed
qed

lemma neon_memcpy_loop_copies:
  "bindR (neon_memcpy_loop k dst off src) (\<lambda>(dst', off', src'). neonMemcpy dst' off' src' r)
     = neonMemcpy dst off src (k * ITERATION_SIZE + r)"
proof (induction k arbitrary: dst off src)
  case 0
  then show ?case by simp
next
  case (Suc k)
  show ?case
    by (simp add: bindR_assoc Suc.IH neonMemcpy_split add.assoc)
qed

lemma neonMemcpy_length: "neonMemcpy dst off src sz = Inr dst' \<Longrightarrow> length dst' = length dst \<and> off + sz \<le> length dst"
  by (auto simp: neonMemcpy_def read_bytes_def memcpy_def split: if_splits)

lemma neon_memcpy_loop_in_range:
  "neon_memcpy_loop k dst off src = Inr (dst', off', src') \<Longrightarrow> off \<le> length dst \<Longrightarrow> off' \<le> length dst'"
proof (induction k arbitrary: dst off src)
  case 0
  then show ?case by simp
next
  case (Suc k)
  then show ?case by (auto simp: bindR_Inr_iff dest: neonMemcpy_length)
qed

text \<open>The vectorised copy is the plain one, faults included.\<close>

lemma neonMemcpyArm_eq:
  assumes "off \<le> length destination"
  shows "neonMemcpyArm destination off source sz = neonMemcpy destination off source sz"
proof -
  let ?loop = "neon_memcpy_loop (sz div ITERATION_SIZE) destination off source"
  have tail: "bindR ?loop (\<lambda>(dst, off', src). let r = sz mod ITERATION_SIZE
      in if r \<noteq> 0 then neonMemcpy dst off' src r else Inr dst)
    = bindR ?loop (\<lambda>(dst, off', src). neonMemcpy dst off' src (sz mod ITERATION_SIZE))"
    by (intro bindR_cong refl)
      (auto simp: neonMemcpy_0 dest: neon_memcpy_loop_in_range [OF _ assms])
  have "sz < ITERATION_SIZE \<Longrightarrow> ?loop = Inr (destination, off, source)"
    by simp
  then have "neonMemcpyArm destination off source sz = bindR ?loop (\<lambda>(dst, off', src).
      let r = sz mod ITERATION_SIZE in if r \<noteq> 0 then neonMemcpy dst off' src r else Inr dst)"
    by (auto simp: neonMemcpyArm_def simp del: neon_memcpy_loop.simps)
  also note tail
  also have "bindR ?loop (\<lambda>(dst, off', src). neonMemcpy dst off' src (sz mod ITERATION_SIZE))
      = neonMemcpy destination off source sz"
    by (simp add: neon_memcpy_loop_copies)
  finally show ?thesis .
qed

section \<open>Properties\<close>

text \<open>
  C35. The vectorised copy of the ARM build, a loop of 64-byte moves and a copy of the rest, does
  what the plain copy does: on every destination, offset, source and size it gives the same
  buffer or the same fault.
\<close>

theorem neonMemcpy_builds_agree:
  assumes "off \<le> length destination"
  shows "neonMemcpyArm destination off source sz = neonMemcpy destination off source sz"
  by (rule neonMemcpyArm_eq [OF assms])

theorem neonMemcpy_builds_agree_witness:
  "neonMemcpyArm (replicate 70 0) 1 (replicate 66 (7 :: nat)) 66 = Inr (0 # replicate 66 7 @ [0, 0, 0])"
  using neonMemcpy_builds_agree [of 1 "replicate 70 0" "replicate 66 (7 :: nat)" 66]
  by (simp add: neonMemcpy_ok drop_replicate take_replicate numeral_eq_Suc)

text \<open>
  \<^verbatim>\<open>pushUnique\<close> on a bounded vector keeps what is there, adds nothing twice and nothing that is
  not asked for, and never exceeds the capacity; what it drops it drops only when the vector
  is full, so with room for the union it computes the union.
\<close>

theorem pushUnique_union:
  assumes "distinct a" "length a \<le> cap"
  shows "prefix a (pushUnique cap a b) \<and> distinct (pushUnique cap a b) \<and>
    length (pushUnique cap a b) = min cap (card (set a \<union> set b)) \<and> set (pushUnique cap a b) \<subseteq> set a \<union> set b \<and>
    (card (set a \<union> set b) \<le> cap \<longrightarrow> set (pushUnique cap a b) = set a \<union> set b)"
proof -
  have card: "length (uniqueUnion a b) = card (set a \<union> set b)"
    using distinct_card [OF uniqueUnion_distinct [OF assms(1)], of b] by simp
  have "prefix a (take cap (uniqueUnion a b))"
    using uniqueUnion_prefix [of a b] assms(2) by (auto simp: prefix_def)
  then show ?thesis
    using assms card pushUnique_complete [OF assms(1)] pushUnique_subset [OF assms(2), of b]
    by (simp add: pushUnique_uniqueUnion uniqueUnion_distinct min.commute)
qed

theorem pushUnique_union_witness:
  "distinct [1, 2 :: nat] \<and> pushUnique 4 [1, 2] [2, 3, 3, 1] = [1, 2, 3 :: nat] \<and>
   length (pushUnique 4 [1, 2] [2, 3, 3, 1 :: nat]) = min 4 (card (set [1, 2] \<union> set [2, 3, 3, 1 :: nat]))"
  using pushUnique_union [of "[1, 2 :: nat]" 4 "[2, 3, 3, 1]"] by (simp add: push_back_def)

end
