(* ===== verification/Gateway.thy ===== *)
theory Gateway
  imports VectorMap HelperFunctions Types Transport
begin

text \<open>
  The base class \<^verbatim>\<open>Gateway<Endpoint>\<close> (\<^verbatim>\<open>include/p3com/gateway/gateway.hpp\<close>,
  \<^verbatim>\<open>include/p3com/internal/gateway/gateway.inl\<close>): the endpoints (publishers or subscribers) of a
  gateway, one per service, kept under the class hash of the service. An endpoint is an
  abstract value \<open>'e\<close>; the rest of the gateway's state is \<open>'x\<close>. The locale
  \<open>channel_gateway\<close> is the contract of the two functions a derived class passes to
  \<^verbatim>\<open>updateChannelsInternal\<close>; under it the endpoints always end up being the wanted ones.
\<close>

section \<open>Operations\<close>

type_synonym 'e endpoints = "(class_hash, 'e) vector_map"
type_synonym ('e, 'x) gateway = "'e endpoints \<times> 'x"
type_synonym ('e, 'x) channel_fn = "service_description \<Rightarrow> ('e, 'x) gateway \<Rightarrow> ('e, 'x) gateway result"

definition servicesToDelete ::
  "('e \<Rightarrow> service_description) \<Rightarrow> service_description list \<Rightarrow> 'e endpoints \<Rightarrow> service_description list" where
  "servicesToDelete getServiceDescription services m =
     push_all MAX_TOPICS []
       (filter (\<lambda>service. \<not> containsElement services service) (map getServiceDescription (m_elems m)))"

definition servicesToSetup ::
  "iox_env \<Rightarrow> service_description list \<Rightarrow> 'e endpoints \<Rightarrow> service_description list" where
  "servicesToSetup E services m =
     push_all MAX_TOPICS [] (filter (\<lambda>service. vm_find m (getClassHash E service) = vm_end m) services)"

definition updateChannelsInternal ::
  "iox_env \<Rightarrow> ('e \<Rightarrow> service_description) \<Rightarrow> service_description list
     \<Rightarrow> ('e, 'x) channel_fn \<Rightarrow> ('e, 'x) channel_fn \<Rightarrow> ('e, 'x) gateway \<Rightarrow> ('e, 'x) gateway result" where
  "updateChannelsInternal E getServiceDescription services setupFn deleteFn = (\<lambda>(m, x).
     bindR (foldR deleteFn (servicesToDelete getServiceDescription services m) (m, x))
           (foldR setupFn (servicesToSetup E services m)))"

text \<open>\<open>construct\<close> constructs the endpoint, \<open>f\<close> runs on the emplaced one.\<close>

definition addChannel ::
  "iox_env \<Rightarrow> (service_description \<Rightarrow> 'x \<Rightarrow> 'e \<times> 'x) \<Rightarrow> ('e \<Rightarrow> 'x \<Rightarrow> 'x result) \<Rightarrow> ('e, 'x) channel_fn" where
  "addChannel E construct f service = (\<lambda>(m, x).
     case construct service x of (e, x1) \<Rightarrow>
     case vm_emplace MAX_TOPICS m (getClassHash E service) e of (m', emplaced) \<Rightarrow>
       if \<not> emplaced then Inr (m', x1)
       else bindR (vm_back m') (\<lambda>back. bindR (f back x1) (\<lambda>x2. Inr (m', x2))))"

definition discardChannel ::
  "iox_env \<Rightarrow> ('e \<Rightarrow> 'x \<Rightarrow> 'x result) \<Rightarrow> ('e, 'x) channel_fn" where
  "discardChannel E f service = (\<lambda>(m, x).
     let it = vm_find m (getClassHash E service)
     in if it = vm_end m then Inr (m, x)
        else bindR (vm_deref m it) (\<lambda>e. bindR (f e x) (\<lambda>x'. Inr (vm_erase m it, x'))))"

definition doForChannel :: "class_hash \<Rightarrow> ('e \<Rightarrow> 'x \<Rightarrow> 'x result) \<Rightarrow> ('e, 'x) gateway \<Rightarrow> 'x result" where
  "doForChannel hash f = (\<lambda>(m, x).
     let it = vm_find m hash
     in if it \<noteq> vm_end m then bindR (vm_deref m it) (\<lambda>e. f e x) else Inr x)"

section \<open>Effect of the operations on the map of endpoints\<close>

lemma vm_end_wf: "vm_wf cap m \<Longrightarrow> vm_end m = length (m_elems m)"
  by (simp add: vm_end_def vm_wf_def)

lemma doForChannel_eq:
  assumes "vm_wf cap m"
  shows "doForChannel h f (m, x) = (case vm_lookup m h of None \<Rightarrow> Inr x | Some e \<Rightarrow> f e x)"
  using assms by (cases rule: vm_find_cases [where k = h])
    (simp_all add: doForChannel_def vm_deref_def read_at_def vm_end_wf [OF assms])

lemma discardChannel_eq:
  assumes "vm_wf cap m"
  shows "discardChannel E f s (m, x) = (case vm_lookup m (getClassHash E s) of
      None \<Rightarrow> Inr (m, x) | Some e \<Rightarrow> bindR (f e x) (\<lambda>x'. Inr (vm_remove m (getClassHash E s), x')))"
  using assms by (cases rule: vm_find_cases [where k = "getClassHash E s"])
    (simp_all add: discardChannel_def vm_deref_def read_at_def vm_end_wf [OF assms] vm_remove_def)

lemma addChannel_room:
  assumes "vm_wf MAX_TOPICS m" "vm_size m < MAX_TOPICS" "construct s x = (e, x1)"
  shows "addChannel E construct f s (m, x)
    = bindR (f e x1) (\<lambda>x2. Inr (fst (vm_emplace MAX_TOPICS m (getClassHash E s) e), x2))"
  using assms by (simp add: addChannel_def vm_emplace_room vm_back_def)

lemma addChannel_full:
  assumes "vm_wf MAX_TOPICS m" "\<not> vm_size m < MAX_TOPICS" "construct s x = (e, x1)"
  shows "addChannel E construct f s (m, x) = Inr (m, x1)"
  using assms by (simp add: addChannel_def vm_emplace_full)

section \<open>Updating the channels\<close>

definition ep_inv :: "iox_env \<Rightarrow> ('e \<Rightarrow> service_description) \<Rightarrow> 'e endpoints \<Rightarrow> bool" where
  "ep_inv E getServiceDescription m \<longleftrightarrow> vm_invar MAX_TOPICS m \<and>
     (\<forall>k e. vm_lookup m k = Some e \<longrightarrow> getClassHash E (getServiceDescription e) = k)"

abbreviation endpoint_services :: "('e \<Rightarrow> service_description) \<Rightarrow> 'e endpoints \<Rightarrow> service_description set" where
  "endpoint_services gsd m \<equiv> gsd ` ran (vm_lookup m)"

lemma card_disjoint_le:
  assumes "A \<inter> B = {}" "A \<union> B \<subseteq> C" "finite C"
  shows "card A + card B \<le> card C"
  using assms by (metis card_Un_disjoint card_mono finite_subset le_sup_iff)

lemma vm_dom: "vm_wf cap m \<Longrightarrow> dom (vm_lookup m) = set (m_keys m)"
  by (rule set_eqI) (simp add: domIff vm_lookup_None_iff)

lemma vm_size_card: "vm_invar cap m \<Longrightarrow> vm_size m = card (dom (vm_lookup m))"
  by (auto simp: vm_invar_def vm_dom distinct_card vm_size_def vm_wf_def)

lemma vm_ran: "vm_invar cap m \<Longrightarrow> ran (vm_lookup m) = set (m_elems m)"
proof -
  assume inv: "vm_invar cap m"
  then have "vm_lookup m = map_of (vm_alist m)"
    by (intro ext vm_lookup_map_of [of cap]) (simp add: vm_invar_def)
  moreover have "distinct (map fst (vm_alist m))" "map snd (vm_alist m) = m_elems m"
    using inv by (simp_all add: vm_invar_def vm_wf_def)
  ultimately show ?thesis by (metis list.set_map ran_distinct)
qed

text \<open>The two work lists of \<^verbatim>\<open>updateChannelsInternal\<close>: neither is cut off by its capacity.\<close>

lemma ep_inv_keys:
  assumes "ep_inv E gsd m"
  shows "map (getClassHash E) (map gsd (m_elems m)) = m_keys m"
proof (rule nth_equalityI)
  have wf: "vm_wf MAX_TOPICS m" using assms by (simp add: ep_inv_def vm_invar_def)
  then show "length (map (getClassHash E) (map gsd (m_elems m))) = length (m_keys m)" by (simp add: vm_wf_def)
  fix i assume "i < length (map (getClassHash E) (map gsd (m_elems m)))"
  then have i: "i < length (m_elems m)" by simp
  have "map_of (vm_alist m) (m_keys m ! i) = Some (m_elems m ! i)"
    using i assms by (intro map_of_is_SomeI) (auto simp: ep_inv_def vm_invar_def vm_wf_def in_set_zip)
  then show "map (getClassHash E) (map gsd (m_elems m)) ! i = m_keys m ! i"
    using assms vm_lookup_map_of [OF wf] i by (simp add: ep_inv_def)
qed

lemma servicesToDelete_spec:
  assumes "ep_inv E gsd m"
  shows "set (servicesToDelete gsd services m) = endpoint_services gsd m - set services"
    and "distinct (map (getClassHash E) (servicesToDelete gsd services m))"
proof -
  have inv: "vm_invar MAX_TOPICS m" using assms by (simp add: ep_inv_def)
  let ?P = "\<lambda>s. s \<notin> set services"
  have "length (filter ?P (map gsd (m_elems m))) \<le> MAX_TOPICS"
    by (rule order_trans [OF length_filter_le]) (use inv in \<open>simp add: vm_invar_def vm_wf_def\<close>)
  then have eq: "servicesToDelete gsd services m = filter ?P (map gsd (m_elems m))"
    by (simp add: servicesToDelete_def push_all_take)
  show "set (servicesToDelete gsd services m) = endpoint_services gsd m - set services"
    unfolding eq vm_ran [OF inv] by auto
  have "distinct (map (getClassHash E) (map gsd (m_elems m)))"
    unfolding ep_inv_keys [OF assms] using inv by (simp add: vm_invar_def)
  then show "distinct (map (getClassHash E) (servicesToDelete gsd services m))"
    unfolding eq by (rule distinct_map_filter)
qed

lemma servicesToSetup_eq:
  assumes "length services \<le> MAX_TOPICS"
  shows "servicesToSetup E services m = filter (\<lambda>s. vm_lookup m (getClassHash E s) = None) services"
proof -
  have "(vm_find m k = vm_end m) = (vm_lookup m k = None)" for k by (simp add: vm_lookup_def)
  moreover have "length (filter P services) \<le> MAX_TOPICS" for P using assms length_filter_le le_trans by blast
  ultimately show ?thesis by (simp add: servicesToSetup_def push_all_take)
qed

text \<open>
  What the two passes rest on: an endpoint that survives the deletions offers a wanted service,
  and the services set up afterwards find room, since they and the survivors are all wanted.
\<close>

lemma endpoint_kept:
  assumes "ep_inv E gsd m" "(vm_lookup m |` (- getClassHash E ` set (servicesToDelete gsd services m))) k = Some e"
  shows "gsd e \<in> set services \<and> getClassHash E (gsd e) = k"
proof -
  let ?ds = "servicesToDelete gsd services m"
  have e: "vm_lookup m k = Some e" "k \<notin> getClassHash E ` set ?ds"
    using assms(2) by (auto simp: restrict_map_def split: if_splits)
  have key: "getClassHash E (gsd e) = k" using assms(1) e(1) by (simp add: ep_inv_def)
  have "gsd e \<in> endpoint_services gsd m" "gsd e \<notin> set ?ds" using e key by (auto simp: ran_def)
  then show ?thesis using key servicesToDelete_spec [OF assms(1)] by simp
qed

lemma setup_room:
  assumes "vm_invar cap m" "distinct (map f ss)" "\<forall>s \<in> set ss. vm_lookup m (f s) = None"
    and "dom (vm_lookup m) \<union> f ` set ss \<subseteq> f ` set services"
  shows "vm_size m + length ss \<le> length services"
proof -
  have "dom (vm_lookup m) \<inter> f ` set ss = {}" using assms(3) by auto
  then have "card (dom (vm_lookup m)) + card (f ` set ss) \<le> card (f ` set services)"
    using assms(4) by (intro card_disjoint_le) simp_all
  moreover have "card (f ` set ss) = length ss" using distinct_card [OF assms(2)] by simp
  ultimately show ?thesis
    using vm_size_card [OF assms(1)] card_image_le [of "set services" f] card_length [of services] by simp
qed

text \<open>
  What \<^verbatim>\<open>updateChannelsInternal\<close> relies on: setting up a channel for a service that has none
  emplaces an endpoint of that service, deleting one removes it. \<open>I\<close> is what they need of the
  rest of the state.
\<close>

locale channel_gateway =
  fixes E :: iox_env
    and gsd :: "'e \<Rightarrow> service_description"
    and setupFn deleteFn :: "('e, 'x) channel_fn"
    and I :: "'x \<Rightarrow> bool"
  assumes setup_ok: "I x \<Longrightarrow> vm_invar MAX_TOPICS m \<Longrightarrow> vm_size m < MAX_TOPICS \<Longrightarrow>
      \<exists>e x'. setupFn s (m, x) = Inr (fst (vm_emplace MAX_TOPICS m (getClassHash E s) e), x') \<and> I x' \<and> gsd e = s"
    and delete_ok: "I x \<Longrightarrow> vm_invar MAX_TOPICS m \<Longrightarrow> vm_lookup m (getClassHash E s) \<noteq> None \<Longrightarrow>
      \<exists>x'. deleteFn s (m, x) = Inr (vm_remove m (getClassHash E s), x') \<and> I x'"
begin

lemma delete_all:
  assumes "I x" "vm_invar MAX_TOPICS m" "distinct (map (getClassHash E) ds)"
    and "\<forall>s \<in> set ds. vm_lookup m (getClassHash E s) \<noteq> None"
  shows "\<exists>m' x'. foldR deleteFn ds (m, x) = Inr (m', x') \<and> I x' \<and> vm_invar MAX_TOPICS m' \<and>
    vm_lookup m' = vm_lookup m |` (- getClassHash E ` set ds)"
  using assms
proof (induction ds arbitrary: m x)
  case Nil
  then show ?case by simp
next
  case (Cons d ds)
  obtain x1 where 1: "deleteFn d (m, x) = Inr (vm_remove m (getClassHash E d), x1)" "I x1"
    using delete_ok Cons.prems by (metis list.set_intros(1))
  have look: "vm_lookup (vm_remove m (getClassHash E d)) = (vm_lookup m)(getClassHash E d := None)"
    using vm.lookup_remove [OF Cons.prems(2)] .
  have "\<forall>s \<in> set ds. getClassHash E s \<noteq> getClassHash E d" using Cons.prems(3) by (auto simp: image_iff)
  then have "\<forall>s \<in> set ds. vm_lookup (vm_remove m (getClassHash E d)) (getClassHash E s) \<noteq> None"
    using Cons.prems(4) by (simp add: look)
  then obtain m' x' where "foldR deleteFn ds (vm_remove m (getClassHash E d), x1) = Inr (m', x')" "I x'"
    "vm_invar MAX_TOPICS m'"
    "vm_lookup m' = vm_lookup (vm_remove m (getClassHash E d)) |` (- getClassHash E ` set ds)"
    using Cons.IH [OF 1(2) vm.invar_remove [OF Cons.prems(2)], of "getClassHash E d"] Cons.prems(3) by auto
  then show ?case
    using 1 by (auto simp: look restrict_map_def fun_eq_iff)
qed

lemma setup_all:
  assumes "I x" "vm_invar MAX_TOPICS m" "distinct (map (getClassHash E) ss)"
    and "\<forall>s \<in> set ss. vm_lookup m (getClassHash E s) = None" "vm_size m + length ss \<le> MAX_TOPICS"
  shows "\<exists>m' x'. foldR setupFn ss (m, x) = Inr (m', x') \<and> I x' \<and> vm_invar MAX_TOPICS m' \<and>
    (\<forall>k. k \<notin> getClassHash E ` set ss \<longrightarrow> vm_lookup m' k = vm_lookup m k) \<and>
    (\<forall>s \<in> set ss. \<exists>e. vm_lookup m' (getClassHash E s) = Some e \<and> gsd e = s)"
  using assms
proof (induction ss arbitrary: m x)
  case Nil
  then show ?case by simp
next
  case (Cons s ss)
  let ?k = "getClassHash E s"
  have room: "vm_size m < MAX_TOPICS" using Cons.prems(5) by simp
  obtain e x1 where 1: "setupFn s (m, x) = Inr (fst (vm_emplace MAX_TOPICS m ?k e), x1)" "I x1" "gsd e = s"
    using setup_ok [OF Cons.prems(1,2) room] by blast
  let ?m = "fst (vm_emplace MAX_TOPICS m ?k e)"
  have none: "vm_lookup m ?k = None" using Cons.prems(4) by simp
  have acc: "snd (vm_emplace MAX_TOPICS m ?k e)" using vm.emplace_accepts [OF Cons.prems(2)] room by simp
  have inv: "vm_invar MAX_TOPICS ?m" and look: "vm_lookup ?m = (vm_lookup m)(?k \<mapsto> e)"
    and sz: "vm_size ?m = Suc (vm_size m)"
    using vm.invar_emplace [OF Cons.prems(2) none] vm.lookup_emplace [OF Cons.prems(2) acc none]
      vm.size_emplace [OF Cons.prems(2) acc] by auto
  have "\<forall>s' \<in> set ss. getClassHash E s' \<noteq> ?k" using Cons.prems(3) by (auto simp: image_iff)
  then have "\<forall>s' \<in> set ss. vm_lookup ?m (getClassHash E s') = None"
    using Cons.prems(4) by (simp add: look)
  then obtain m' x' where 2: "foldR setupFn ss (?m, x1) = Inr (m', x')" "I x'" "vm_invar MAX_TOPICS m'"
    "\<forall>k. k \<notin> getClassHash E ` set ss \<longrightarrow> vm_lookup m' k = vm_lookup ?m k"
    "\<forall>s \<in> set ss. \<exists>e. vm_lookup m' (getClassHash E s) = Some e \<and> gsd e = s"
    using Cons.IH [OF 1(2) inv] Cons.prems(3,5) sz by auto
  have "vm_lookup m' ?k = Some e" using 2(4) look Cons.prems(3) by auto
  then show ?case using 1 2 look by auto
qed

text \<open>
  With class hashes that do not collide on the services involved, and no more services than
  channels, the endpoints afterwards are exactly those of the wanted services.
\<close>

lemma update_channels:
  assumes "I x" "ep_inv E gsd m" "distinct services" "length services \<le> MAX_TOPICS"
    and inj: "inj_on (getClassHash E) (set services \<union> endpoint_services gsd m)"
  shows "\<exists>m' x'. updateChannelsInternal E gsd services setupFn deleteFn (m, x) = Inr (m', x') \<and> I x' \<and>
    ep_inv E gsd m' \<and> endpoint_services gsd m' = set services"
proof -
  let ?h = "getClassHash E"
  have inv: "vm_invar MAX_TOPICS m" and key: "\<And>k e. vm_lookup m k = Some e \<Longrightarrow> ?h (gsd e) = k"
    using assms(2) by (auto simp: ep_inv_def)
  let ?ds = "servicesToDelete gsd services m"
  let ?ss = "servicesToSetup E services m"
  have ds: "set ?ds = endpoint_services gsd m - set services" "distinct (map ?h ?ds)"
    using servicesToDelete_spec [OF assms(2)] by auto
  have ss: "?ss = filter (\<lambda>s. vm_lookup m (?h s) = None) services"
    using assms(4) by (rule servicesToSetup_eq)
  have "\<forall>s \<in> set ?ds. vm_lookup m (?h s) \<noteq> None" unfolding ds using key by (fastforce simp: ran_def)
  then obtain m1 x1 where 1: "foldR deleteFn ?ds (m, x) = Inr (m1, x1)" "I x1" "vm_invar MAX_TOPICS m1"
    and look1: "vm_lookup m1 = vm_lookup m |` (- ?h ` set ?ds)"
    using delete_all [OF assms(1) inv ds(2)] by blast
  have kept: "gsd e \<in> set services \<and> ?h (gsd e) = k" if "vm_lookup m1 k = Some e" for k e
    using endpoint_kept [OF assms(2)] that unfolding look1 by blast
  have dist: "distinct (map ?h ?ss)"
    using assms(3) inj unfolding ss by (auto simp: distinct_map intro: inj_on_subset)
  have none: "\<forall>s \<in> set ?ss. vm_lookup m1 (?h s) = None"
    unfolding ss by (simp add: look1 restrict_map_def)
  have "dom (vm_lookup m1) \<union> ?h ` set ?ss \<subseteq> ?h ` set services"
    using kept unfolding ss by (auto simp: image_iff)
  then have "vm_size m1 + length ?ss \<le> MAX_TOPICS"
    by (rule order_trans [OF setup_room [OF 1(3) dist none] assms(4)])
  then obtain m2 x2 where 2: "foldR setupFn ?ss (m1, x1) = Inr (m2, x2)" "I x2" "vm_invar MAX_TOPICS m2"
    and old: "\<forall>k. k \<notin> ?h ` set ?ss \<longrightarrow> vm_lookup m2 k = vm_lookup m1 k"
    and new: "\<forall>s \<in> set ?ss. \<exists>e. vm_lookup m2 (?h s) = Some e \<and> gsd e = s"
    using setup_all [OF 1(2,3) dist none] by blast
  have sound: "gsd e \<in> set services \<and> ?h (gsd e) = k" if "vm_lookup m2 k = Some e" for k e
    using that kept old new by (cases "k \<in> ?h ` set ?ss") (auto simp: ss)
  have "s \<in> endpoint_services gsd m2" if s: "s \<in> set services" for s
  proof (cases "vm_lookup m (?h s)")
    case None
    then show ?thesis using s new unfolding ss by (force simp: ran_def)
  next
    case (Some e)
    then have e: "gsd e = s" using key [OF Some] s inj by (auto simp: inj_on_def ran_def)
    have "?h s \<notin> ?h ` set ?ds" using s inj unfolding ds by (auto simp: inj_on_def)
    moreover have "?h s \<notin> ?h ` set ?ss" using Some unfolding ss by auto
    ultimately have "vm_lookup m2 (?h s) = Some e" using old Some by (simp add: look1)
    then show ?thesis using e by (auto simp: ran_def)
  qed
  then have "endpoint_services gsd m2 = set services" using sound by (auto simp: ran_def)
  moreover have "ep_inv E gsd m2" using 2(3) sound by (simp add: ep_inv_def)
  ultimately show ?thesis using 1 2 by (simp add: updateChannelsInternal_def)
qed

end

section \<open>What every channel function keeps, an update keeps\<close>

lemma foldR_keeps:
  assumes "\<And>s st. Q st \<Longrightarrow> \<exists>st'. f s st = Inr st' \<and> Q st'" "Q st"
  shows "\<exists>st'. foldR f ss st = Inr st' \<and> Q st'"
  using assms(2)
proof (induction ss arbitrary: st)
  case Nil
  then show ?case by simp
next
  case (Cons s ss)
  then obtain st1 where "f s st = Inr st1" "Q st1" using assms(1) by blast
  then show ?case using Cons.IH by simp
qed

lemma updateChannels_keeps:
  assumes "\<And>s st. Q st \<Longrightarrow> \<exists>st'. setupFn s st = Inr st' \<and> Q st'"
    and "\<And>s st. Q st \<Longrightarrow> \<exists>st'. deleteFn s st = Inr st' \<and> Q st'" "Q (m, x)"
  shows "\<exists>st'. updateChannelsInternal E gsd services setupFn deleteFn (m, x) = Inr st' \<and> Q st'"
proof -
  obtain st1 where 1: "foldR deleteFn (servicesToDelete gsd services m) (m, x) = Inr st1" "Q st1"
    using foldR_keeps [where f = deleteFn and Q = Q, OF assms(2,3)] by blast
  obtain st2 where "foldR setupFn (servicesToSetup E services m) st1 = Inr st2" "Q st2"
    using foldR_keeps [where f = setupFn and Q = Q, OF assms(1) 1(2)] by blast
  then show ?thesis using 1 by (simp add: updateChannelsInternal_def)
qed

end
