(* ===== verification/Serialization.thy ===== *)
theory Serialization
  imports Types HelperFunctions
begin

text \<open>
  \<^verbatim>\<open>source/p3com/generic/serialization.cpp\<close>: the byte images of the discovery message
  \<^verbatim>\<open>PubSubInfo_t\<close> and of the datagram header \<^verbatim>\<open>IoxChunkDatagramHeader_t\<close>. Serialising
  returns the bytes written at the output pointer (their number is the return value of the
  C++ function); deserialising reads the memory at the input pointer, of which \<open>sz\<close> bytes
  belong to the message, and returns the value and the offset reached. Integers are
  little-endian, as on every platform the source supports.
\<close>

section \<open>Sizes\<close>

definition maxPubSubInfoSerializationSize :: "iox_env \<Rightarrow> nat" where
  "maxPubSubInfoSerializationSize E =
     8 + MAX_TOPICS * (3 * (idCapacity E + 1)) + 8 + 4 + 4 + 1"

definition maxIoxChunkDatagramHeaderSerializationSize :: "iox_env \<Rightarrow> nat" where
  "maxIoxChunkDatagramHeaderSerializationSize E =
     classHashCount E * 4 + 4 + 4 + 4 + 4 + 4 + 4 + 4"

section \<open>Writing\<close>

abbreviation pushU32 :: "u32 \<Rightarrow> byte list" where
  "pushU32 w \<equiv> nat_bytes 4 (unat w)"

abbreviation pushU64 :: "u64 \<Rightarrow> byte list" where
  "pushU64 w \<equiv> nat_bytes 8 (unat w)"

definition pushBool :: "bool \<Rightarrow> byte list" where
  "pushBool b = [if b then 1 else 0]"

definition pushString :: "id_string \<Rightarrow> byte list" where
  "pushString str = str @ [0]"

definition pushService :: "service_description \<Rightarrow> byte list" where
  "pushService s = pushString (serviceID s) @ pushString (instanceID s) @ pushString (eventID s)"

definition serializeInfo :: "iox_env \<Rightarrow> pub_sub_info \<Rightarrow> byte list result" where
  "serializeInfo E info =
     (let out = pushU64 (word_of_nat (length (userSubscribers info)))
                @ concat (map pushService (userSubscribers info))
                @ pushU64 (gatewayBitset info) @ pushU32 (gatewayHash info)
                @ pushU32 (infoHash info) @ pushBool (isTermination info)
      in bindR (expects (length out \<le> maxPubSubInfoSerializationSize E)) (\<lambda>_. Inr out))"

definition serializeHeader :: "iox_env \<Rightarrow> datagram_header \<Rightarrow> byte list result" where
  "serializeHeader E h =
     (let out = concat (map (\<lambda>i. pushU32 (serviceHash h ! i)) [0..<classHashCount E])
                @ pushU32 (messageHash h) @ pushU32 (submessageCount h)
                @ pushU32 (submessageOffset h) @ pushU32 (submessageSize h)
                @ pushU32 (userPayloadSize h) @ pushU32 (userPayloadAlignment h)
                @ pushU32 (userHeaderSize h)
      in bindR (expects (length out \<le> maxIoxChunkDatagramHeaderSerializationSize E)) (\<lambda>_. Inr out))"

section \<open>Reading\<close>

type_synonym 'a reader = "nat \<Rightarrow> ('a \<times> nat) result"

definition loadBytes :: "byte list \<Rightarrow> nat \<Rightarrow> nat \<Rightarrow> byte list reader" where
  "loadBytes ptr sz n offset =
     bindR (expects (offset + n \<le> sz)) (\<lambda>_.
     bindR (read_bytes (drop offset ptr) n) (\<lambda>bs. Inr (bs, offset + n)))"

definition loadU32 :: "byte list \<Rightarrow> nat \<Rightarrow> u32 reader" where
  "loadU32 ptr sz offset =
     bindR (loadBytes ptr sz 4 offset) (\<lambda>(bs, o1). Inr (word_of_nat (bytes_nat bs), o1))"

definition loadU64 :: "byte list \<Rightarrow> nat \<Rightarrow> u64 reader" where
  "loadU64 ptr sz offset =
     bindR (loadBytes ptr sz 8 offset) (\<lambda>(bs, o1). Inr (word_of_nat (bytes_nat bs), o1))"

definition loadBool :: "byte list \<Rightarrow> nat \<Rightarrow> bool reader" where
  "loadBool ptr sz offset =
     bindR (loadBytes ptr sz 1 offset) (\<lambda>(bs, o1). Inr (bytes_nat bs \<noteq> 0, o1))"

definition loadString :: "iox_env \<Rightarrow> byte list \<Rightarrow> nat \<Rightarrow> id_string reader" where
  "loadString E ptr sz offset =
     (case unsafeAssign E (drop offset ptr) of
        None \<Rightarrow> Inl Expects_Violated
      | Some str \<Rightarrow>
          bindR (expects (offset + length str + 1 \<le> sz)) (\<lambda>_. Inr (str, offset + length str + 1)))"

definition loadService :: "iox_env \<Rightarrow> byte list \<Rightarrow> nat \<Rightarrow> service_description reader" where
  "loadService E ptr sz offset =
     bindR (loadString E ptr sz offset) (\<lambda>(serviceStr, o1).
     bindR (loadString E ptr sz o1) (\<lambda>(instanceStr, o2).
     bindR (loadString E ptr sz o2) (\<lambda>(eventStr, o3).
     Inr (\<lparr>serviceID = serviceStr, instanceID = instanceStr, eventID = eventStr\<rparr>, o3))))"

fun loadMany :: "'a reader \<Rightarrow> nat \<Rightarrow> 'a list reader" where
  "loadMany ld 0 offset = Inr ([], offset)"
| "loadMany ld (Suc n) offset =
     bindR (ld offset) (\<lambda>(x, o1). bindR (loadMany ld n o1) (\<lambda>(xs, o2). Inr (x # xs, o2)))"

definition deserializeInfo :: "iox_env \<Rightarrow> byte list \<Rightarrow> nat \<Rightarrow> (pub_sub_info \<times> nat) result" where
  "deserializeInfo E ptr sz =
     bindR (loadU64 ptr sz 0) (\<lambda>(userSubscribersSize, o1).
     bindR (expects (unat userSubscribersSize \<le> MAX_TOPICS)) (\<lambda>_.
     bindR (loadMany (loadService E ptr sz) (unat userSubscribersSize) o1) (\<lambda>(services, o2).
     bindR (loadU64 ptr sz o2) (\<lambda>(bits, o3).
     bindR (loadU32 ptr sz o3) (\<lambda>(gwHash, o4).
     bindR (loadU32 ptr sz o4) (\<lambda>(inHash, o5).
     bindR (loadBool ptr sz o5) (\<lambda>(term, o6).
     bindR (expects (o6 \<le> maxPubSubInfoSerializationSize E)) (\<lambda>_.
     Inr (\<lparr>userSubscribers = services, gatewayBitset = bits, gatewayHash = gwHash,
           infoHash = inHash, isTermination = term\<rparr>, o6)))))))))"

definition deserializeHeader :: "iox_env \<Rightarrow> byte list \<Rightarrow> nat \<Rightarrow> (datagram_header \<times> nat) result" where
  "deserializeHeader E ptr sz =
     bindR (loadMany (loadU32 ptr sz) (classHashCount E) 0) (\<lambda>(sHash, o1).
     bindR (loadU32 ptr sz o1) (\<lambda>(mHash, o2).
     bindR (loadU32 ptr sz o2) (\<lambda>(count, o3).
     bindR (loadU32 ptr sz o3) (\<lambda>(offset, o4).
     bindR (loadU32 ptr sz o4) (\<lambda>(subSize, o5).
     bindR (loadU32 ptr sz o5) (\<lambda>(paySize, o6).
     bindR (loadU32 ptr sz o6) (\<lambda>(payAlign, o7).
     bindR (loadU32 ptr sz o7) (\<lambda>(hdrSize, o8).
     bindR (expects (o8 \<le> maxIoxChunkDatagramHeaderSerializationSize E)) (\<lambda>_.
     Inr (\<lparr>serviceHash = sHash, messageHash = mHash, submessageCount = count,
           submessageOffset = offset, submessageSize = subSize, userPayloadSize = paySize,
           userPayloadAlignment = payAlign, userHeaderSize = hdrSize\<rparr>, o8))))))))))"

section \<open>Well-formed values\<close>

text \<open>What the C++ types guarantee: bounded strings without null characters, bounded vectors.\<close>

definition wf_id :: "iox_env \<Rightarrow> id_string \<Rightarrow> bool" where
  "wf_id E s \<longleftrightarrow> 0 \<notin> set s \<and> length s \<le> idCapacity E"

definition wf_service :: "iox_env \<Rightarrow> service_description \<Rightarrow> bool" where
  "wf_service E s \<longleftrightarrow> wf_id E (serviceID s) \<and> wf_id E (instanceID s) \<and> wf_id E (eventID s)"

definition wf_info :: "iox_env \<Rightarrow> pub_sub_info \<Rightarrow> bool" where
  "wf_info E info \<longleftrightarrow>
     length (userSubscribers info) \<le> MAX_TOPICS \<and> (\<forall>s \<in> set (userSubscribers info). wf_service E s)"

definition wf_header :: "iox_env \<Rightarrow> datagram_header \<Rightarrow> bool" where
  "wf_header E h \<longleftrightarrow> length (serviceHash h) = classHashCount E"

section \<open>Reading back what was written\<close>

text \<open>\<open>stored ptr off bs\<close>: the bytes \<open>bs\<close> lie at offset \<open>off\<close> of the memory.\<close>

definition stored :: "byte list \<Rightarrow> nat \<Rightarrow> byte list \<Rightarrow> bool" where
  "stored ptr off bs \<longleftrightarrow> (\<exists>rest. drop off ptr = bs @ rest)"

lemma stored_append: "stored ptr off (bs @ cs) \<longleftrightarrow> stored ptr off bs \<and> stored ptr (off + length bs) cs"
proof
  assume "stored ptr off (bs @ cs)"
  then obtain rest where r: "drop off ptr = bs @ cs @ rest" by (auto simp: stored_def)
  then have "drop (off + length bs) ptr = cs @ rest"
    by (metis add.commute append_eq_conv_conj drop_drop)
  with r show "stored ptr off bs \<and> stored ptr (off + length bs) cs"
    by (auto simp: stored_def)
next
  assume "stored ptr off bs \<and> stored ptr (off + length bs) cs"
  then obtain r1 r2 where "drop off ptr = bs @ r1" "drop (off + length bs) ptr = cs @ r2"
    by (auto simp: stored_def)
  then show "stored ptr off (bs @ cs)"
    by (metis add.commute append.assoc append_eq_conv_conj drop_drop stored_def)
qed

lemma stored_self: "stored (bs @ rest) 0 bs"
  by (auto simp: stored_def)

lemma loadBytes_stored:
  "stored ptr off bs \<Longrightarrow> off + length bs \<le> sz \<Longrightarrow> n = length bs \<Longrightarrow>
     loadBytes ptr sz n off = Inr (bs, off + length bs)"
  by (auto simp: stored_def loadBytes_def read_bytes_def simp del: length_drop)

lemma loadU32_stored:
  "stored ptr off (pushU32 w) \<Longrightarrow> off + 4 \<le> sz \<Longrightarrow> loadU32 ptr sz off = Inr (w, off + 4)"
  by (simp add: loadU32_def loadBytes_stored)

lemma loadU64_stored:
  "stored ptr off (pushU64 w) \<Longrightarrow> off + 8 \<le> sz \<Longrightarrow> loadU64 ptr sz off = Inr (w, off + 8)"
  by (simp add: loadU64_def loadBytes_stored)

lemma loadBool_stored:
  "stored ptr off (pushBool b) \<Longrightarrow> off + 1 \<le> sz \<Longrightarrow> loadBool ptr sz off = Inr (b, off + 1)"
  by (simp add: loadBool_def loadBytes_stored pushBool_def)

lemma loadString_stored:
  assumes "assigns_c_strings E" "wf_id E s"
    and "stored ptr off (pushString s)" "off + length (pushString s) \<le> sz"
  shows "loadString E ptr sz off = Inr (s, off + length (pushString s))"
proof -
  from assms(3) obtain rest where "drop off ptr = s @ 0 # rest"
    by (auto simp: stored_def pushString_def)
  then have "unsafeAssign E (drop off ptr) = Some s"
    using assms(1,2) by (simp add: assigns_c_strings_def wf_id_def)
  then show ?thesis
    using assms(4) by (simp add: loadString_def pushString_def)
qed

lemma loadService_stored:
  assumes "assigns_c_strings E" "wf_service E s"
    and "stored ptr off (pushService s)" "off + length (pushService s) \<le> sz"
  shows "loadService E ptr sz off = Inr (s, off + length (pushService s))"
proof -
  note str = loadString_stored [OF assms(1)]
  have "loadString E ptr sz off = Inr (serviceID s, off + length (pushString (serviceID s)))"
    using assms by (intro str) (auto simp: wf_service_def pushService_def stored_append)
  moreover define o1 where "o1 = off + length (pushString (serviceID s))"
  moreover have "loadString E ptr sz o1 = Inr (instanceID s, o1 + length (pushString (instanceID s)))"
    using assms by (intro str) (auto simp: wf_service_def pushService_def stored_append o1_def)
  moreover define o2 where "o2 = o1 + length (pushString (instanceID s))"
  moreover have "loadString E ptr sz o2 = Inr (eventID s, o2 + length (pushString (eventID s)))"
    using assms
    by (intro str) (auto simp: wf_service_def pushService_def stored_append o1_def o2_def add.assoc)
  ultimately show ?thesis
    by (simp add: loadService_def pushService_def add.assoc)
qed

lemma loadMany_stored:
  assumes "\<And>x off. x \<in> set xs \<Longrightarrow> stored ptr off (push x) \<Longrightarrow> off + length (push x) \<le> sz \<Longrightarrow>
      ld off = Inr (x, off + length (push x))"
    and "stored ptr off (concat (map push xs))" "off + length (concat (map push xs)) \<le> sz"
  shows "loadMany ld (length xs) off = Inr (xs, off + length (concat (map push xs)))"
  using assms
proof (induction xs arbitrary: off)
  case Nil
  then show ?case by simp
next
  case (Cons x xs)
  have "ld off = Inr (x, off + length (push x))"
    using Cons.prems by (simp add: stored_append)
  moreover have "loadMany ld (length xs) (off + length (push x))
      = Inr (xs, off + length (push x) + length (concat (map push xs)))"
    using Cons.prems by (intro Cons.IH) (auto simp: stored_append)
  ultimately show ?case by simp
qed

lemma length_pushService:
  "wf_service E s \<Longrightarrow> length (pushService s) \<le> 3 * (idCapacity E + 1)"
  by (simp add: wf_service_def wf_id_def pushService_def pushString_def)

lemma length_services:
  "\<forall>s \<in> set ss. wf_service E s \<Longrightarrow>
     length (concat (map pushService ss)) \<le> length ss * (3 * (idCapacity E + 1))"
proof (induction ss)
  case Nil
  then show ?case by simp
next
  case (Cons s ss)
  then show ?case using length_pushService [of E s] by simp
qed

lemma length_header_hash [simp]:
  "length (concat (map (\<lambda>i. pushU32 (f i)) [0..<n])) = n * 4"
  by (induction n) simp_all

lemma serializeHeader_ok:
  "serializeHeader E h = Inr (concat (map (\<lambda>i. pushU32 (serviceHash h ! i)) [0..<classHashCount E])
     @ pushU32 (messageHash h) @ pushU32 (submessageCount h) @ pushU32 (submessageOffset h)
     @ pushU32 (submessageSize h) @ pushU32 (userPayloadSize h) @ pushU32 (userPayloadAlignment h)
     @ pushU32 (userHeaderSize h))"
  by (simp add: serializeHeader_def maxIoxChunkDatagramHeaderSerializationSize_def)

lemma serializeHeader_length:
  "serializeHeader E h = Inr bs \<Longrightarrow> length bs = maxIoxChunkDatagramHeaderSerializationSize E"
  by (auto simp: serializeHeader_ok maxIoxChunkDatagramHeaderSerializationSize_def)

lemma deserialize_serialize_header:
  assumes wf: "wf_header E h" and ser: "serializeHeader E h = Inr bs" and sz: "length bs \<le> sz"
  shows "deserializeHeader E (bs @ rest) sz = Inr (h, length bs)"
proof -
  let ?n = "classHashCount E" and ?ptr = "bs @ rest"
  have hashes: "map (\<lambda>i. pushU32 (serviceHash h ! i)) [0..<?n] = map pushU32 (serviceHash h)"
    using wf by (simp add: wf_header_def list_eq_iff_nth_eq)
  have st: "stored ?ptr 0 (concat (map pushU32 (serviceHash h))
     @ pushU32 (messageHash h) @ pushU32 (submessageCount h) @ pushU32 (submessageOffset h)
     @ pushU32 (submessageSize h) @ pushU32 (userPayloadSize h) @ pushU32 (userPayloadAlignment h)
     @ pushU32 (userHeaderSize h))"
    using ser stored_self [of bs rest] by (simp add: serializeHeader_ok hashes)
  have len: "length bs = ?n * 4 + 28"
    using serializeHeader_length [OF ser]
    by (simp add: maxIoxChunkDatagramHeaderSerializationSize_def)
  have hlen: "length (concat (map pushU32 (serviceHash h))) = ?n * 4"
    using length_header_hash [of "\<lambda>i. serviceHash h ! i" ?n] by (simp add: hashes)
  have many: "loadMany (loadU32 ?ptr sz) ?n 0 = Inr (serviceHash h, ?n * 4)"
    using loadMany_stored [where push = pushU32 and ld = "loadU32 ?ptr sz" and xs = "serviceHash h"
        and off = 0 and ptr = ?ptr and sz = sz] st wf sz len hlen
    by (auto simp: stored_append wf_header_def loadU32_stored)
  have fields: "loadU32 ?ptr sz (?n * 4) = Inr (messageHash h, ?n * 4 + 4)"
    "loadU32 ?ptr sz (?n * 4 + 4) = Inr (submessageCount h, ?n * 4 + 8)"
    "loadU32 ?ptr sz (?n * 4 + 8) = Inr (submessageOffset h, ?n * 4 + 12)"
    "loadU32 ?ptr sz (?n * 4 + 12) = Inr (submessageSize h, ?n * 4 + 16)"
    "loadU32 ?ptr sz (?n * 4 + 16) = Inr (userPayloadSize h, ?n * 4 + 20)"
    "loadU32 ?ptr sz (?n * 4 + 20) = Inr (userPayloadAlignment h, ?n * 4 + 24)"
    "loadU32 ?ptr sz (?n * 4 + 24) = Inr (userHeaderSize h, ?n * 4 + 28)"
    using st sz len by (auto simp: stored_append hlen ac_simps intro!: loadU32_stored [THEN trans])
  show ?thesis
    by (simp add: deserializeHeader_def many fields len
        maxIoxChunkDatagramHeaderSerializationSize_def)
qed

lemma serializeInfo_ok:
  assumes "wf_info E info"
  shows "serializeInfo E info = Inr (pushU64 (word_of_nat (length (userSubscribers info)))
     @ concat (map pushService (userSubscribers info)) @ pushU64 (gatewayBitset info)
     @ pushU32 (gatewayHash info) @ pushU32 (infoHash info) @ pushBool (isTermination info))"
proof -
  let ?ss = "userSubscribers info"
  have "length (concat (map pushService ?ss)) \<le> length ?ss * (3 * (idCapacity E + 1))"
    using assms by (intro length_services) (simp add: wf_info_def)
  also have "\<dots> \<le> MAX_TOPICS * (3 * (idCapacity E + 1))"
    using assms by (intro mult_le_mono1) (simp add: wf_info_def)
  finally show ?thesis
    by (simp add: serializeInfo_def maxPubSubInfoSerializationSize_def pushBool_def)
qed

lemma deserialize_serialize_info:
  assumes env: "assigns_c_strings E" and wf: "wf_info E info"
    and ser: "serializeInfo E info = Inr bs" and sz: "length bs \<le> sz"
  shows "deserializeInfo E (bs @ rest) sz = Inr (info, length bs)"
proof -
  let ?ptr = "bs @ rest" and ?ss = "userSubscribers info"
  define n where "n = length (concat (map pushService ?ss))"
  have st: "stored ?ptr 0 (pushU64 (word_of_nat (length ?ss)) @ concat (map pushService ?ss)
     @ pushU64 (gatewayBitset info) @ pushU32 (gatewayHash info) @ pushU32 (infoHash info)
     @ pushBool (isTermination info))"
    using ser stored_self [of bs rest] by (simp add: serializeInfo_ok [OF wf])
  have len: "length bs = n + 25" and max: "length bs \<le> maxPubSubInfoSerializationSize E"
    using ser by (auto simp: serializeInfo_ok [OF wf] n_def pushBool_def serializeInfo_def
        result_simps)
  have small: "length ?ss \<le> 32"
    using wf by (simp add: wf_info_def MAX_TOPICS_def)
  have count: "unat (word_of_nat (length ?ss) :: u64) = length ?ss"
    using small by (simp add: unat_of_nat)
  have services: "stored ?ptr 8 (concat (map pushService ?ss))"
    using st by (simp add: stored_append)
  have fields: "loadU64 ?ptr sz 0 = Inr (word_of_nat (length ?ss), 8)"
    "loadU64 ?ptr sz (8 + n) = Inr (gatewayBitset info, n + 16)"
    "loadU32 ?ptr sz (n + 16) = Inr (gatewayHash info, n + 20)"
    "loadU32 ?ptr sz (n + 20) = Inr (infoHash info, n + 24)"
    "loadBool ?ptr sz (n + 24) = Inr (isTermination info, n + 25)"
    using st sz len
    by (auto simp: stored_append n_def [symmetric] ac_simps
        intro!: loadU32_stored [THEN trans] loadU64_stored [THEN trans] loadBool_stored [THEN trans])
  have many: "loadMany (loadService E ?ptr sz) (length ?ss) 8 = Inr (?ss, 8 + n)"
    unfolding n_def using services sz len wf
    by (intro loadMany_stored loadService_stored env) (auto simp: n_def wf_info_def)
  show ?thesis
    using len max small by (simp add: deserializeInfo_def fields many count MAX_TOPICS_def)
qed

section \<open>Reading arbitrary bytes\<close>

text \<open>
  On a message whose memory is really there, a primitive is read exactly when it lies inside
  the message; otherwise the contract check aborts before anything is read.
\<close>

lemma loadU32_eq:
  "sz \<le> length ptr \<Longrightarrow> loadU32 ptr sz offset =
     (if offset + 4 \<le> sz then Inr (word_of_nat (bytes_nat (take 4 (drop offset ptr))), offset + 4)
      else Inl Expects_Violated)"
  by (auto simp: loadU32_def loadBytes_def read_bytes_def)

lemma loadMany_U32_total:
  assumes "sz \<le> length ptr"
  shows "if offset + 4 * n \<le> sz
    then \<exists>xs. length xs = n \<and> loadMany (loadU32 ptr sz) n offset = Inr (xs, offset + 4 * n)
    else loadMany (loadU32 ptr sz) n offset = Inl Expects_Violated \<or> n = 0"
proof (induction n arbitrary: offset)
  case 0
  then show ?case by simp
next
  case (Suc n)
  show ?case
    using Suc.IH [of "offset + 4"]
    by (cases n) (auto simp: loadU32_eq [OF assms] algebra_simps split: if_splits)
qed

lemma deserializeHeader_total:
  assumes "sz \<le> length ptr"
  shows "if maxIoxChunkDatagramHeaderSerializationSize E \<le> sz
    then \<exists>h. wf_header E h \<and>
      deserializeHeader E ptr sz = Inr (h, maxIoxChunkDatagramHeaderSerializationSize E)
    else deserializeHeader E ptr sz = Inl Expects_Violated"
proof -
  let ?k = "4 * classHashCount E"
  note many = loadMany_U32_total [OF assms, of 0 "classHashCount E"]
  have max: "maxIoxChunkDatagramHeaderSerializationSize E = ?k + 28"
    by (simp add: maxIoxChunkDatagramHeaderSerializationSize_def)
  show ?thesis
  proof (cases "?k \<le> sz")
    case True
    with many obtain xs where xs: "length xs = classHashCount E"
      "loadMany (loadU32 ptr sz) (classHashCount E) 0 = Inr (xs, ?k)" by auto
    then show ?thesis
      by (auto simp: deserializeHeader_def max loadU32_eq [OF assms] wf_header_def)
  next
    case False
    with many show ?thesis by (auto simp: deserializeHeader_def max)
  qed
qed

section \<open>Properties\<close>

text \<open>
  C21. Datagram headers survive the wire: what \<^verbatim>\<open>serialize\<close> writes for a header, followed by any
  data, is read back by \<^verbatim>\<open>deserialize\<close> as the same header, and the reader stops where the
  data begin. The size on the wire does not depend on the header.
\<close>

theorem header_round_trip:
  assumes "wf_header E h" "maxIoxChunkDatagramHeaderSerializationSize E \<le> sz"
  shows "\<exists>bs. serializeHeader E h = Inr bs \<and> length bs = maxIoxChunkDatagramHeaderSerializationSize E \<and>
    deserializeHeader E (bs @ rest) sz = Inr (h, maxIoxChunkDatagramHeaderSerializationSize E)"
proof -
  obtain bs where bs: "serializeHeader E h = Inr bs" by (simp add: serializeHeader_ok)
  then show ?thesis
    using deserialize_serialize_header [OF assms(1) bs, of sz rest] serializeHeader_length [OF bs] assms(2) by simp
qed

definition sample_header :: datagram_header where
  "sample_header = \<lparr>serviceHash = [1, 2, 3, 4], messageHash = 77, submessageCount = 2, submessageOffset = 0,
     submessageSize = 3, userPayloadSize = 5, userPayloadAlignment = 8, userHeaderSize = 0\<rparr>"

theorem header_round_trip_witness:
  "\<exists>bs. serializeHeader sample_env sample_header = Inr bs \<and> length bs = 44 \<and>
    deserializeHeader sample_env (bs @ [9, 9, 9]) 47 = Inr (sample_header, 44)"
  using header_round_trip [of sample_env sample_header 47 "[9, 9, 9]"]
  by (simp add: wf_header_def sample_env_def sample_header_def maxIoxChunkDatagramHeaderSerializationSize_def)


definition sample_info :: pub_sub_info where
  "sample_info = \<lparr>userSubscribers = [\<lparr>serviceID = [65], instanceID = [66], eventID = [67, 68]\<rparr>], gatewayBitset = 4,
     gatewayHash = 11, infoHash = 12, isTermination = False\<rparr>"


text \<open>
  The header reader is total: on any bytes at least as long as a header it returns a header
  and never reads outside the buffer; on anything shorter it ends in a violated \<^verbatim>\<open>Expects\<close>,
  so a short datagram from the network aborts the process and does not corrupt memory.
\<close>

theorem header_reader_total:
  assumes "sz \<le> length bytes"
  shows "if maxIoxChunkDatagramHeaderSerializationSize E \<le> sz
    then \<exists>h. wf_header E h \<and> deserializeHeader E bytes sz = Inr (h, maxIoxChunkDatagramHeaderSerializationSize E)
    else deserializeHeader E bytes sz = Inl Expects_Violated"
  by (rule deserializeHeader_total [OF assms])

theorem header_reader_total_witness:
  "deserializeHeader sample_env [1, 2, 3] 3 = Inl Expects_Violated"
  using header_reader_total [of 3 "[1, 2, 3]" sample_env]
  by (simp add: sample_env_def maxIoxChunkDatagramHeaderSerializationSize_def)

end
