(* ===== verification/PendingMessages.thy ===== *)
theory PendingMessages
  imports VectorMap
begin

text \<open>
  \<^verbatim>\<open>PendingMessageManager\<close> (\<^verbatim>\<open>source/p3com/generic/pending_messages.cpp\<close>): chunks that a
  transport layer is still sending and that go back to their subscriber when the layer
  reports completion. Chunks, subscribers and mutexes are identified by their addresses. A
  call to \<^verbatim>\<open>subscriber->release(userPayload)\<close> is an output of the operation that makes it.
\<close>

section \<open>Operations\<close>

type_synonym chunk_ptr = nat
type_synonym subscriber_ptr = nat
type_synonym mutex_ptr = nat

record pending_message =
  counter :: u32
  pm_mutex :: mutex_ptr
  pm_subscriber :: subscriber_ptr

type_synonym pending_messages = "(chunk_ptr, pending_message) vector_map"

definition MAX_PENDING_MESSAGE_COUNT :: nat where
  "MAX_PENDING_MESSAGE_COUNT = 512"

definition pm_release :: "pending_messages \<Rightarrow> chunk_ptr \<Rightarrow> pending_messages \<times> (subscriber_ptr \<times> chunk_ptr) option" where
  "pm_release m userPayload =
     (let msgIt = vm_find m userPayload
      in if msgIt = vm_end m then (m, None)
         else let pendingMsg = (m_elems m ! msgIt)\<lparr>counter := counter (m_elems m ! msgIt) - 1\<rparr>;
                  m1 = vm_assign m msgIt pendingMsg
              in if counter pendingMsg = 0
                 then (vm_erase m1 msgIt, Some (pm_subscriber pendingMsg, userPayload))
                 else (m1, None))"

definition anyPending :: "pending_messages \<Rightarrow> subscriber_ptr \<Rightarrow> bool" where
  "anyPending m subscriber = list_ex (\<lambda>pendingMsg. pm_subscriber pendingMsg = subscriber) (m_elems m)"

definition pm_push ::
  "pending_messages \<Rightarrow> chunk_ptr \<Rightarrow> mutex_ptr \<Rightarrow> subscriber_ptr \<Rightarrow> pending_messages \<times> bool" where
  "pm_push m userPayload mutex subscriber =
     (let msgIt = vm_find m userPayload
      in if msgIt = vm_end m
         then vm_emplace MAX_PENDING_MESSAGE_COUNT m userPayload
                \<lparr>counter = 1, pm_mutex = mutex, pm_subscriber = subscriber\<rparr>
         else (m, False))"

section \<open>Invariant and behaviour\<close>

text \<open>Every pending message is counted once.\<close>

definition pm_invar :: "pending_messages \<Rightarrow> bool" where
  "pm_invar m \<longleftrightarrow> vm_invar MAX_PENDING_MESSAGE_COUNT m \<and> (\<forall>msg \<in> set (m_elems m). counter msg = 1)"

text \<open>The abstract state: which subscriber each pending chunk goes back to.\<close>

definition pm_abs :: "pending_messages \<Rightarrow> chunk_ptr \<Rightarrow> subscriber_ptr option" where
  "pm_abs m p = map_option pm_subscriber (vm_lookup m p)"

lemma pm_invar_wf: "pm_invar m \<Longrightarrow> vm_wf MAX_PENDING_MESSAGE_COUNT m"
  by (simp add: pm_invar_def vm_invar_def)

lemma pm_invar_empty: "pm_invar vm_empty"
  using vm.invar_empty by (simp add: pm_invar_def vm_empty_def)

lemma pm_push_eq:
  "pm_invar m \<Longrightarrow> pm_push m p mx s =
     (if vm_lookup m p = None
      then vm_emplace MAX_PENDING_MESSAGE_COUNT m p \<lparr>counter = 1, pm_mutex = mx, pm_subscriber = s\<rparr>
      else (m, False))"
  using pm_invar_wf [of m]
  by (cases rule: vm_find_cases [where k = p]) (auto simp: pm_push_def)

lemma pm_release_eq:
  assumes "pm_invar m"
  shows "pm_release m p = (vm_remove m p, map_option (\<lambda>s. (s, p)) (pm_abs m p))"
  using pm_invar_wf [OF assms]
proof (cases rule: vm_find_cases [where k = p])
  case absent
  then have "vm_remove m p = m"
    using pm_invar_wf [OF assms] by (simp add: vm_remove_def vm_erase_def vm_end_def vm_wf_def)
  with absent show ?thesis by (simp add: pm_release_def pm_abs_def)
next
  case present
  then have "counter (m_elems m ! vm_find m p) = 1"
    using assms by (simp add: pm_invar_def vm_end_def)
  with present show ?thesis
    by (simp add: pm_release_def pm_abs_def vm_remove_def vm_erase_assign)
qed

lemma pm_push_invar:
  assumes "pm_invar m"
  shows "pm_invar (fst (pm_push m p mx s))"
proof (cases "vm_lookup m p = None")
  case True
  let ?v = "\<lparr>counter = 1, pm_mutex = mx, pm_subscriber = s\<rparr>"
  have "set (m_elems (fst (vm_emplace MAX_PENDING_MESSAGE_COUNT m p ?v))) \<subseteq> insert ?v (set (m_elems m))"
    using pm_invar_wf [OF assms]
    by (cases "vm_size m < MAX_PENDING_MESSAGE_COUNT") (auto simp: vm_emplace_room vm_emplace_full)
  then show ?thesis
    using assms True vm_emplace_invar [of MAX_PENDING_MESSAGE_COUNT m p ?v]
    by (fastforce simp: pm_push_eq pm_invar_def)
next
  case False
  then show ?thesis using assms by (auto simp: pm_push_eq)
qed

lemma pm_release_invar:
  assumes "pm_invar m"
  shows "pm_invar (fst (pm_release m p))"
proof -
  have "set (m_elems (vm_remove m p)) \<subseteq> set (m_elems m)"
    by (simp add: vm_remove_def vm_erase_def set_erase_at)
  then show ?thesis
    using assms vm_remove_invar [of MAX_PENDING_MESSAGE_COUNT m p]
    by (auto simp: pm_release_eq pm_invar_def)
qed

text \<open>The operations refine update and deletion on the abstract state.\<close>

lemma pm_push_abs:
  assumes "pm_invar m"
  shows "snd (pm_push m p mx s) \<longleftrightarrow> pm_abs m p = None \<and> vm_size m < MAX_PENDING_MESSAGE_COUNT"
    and "pm_abs (fst (pm_push m p mx s)) = (if snd (pm_push m p mx s) then (pm_abs m)(p \<mapsto> s) else pm_abs m)"
proof -
  let ?v = "\<lparr>counter = 1, pm_mutex = mx, pm_subscriber = s\<rparr>"
  have vm: "vm_invar MAX_PENDING_MESSAGE_COUNT m" using assms by (simp add: pm_invar_def)
  note laws = vm.emplace_accepts [OF vm, of p ?v] vm.emplace_rejects [OF vm, of p ?v]
    vm.lookup_emplace [OF vm, of p ?v]
  show "snd (pm_push m p mx s) \<longleftrightarrow> pm_abs m p = None \<and> vm_size m < MAX_PENDING_MESSAGE_COUNT"
    using laws by (auto simp: pm_push_eq [OF assms] pm_abs_def)
  show "pm_abs (fst (pm_push m p mx s)) = (if snd (pm_push m p mx s) then (pm_abs m)(p \<mapsto> s) else pm_abs m)"
    using laws by (auto simp: pm_push_eq [OF assms] pm_abs_def fun_eq_iff)
qed

lemma pm_release_abs:
  assumes "pm_invar m"
  shows "pm_abs (fst (pm_release m p)) = (pm_abs m)(p := None)"
  using assms vm.lookup_remove [of MAX_PENDING_MESSAGE_COUNT m p]
  by (auto simp: pm_release_eq pm_abs_def pm_invar_def fun_eq_iff)

lemma anyPending_iff:
  assumes "pm_invar m"
  shows "anyPending m s \<longleftrightarrow> (\<exists>p. pm_abs m p = Some s)"
proof
  assume "anyPending m s"
  then obtain i where i: "i < length (m_elems m)" "pm_subscriber (m_elems m ! i) = s"
    by (auto simp: anyPending_def list_ex_iff in_set_conv_nth)
  have len: "length (m_keys m) = length (m_elems m)" and dist: "distinct (m_keys m)"
    using assms by (auto simp: pm_invar_def vm_invar_def vm_wf_def)
  have "map_of (vm_alist m) (m_keys m ! i) = Some (m_elems m ! i)"
    using i(1) len dist by (intro map_of_is_SomeI) (auto simp: set_zip)
  then have "pm_abs m (m_keys m ! i) = Some s"
    using i(2) vm_lookup_map_of [OF pm_invar_wf [OF assms]] by (simp add: pm_abs_def)
  then show "\<exists>p. pm_abs m p = Some s" by blast
next
  assume "\<exists>p. pm_abs m p = Some s"
  then obtain p msg where "vm_lookup m p = Some msg" "pm_subscriber msg = s"
    by (auto simp: pm_abs_def)
  then show "anyPending m s"
    using vm_lookup_map_of [OF pm_invar_wf [OF assms], of p]
    by (auto simp: anyPending_def list_ex_iff dest!: map_of_SomeD set_zip_rightD)
qed

section \<open>Histories of calls\<close>

text \<open>
  The gateway threads push, the transport layers call back. In any sequence of calls, the
  manager counts as many hand-backs of a chunk as there were successful pushes of it, less
  one while it is still pending.
\<close>

datatype pm_call = PM_push chunk_ptr mutex_ptr subscriber_ptr | PM_release chunk_ptr

fun pm_run :: "pending_messages \<Rightarrow> pm_call list
    \<Rightarrow> pending_messages \<times> chunk_ptr list \<times> (subscriber_ptr \<times> chunk_ptr) list" where
  "pm_run m [] = (m, [], [])"
| "pm_run m (PM_push p mx s # cs) =
     (case pm_push m p mx s of (m1, ok) \<Rightarrow>
        (case pm_run m1 cs of (m', pushed, released) \<Rightarrow> (m', if ok then p # pushed else pushed, released)))"
| "pm_run m (PM_release p # cs) =
     (case pm_release m p of (m1, r) \<Rightarrow>
        (case pm_run m1 cs of (m', pushed, released) \<Rightarrow>
           (m', pushed, case r of None \<Rightarrow> released | Some x \<Rightarrow> x # released)))"

lemma pm_run_conservation:
  assumes "pm_invar m" "pm_run m cs = (m', pushed, released)"
  shows "pm_invar m' \<and>
    count_list (map snd released) p + (if pm_abs m' p = None then 0 else 1)
      = count_list pushed p + (if pm_abs m p = None then 0 else 1)"
  using assms
proof (induction m cs arbitrary: m' pushed released rule: pm_run.induct)
  case (1 m)
  then show ?case by simp
next
  case (2 m q mx s cs)
  obtain m1 ok where push: "pm_push m q mx s = (m1, ok)" by fastforce
  obtain pushed1 where run: "pm_run m1 cs = (m', pushed1, released)"
    and pushed: "pushed = (if ok then q # pushed1 else pushed1)"
    using "2.prems"(2) push by (auto split: prod.splits)
  have "pm_invar m1" using pm_push_invar [OF "2.prems"(1), of q mx s] push by simp
  from "2.IH" [OF push [symmetric] this run] show ?case
    using pm_push_abs [OF "2.prems"(1), of q mx s] push pushed by (auto split: if_splits)
next
  case (3 m q cs)
  obtain m1 r where rel: "pm_release m q = (m1, r)" by fastforce
  obtain released1 where run: "pm_run m1 cs = (m', pushed, released1)"
    and released: "released = (case r of None \<Rightarrow> released1 | Some x \<Rightarrow> x # released1)"
    using "3.prems"(2) rel by (auto split: prod.splits)
  have inv: "pm_invar m1" using pm_release_invar [OF "3.prems"(1), of q] rel by simp
  have r: "r = map_option (\<lambda>s. (s, q)) (pm_abs m q)" and abs: "pm_abs m1 = (pm_abs m)(q := None)"
    using pm_release_eq [OF "3.prems"(1), of q] pm_release_abs [OF "3.prems"(1), of q] rel by auto
  from "3.IH" [OF rel [symmetric] inv run] show ?case
    using r abs released by (cases "pm_abs m q") (auto split: if_splits)
qed

section \<open>Properties\<close>

text \<open>
  C25. No chunk is lost and none is released twice: over any sequence of calls to \<^verbatim>\<open>push\<close> and
  \<^verbatim>\<open>release\<close> on an empty manager, every chunk that was accepted has either been given back to
  its subscriber or is still pending, counted exactly.
\<close>

theorem pending_conservation:
  assumes "pm_run vm_empty calls = (m, pushed, released)"
  shows "count_list pushed p = count_list (map snd released) p + (if pm_abs m p = None then 0 else 1)"
  using pm_run_conservation [OF pm_invar_empty assms, of p] by (simp add: pm_abs_def vm.lookup_empty)

theorem pending_conservation_witness:
  "fst (snd (pm_run vm_empty [PM_push 7 0 3, PM_push 7 0 3, PM_release 7, PM_release 7, PM_push 7 0 3])) = [7, 7] \<and>
   snd (snd (pm_run vm_empty [PM_push 7 0 3, PM_push 7 0 3, PM_release 7, PM_release 7, PM_push 7 0 3])) = [(3, 7)] \<and>
   pm_abs (fst (pm_run vm_empty [PM_push 7 0 3, PM_push 7 0 3, PM_release 7, PM_release 7, PM_push 7 0 3])) 7 \<noteq> None"
proof -
  let ?r = "pm_run vm_empty [PM_push 7 0 3, PM_push 7 0 3, PM_release 7, PM_release 7, PM_push 7 0 3]"
  have pushed: "fst (snd ?r) = [7, 7]" and released: "snd (snd ?r) = [(3, 7)]" by code_simp+
  have "count_list (fst (snd ?r)) 7 = count_list (map snd (snd (snd ?r))) 7 + (if pm_abs (fst ?r) 7 = None then 0 else 1)"
    by (rule pending_conservation) (simp only: prod.collapse)
  then have "pm_abs (fst ?r) 7 \<noteq> None" unfolding pushed released by (auto split: if_splits)
  then show ?thesis using pushed released by blast
qed

text \<open>
  C26. The manager refines a partial map from chunks to the subscribers they belong to: \<^verbatim>\<open>push\<close>
  adds a chunk unless it is there or the table is full, \<^verbatim>\<open>release\<close> removes it and names the
  subscriber that gets it back, \<^verbatim>\<open>anyPending\<close> asks whether a subscriber is in the range; the
  invariant is kept.
\<close>

theorem pending_refinement:
  assumes "pm_invar m"
  shows "pm_invar (fst (pm_push m p mx s)) \<and> pm_invar (fst (pm_release m q)) \<and>
    (snd (pm_push m p mx s) \<longleftrightarrow> pm_abs m p = None \<and> vm_size m < MAX_PENDING_MESSAGE_COUNT) \<and>
    pm_abs (fst (pm_push m p mx s)) = (if snd (pm_push m p mx s) then (pm_abs m)(p \<mapsto> s) else pm_abs m) \<and>
    pm_abs (fst (pm_release m q)) = (pm_abs m)(q := None) \<and>
    snd (pm_release m q) = map_option (\<lambda>s. (s, q)) (pm_abs m q) \<and>
    (anyPending m t \<longleftrightarrow> t \<in> ran (pm_abs m))"
proof -
  have "snd (pm_release m q) = map_option (\<lambda>s. (s, q)) (pm_abs m q)" by (simp add: pm_release_eq [OF assms])
  moreover have "anyPending m t \<longleftrightarrow> t \<in> ran (pm_abs m)" by (simp add: anyPending_iff [OF assms] ran_def)
  ultimately show ?thesis
    using pm_push_invar [OF assms] pm_release_invar [OF assms] pm_push_abs [OF assms] pm_release_abs [OF assms] by simp
qed

theorem pending_refinement_witness:
  "pm_invar vm_empty \<and> snd (pm_push vm_empty 7 0 3) \<and> pm_abs (fst (pm_push vm_empty 7 0 3)) 7 = Some 3"
proof -
  have "pm_abs vm_empty 7 = None" "vm_size (vm_empty :: pending_messages) < MAX_PENDING_MESSAGE_COUNT" by code_simp+
  then show ?thesis using pending_refinement [of vm_empty 7 0 3 7 3] pm_invar_empty by simp
qed

end
