(* ===== verification/DataReader.thy ===== *)
theory DataReader
  imports Types HelperFunctions
begin

text \<open>
  \<^verbatim>\<open>source/p3com/generic/data_reader.cpp\<close>: the data of one submessage is copied into the
  user header or the user payload of the chunk that is being filled. The buffers are the
  memory behind the two pointers, \<open>None\<close> for a null pointer. The theory also holds the
  segment algebra shared by the writer and the reader: how a byte sequence is cut into
  consecutive pieces and why the pieces fill a buffer in any order.
\<close>

section \<open>takeNext\<close>

definition takeNext ::
  "datagram_header \<Rightarrow> byte list \<Rightarrow> byte list option \<Rightarrow> byte list option
     \<Rightarrow> (byte list option \<times> byte list option) result" where
  "takeNext h data userHeaderBuffer userPayloadBuffer =
     (if submessageOffset h < userHeaderSize h
      then case userHeaderBuffer of
             None \<Rightarrow> Inr (userHeaderBuffer, userPayloadBuffer)
           | Some buf \<Rightarrow>
               bindR (neonMemcpy buf (unat (submessageOffset h)) data (unat (submessageSize h)))
                 (\<lambda>buf'. Inr (Some buf', userPayloadBuffer))
      else case userPayloadBuffer of
             None \<Rightarrow> Inr (userHeaderBuffer, userPayloadBuffer)
           | Some buf \<Rightarrow>
               bindR (neonMemcpy buf (unat (submessageOffset h) - unat (userHeaderSize h)) data
                        (unat (submessageSize h)))
                 (\<lambda>buf'. Inr (userHeaderBuffer, Some buf')))"

section \<open>Segments\<close>

text \<open>
  The submessages of the bytes \<open>xs\<close> that start at offset \<open>off\<close> of the message: pieces of
  \<open>m\<close> bytes, the last one possibly shorter, each with its own offset and size.
\<close>

function segmentsFrom ::
  "datagram_header \<Rightarrow> nat \<Rightarrow> nat \<Rightarrow> byte list \<Rightarrow> (datagram_header \<times> byte list) list" where
  "segmentsFrom h m off xs =
     (if m = 0 \<or> xs = [] then []
      else (h\<lparr>submessageOffset := word_of_nat off, submessageSize := word_of_nat (min m (length xs))\<rparr>,
            take m xs) # segmentsFrom h m (off + m) (drop m xs))"
  by pat_completeness auto
termination
  by (relation "measure (\<lambda>(h, m, off, xs). length xs)") auto

declare segmentsFrom.simps [simp del]

lemma segmentsFrom_Nil [simp]: "segmentsFrom h m off [] = []"
  by (simp add: segmentsFrom.simps)

lemma segmentsFrom_step:
  "m \<noteq> 0 \<Longrightarrow> xs \<noteq> [] \<Longrightarrow> segmentsFrom h m off xs =
     (h\<lparr>submessageOffset := word_of_nat off, submessageSize := word_of_nat (min m (length xs))\<rparr>,
      take m xs) # segmentsFrom h m (off + m) (drop m xs)"
  by (simp add: segmentsFrom.simps [of h m off xs])

lemma segmentsFrom_header:
  "(g, d) \<in> set (segmentsFrom h m off xs) \<Longrightarrow>
     g = h\<lparr>submessageOffset := submessageOffset g, submessageSize := submessageSize g\<rparr>"
proof (induction h m off xs rule: segmentsFrom.induct)
  case (1 h m off xs)
  then show ?case
    by (subst (asm) (2) segmentsFrom.simps) (auto split: if_splits)
qed

text \<open>The offset and size fields of the given header do not matter.\<close>

lemma segmentsFrom_cong:
  assumes "g\<lparr>submessageOffset := 0, submessageSize := 0\<rparr> = h\<lparr>submessageOffset := 0, submessageSize := 0\<rparr>"
  shows "segmentsFrom g m off xs = segmentsFrom h m off xs"
  using assms
proof (induction h m off xs rule: segmentsFrom.induct)
  case (1 h m off xs)
  then have "g\<lparr>submessageOffset := c, submessageSize := d\<rparr> = h\<lparr>submessageOffset := c, submessageSize := d\<rparr>" for c d
    by (cases g; cases h) simp
  then show ?case
    using "1.IH" [OF _ "1.prems"] by (cases "m = 0 \<or> xs = []")
      (simp_all add: segmentsFrom.simps [of g m off xs] segmentsFrom.simps [of h m off xs])
qed

lemma segmentsFrom_fields:
  "segmentsFrom (h\<lparr>submessageOffset := a\<rparr>) m off xs = segmentsFrom h m off xs"
  "segmentsFrom (h\<lparr>submessageSize := b\<rparr>) m off xs = segmentsFrom h m off xs"
  by (rule segmentsFrom_cong, simp)+

text \<open>Each piece is the slice of the bytes that its offset and size name.\<close>

lemma segmentsFrom_slice:
  assumes "(g, d) \<in> set (segmentsFrom h m off xs)" "off + length xs < 2 ^ 32"
  shows "\<exists>k. k < length xs \<and> unat (submessageOffset g) = off + k \<and> d = take m (drop k xs) \<and>
    unat (submessageSize g) = length d \<and> d \<noteq> []"
  using assms
proof (induction h m off xs rule: segmentsFrom.induct)
  case (1 h m off xs)
  then have ne: "m \<noteq> 0" "xs \<noteq> []"
    by (auto simp: segmentsFrom.simps [of h m off xs] split: if_splits)
  show ?case
  proof (cases "(g, d) \<in> set (segmentsFrom h m (off + m) (drop m xs))")
    case True
    then have "drop m xs \<noteq> []" by (metis empty_iff list.set(1) segmentsFrom_Nil)
    moreover from this have "off + m + length (drop m xs) < 2 ^ 32"
      using "1.prems"(2) by simp
    ultimately obtain k where "k < length (drop m xs)" "unat (submessageOffset g) = off + m + k"
      "d = take m (drop k (drop m xs))" "unat (submessageSize g) = length d" "d \<noteq> []"
      using "1.IH" [OF _ True] ne by auto
    then show ?thesis
      by (intro exI [of _ "m + k"]) (auto simp: add.assoc add.commute)
  next
    case False
    with "1.prems"(1) have g: "g = h\<lparr>submessageOffset := word_of_nat off,
        submessageSize := word_of_nat (min m (length xs))\<rparr>" and d: "d = take m xs"
      using segmentsFrom_step [OF ne, of h off] by auto
    have "min m (length xs) < 2 ^ 32" using "1.prems"(2) by simp
    then show ?thesis
      using g d ne "1.prems"(2) by (intro exI [of _ 0]) (auto simp: unat_of_nat min_def)
  qed
qed

text \<open>Together the pieces cover every byte.\<close>

lemma segmentsFrom_cover:
  assumes "m \<noteq> 0" "off + length xs < 2 ^ 32" "i < length xs"
  shows "\<exists>(g, d) \<in> set (segmentsFrom h m off xs).
    unat (submessageOffset g) \<le> off + i \<and> off + i < unat (submessageOffset g) + length d"
  using assms
proof (induction h m off xs arbitrary: i rule: segmentsFrom.induct)
  case (1 h m off xs)
  then have ne: "xs \<noteq> []" by auto
  note step = segmentsFrom_step [OF "1.prems"(1) ne, of h off]
  show ?case
  proof (cases "i < m")
    case True
    then show ?thesis
      using "1.prems" by (simp add: step unat_of_nat)
  next
    case False
    then have "off + m + length (drop m xs) < 2 ^ 32" "i - m < length (drop m xs)"
      using "1.prems" by auto
    then have "\<exists>(g, d) \<in> set (segmentsFrom h m (off + m) (drop m xs)).
        unat (submessageOffset g) \<le> off + m + (i - m) \<and>
        off + m + (i - m) < unat (submessageOffset g) + length d"
      using "1.IH" [of "i - m"] "1.prems"(1) ne by simp
    then show ?thesis using False by (auto simp: step)
  qed
qed

lemma segmentsFrom_length:
  assumes "m \<noteq> 0"
  shows "length (segmentsFrom h m off xs) = (length xs + m - 1) div m"
  using assms
proof (induction h m off xs rule: segmentsFrom.induct)
  case (1 h m off xs)
  show ?case
  proof (cases "xs = []")
    case True
    then show ?thesis using "1.prems" by simp
  next
    case False
    note step = segmentsFrom_step [OF "1.prems" False, of h off]
    have "length (segmentsFrom h m off xs) = Suc ((length (drop m xs) + m - 1) div m)"
      using "1.IH" False "1.prems" by (simp add: step)
    also have "\<dots> = (length xs + m - 1) div m"
    proof (cases "length xs \<le> m")
      case True
      moreover have "1 \<le> length xs" using False by (simp add: Suc_le_eq)
      ultimately have "(length xs + m - 1) div m = 1"
        using "1.prems" by (intro div_nat_eqI) auto
      then show ?thesis using True "1.prems" by simp
    next
      case False
      then have "length xs + m - 1 = (length xs - m + m - 1) + m" by simp
      then show ?thesis using "1.prems" by (metis Suc_eq_plus1 div_add_self2 length_drop)
    qed
    finally show ?thesis .
  qed
qed

section \<open>Filling a buffer\<close>

text \<open>
  Copying slices of \<open>xs\<close> to their own places, in any order and with any repetition, turns a
  buffer of the right length into \<open>xs\<close> as soon as every position has been written.
\<close>

fun copy_pieces :: "'a list \<Rightarrow> (nat \<times> 'a list) list \<Rightarrow> 'a list result" where
  "copy_pieces buf [] = Inr buf"
| "copy_pieces buf ((k, d) # ps) = bindR (memcpy buf k d) (\<lambda>buf'. copy_pieces buf' ps)"

definition slice_of :: "'a list \<Rightarrow> nat \<times> 'a list \<Rightarrow> bool" where
  "slice_of xs p \<longleftrightarrow> (case p of (k, d) \<Rightarrow> k + length d \<le> length xs \<and> d = take (length d) (drop k xs))"

definition covers :: "(nat \<times> 'a list) list \<Rightarrow> nat \<Rightarrow> bool" where
  "covers ps i \<longleftrightarrow> (\<exists>(k, d) \<in> set ps. k \<le> i \<and> i < k + length d)"

lemma copy_pieces_slices:
  assumes "length buf = length xs" "\<forall>p \<in> set ps. slice_of xs p"
  shows "\<exists>buf'. copy_pieces buf ps = Inr buf' \<and> length buf' = length xs \<and>
    (\<forall>i < length xs. buf' ! i = (if covers ps i then xs ! i else buf ! i))"
  using assms
proof (induction ps arbitrary: buf)
  case Nil
  then show ?case by (simp add: covers_def)
next
  case (Cons p ps)
  obtain k d where p: "p = (k, d)" by fastforce
  have slice: "k + length d \<le> length xs" "d = take (length d) (drop k xs)"
    using Cons.prems(2) by (auto simp: p slice_of_def)
  then obtain buf1 where buf1: "memcpy buf k d = Inr buf1" "length buf1 = length xs"
    using Cons.prems(1) by (metis memcpy_length memcpy_ok)
  have nth1: "buf1 ! i = (if k \<le> i \<and> i < k + length d then xs ! i else buf ! i)" if "i < length xs" for i
  proof -
    have "d ! (i - k) = xs ! i" if "k \<le> i" "i < k + length d"
    proof -
      have "i - k < length d" using that by simp
      then have "d ! (i - k) = drop k xs ! (i - k)" by (subst slice(2)) (rule nth_take)
      then show ?thesis using that slice(1) by simp
    qed
    then show ?thesis using memcpy_nth [OF buf1(1)] that Cons.prems(1) by auto
  qed
  from Cons.IH [OF buf1(2)] Cons.prems(2) obtain buf' where
    "copy_pieces buf1 ps = Inr buf'" "length buf' = length xs"
    "\<forall>i < length xs. buf' ! i = (if covers ps i then xs ! i else buf1 ! i)" by auto
  then show ?case
    using buf1 nth1 by (auto simp: p covers_def)
qed

lemma copy_pieces_complete:
  assumes "length buf = length xs" "\<forall>p \<in> set ps. slice_of xs p" "\<forall>i < length xs. covers ps i"
  shows "copy_pieces buf ps = Inr xs"
  using copy_pieces_slices [OF assms(1,2)] assms(3) by (metis nth_equalityI)

end
