(* ===== verification/DataWriter.thy ===== *)
theory DataWriter
  imports Serialization Transport PendingMessages DataReader
begin

text \<open>
  \<^verbatim>\<open>source/p3com/generic/data_writer.cpp\<close>: a chunk taken from a subscriber is cut into
  submessages that fit the transport layer of each destination device, each submessage is
  sent behind its serialised header, and the chunk goes back to the subscriber. The virtual
  methods of a transport layer and the subscriber's \<^verbatim>\<open>release\<close> act on an abstract world
  \<open>'w\<close>. The locale \<open>accepting_layer\<close> is the contract of a layer that accepts everything it
  is given; the segmentation theorems are proved in it once.
\<close>

section \<open>The interfaces the writer calls\<close>

record 'w layer_ops =
  sendUserData :: "transport_layer \<Rightarrow> byte list \<Rightarrow> byte list \<Rightarrow> u32 \<Rightarrow> 'w \<Rightarrow> (transport_layer \<times> bool \<times> 'w) result"
  willBePending :: "transport_layer \<Rightarrow> nat \<Rightarrow> bool"
  maxMessageSize :: "transport_layer \<Rightarrow> nat"

text \<open>The chunk a subscriber handed out: its address and the memory of its header and payload.\<close>

record chunk_header =
  ch_chunk :: chunk_ptr
  ch_userHeader :: "byte list"
  ch_userPayload :: "byte list"

section \<open>Segmentation\<close>

definition divideAndRoundUp :: "u32 \<Rightarrow> u32 \<Rightarrow> u32" where
  "divideAndRoundUp divident divisor = (divident + divisor - 1) div divisor"

lemma unat_min: "unat (min a b) = min (unat a) (unat (b :: u32))"
  by (simp add: min_def word_le_nat_alt)

lemma unat_minus_min: "unat (r - min m r) = unat r - unat (min m (r :: u32))"
  by (simp add: unat_sub)

lemma min_remaining_less:
  assumes "r \<noteq> 0" "m \<noteq> 0"
  shows "unat (r - min m r) < unat (r :: u32)"
proof -
  have "0 < unat r" "0 < unat m" using assms by (simp_all add: unat_gt_0)
  then show ?thesis unfolding unat_minus_min unat_min by linarith
qed

text \<open>
  The two sending loops differ in the buffer they read (the message offset of its first byte
  is \<open>base\<close>, so \<^verbatim>\<open>buffer + offset - base\<close> is a pointer before the buffer when the offset is
  smaller) and in that only the second counts the pending submessages. The payload size
  \<open>m\<close> is not zero where the loops run: the divisions before them would have trapped.
\<close>

function sendLoop ::
  "iox_env \<Rightarrow> 'w layer_ops \<Rightarrow> u32 \<Rightarrow> byte list \<Rightarrow> u32 \<Rightarrow> u32 \<Rightarrow> datagram_header \<Rightarrow> u32 \<Rightarrow> u32
     \<Rightarrow> transport_layer \<Rightarrow> 'w \<Rightarrow> (datagram_header \<times> u32 \<times> transport_layer \<times> 'w) result" where
  "sendLoop E ops m buf base dev h remaining pending t w =
     (if remaining = 0 \<or> m = 0 then Inr (h, pending, t, w)
      else let h1 = h\<lparr>submessageSize := min m remaining\<rparr>
           in bindR (serializeHeader E h1) (\<lambda>ser.
              bindR (if submessageOffset h1 < base then Inl Out_Of_Bounds
                     else read_bytes (drop (unat (submessageOffset h1 - base)) buf) (unat (submessageSize h1))) (\<lambda>data.
              bindR (sendUserData ops t ser data dev w) (\<lambda>(t', isPending, w').
                sendLoop E ops m buf base dev
                  (h1\<lparr>submessageOffset := submessageOffset h1 + submessageSize h1\<rparr>)
                  (remaining - submessageSize h1) (pending + (if isPending then 1 else 0)) t' w'))))"
  by pat_completeness auto
termination
  by (relation "measure (\<lambda>(E, ops, m, buf, base, dev, h, remaining, pending, t, w). unat remaining)")
    (auto simp: min_remaining_less)

declare sendLoop.simps [simp del]

text \<open>The data bytes that fit one datagram: a 64-bit difference cast to 32 bits.\<close>

definition maxTransportPayloadSize :: "iox_env \<Rightarrow> 'w layer_ops \<Rightarrow> transport_layer \<Rightarrow> u32" where
  "maxTransportPayloadSize E ops t =
     word_of_nat (maxMessageSize ops t) - word_of_nat (maxIoxChunkDatagramHeaderSerializationSize E)"

text \<open>
  The lambda run on the layer of the destination: the header of the message and the number of
  pending submessages are captured by reference, so they travel with the world.
\<close>

definition writeFn ::
  "iox_env \<Rightarrow> 'w layer_ops \<Rightarrow> byte list \<Rightarrow> byte list \<Rightarrow> u32 \<Rightarrow> ('w \<times> datagram_header \<times> u32) layer_fn" where
  "writeFn E ops userHeaderBytes userPayloadBytes dev = (\<lambda>t (w, h, pendingCount).
     let m = maxTransportPayloadSize E ops t
     in if m = 0 then Inl Division_By_Zero
        else let h1 = h\<lparr>submessageCount := divideAndRoundUp (userHeaderSize h) m
                                             + divideAndRoundUp (userPayloadSize h) m,
                        submessageOffset := 0\<rparr>
             in bindR (sendLoop E ops m userHeaderBytes 0 dev h1 (userHeaderSize h) 0 t w) (\<lambda>(h2, _, t1, w1).
                bindR (sendLoop E ops m userPayloadBytes (userHeaderSize h) dev h2 (userPayloadSize h)
                         pendingCount t1 w1) (\<lambda>(h3, pendingCount', t2, w2).
                Inr (t2, (w2, h3, pendingCount')))))"

text \<open>A failure callback on the world, where the lambda's captured variables travel along.\<close>

definition lift_cb :: "'w fail_callback option \<Rightarrow> ('w \<times> 'x) fail_callback option" where
  "lift_cb cb = map_option (\<lambda>f ti (w, x). bindR (f ti w) (\<lambda>(ti', w'). Inr (ti', (w', x)))) cb"

definition writeSegmentedInternal ::
  "iox_env \<Rightarrow> 'w layer_ops \<Rightarrow> 'w fail_callback option \<Rightarrow> datagram_header \<Rightarrow> byte list \<Rightarrow> byte list
     \<Rightarrow> device_index \<Rightarrow> transport_info \<times> 'w \<Rightarrow> (bool \<times> datagram_header \<times> transport_info \<times> 'w) result" where
  "writeSegmentedInternal E ops cb h userHeaderBytes userPayloadBytes deviceIndex = (\<lambda>(ti, w).
     bindR (doFor (di_type deviceIndex) (writeFn E ops userHeaderBytes userPayloadBytes (di_device deviceIndex))
              (lift_cb cb) (ti, (w, h, 0))) (\<lambda>(ti', (w', h', pendingCount)).
     Inr (pendingCount = 1, h', ti', w')))"

section \<open>Writing to all destinations\<close>

record 'w writer_state =
  ws_ti :: transport_info
  ws_pending :: pending_messages
  ws_world :: 'w

text \<open>
  Whether the layer will keep the chunk, and if so whether it could be registered as pending:
  the results are \<open>shouldBePending\<close> and \<open>shouldDiscard\<close>.
\<close>

definition pendingFn ::
  "'w layer_ops \<Rightarrow> nat \<Rightarrow> chunk_ptr \<Rightarrow> mutex_ptr \<Rightarrow> subscriber_ptr
     \<Rightarrow> ('w \<times> pending_messages \<times> bool \<times> bool) layer_fn" where
  "pendingFn ops payloadSize chunk mutex subscriber = (\<lambda>t (w, pm, _, _).
     if willBePending ops t payloadSize
     then case pm_push pm chunk mutex subscriber of
            (pm', pushed) \<Rightarrow> Inr (t, (w, pm', True, \<not> pushed))
     else Inr (t, (w, pm, False, False)))"

text \<open>
  The loop over the destinations; \<open>rel\<close> is \<^verbatim>\<open>subscriber.release\<close> on the world. A chunk that
  could not be registered is given back at once and the function returns.
\<close>

fun writeSegmented ::
  "iox_env \<Rightarrow> 'w layer_ops \<Rightarrow> 'w fail_callback option \<Rightarrow> (subscriber_ptr \<Rightarrow> chunk_ptr \<Rightarrow> 'w \<Rightarrow> 'w)
     \<Rightarrow> datagram_header \<Rightarrow> chunk_header \<Rightarrow> device_index list \<Rightarrow> mutex_ptr \<Rightarrow> subscriber_ptr
     \<Rightarrow> 'w writer_state \<Rightarrow> 'w writer_state result" where
  "writeSegmented E ops cb rel h ck [] mutex subscriber s = Inr s"
| "writeSegmented E ops cb rel h ck (i # is) mutex subscriber s =
     bindR (doFor (di_type i) (pendingFn ops (unat (userPayloadSize h)) (ch_chunk ck) mutex subscriber)
              (lift_cb cb) (ws_ti s, (ws_world s, ws_pending s, False, False)))
       (\<lambda>(ti1, (w1, pm1, shouldBePending, shouldDiscard)).
     if shouldDiscard
     then Inr (s\<lparr>ws_ti := ti1, ws_pending := pm1, ws_world := rel subscriber (ch_chunk ck) w1\<rparr>)
     else
     bindR (writeSegmentedInternal E ops cb h (ch_userHeader ck) (ch_userPayload ck) i (ti1, w1))
       (\<lambda>(isPending, h', ti2, w2).
     let (pm2, w3) =
       (if isPending then (pm1, w2)
        else if shouldBePending
        then case pm_release pm1 (ch_chunk ck) of
               (pm', None) \<Rightarrow> (pm', w2)
             | (pm', Some (sub, chunk)) \<Rightarrow> (pm', rel sub chunk w2)
        else (pm1, rel subscriber (ch_chunk ck) w2))
     in writeSegmented E ops cb rel h' ck is mutex subscriber
          (s\<lparr>ws_ti := ti2, ws_pending := pm2, ws_world := w3\<rparr>)))"

section \<open>What is sent\<close>

text \<open>The datagrams of a message: the segments of the header, then those of the payload.\<close>

definition messageSegments ::
  "datagram_header \<Rightarrow> u32 \<Rightarrow> byte list \<Rightarrow> byte list \<Rightarrow> (datagram_header \<times> byte list) list" where
  "messageSegments h m hs ps =
     (let h1 = h\<lparr>submessageCount := divideAndRoundUp (userHeaderSize h) m + divideAndRoundUp (userPayloadSize h) m\<rparr>
      in segmentsFrom h1 (unat m) 0 hs @ segmentsFrom h1 (unat m) (length hs) ps)"

definition datagram :: "iox_env \<Rightarrow> datagram_header \<times> byte list \<Rightarrow> byte list" where
  "datagram E = (\<lambda>(h, d). projr (serializeHeader E h) @ d)"

text \<open>One round of the loop takes the next segment off the bytes that are left.\<close>

lemma segmentsFrom_next:
  fixes m remaining base :: "32 word"
  defines "n \<equiv> min m remaining"
  assumes "m \<noteq> 0" "remaining \<noteq> 0" "length (drop (unat (submessageOffset h - base)) buf) = unat remaining"
    and off: "unat (submessageOffset h + n) = unat (submessageOffset h) + unat n"
    and base: "unat (submessageOffset h + n - base) = unat (submessageOffset h - base) + unat n"
  shows "segmentsFrom h (unat m) (unat (submessageOffset h)) (drop (unat (submessageOffset h - base)) buf) =
    (h\<lparr>submessageSize := n\<rparr>, take (unat m) (drop (unat (submessageOffset h - base)) buf)) #
      segmentsFrom (h\<lparr>submessageSize := n, submessageOffset := submessageOffset h + n\<rparr>) (unat m) (unat (submessageOffset h + n))
        (drop (unat (submessageOffset h + n - base)) buf)"
proof -
  let ?off = "submessageOffset h"
  let ?xs = "drop (unat (?off - base)) buf"
  have xs: "length ?xs = unat remaining" by (rule assms)
  have n: "unat n = min (unat m) (unat remaining)" unfolding n_def by (rule unat_min)
  have ne: "unat m \<noteq> 0" "?xs \<noteq> []" using assms(2,3) xs by (auto simp: unat_eq_0)
  have "drop (unat m) ?xs = drop (unat (?off + n - base)) buf \<and>
      (unat (?off + n) = unat ?off + unat m \<or> drop (unat m) ?xs = [])"
    using base off n xs by (cases "unat m \<le> unat remaining") (auto simp: add.commute)
  moreover have "h\<lparr>submessageOffset := ?off, submessageSize := n\<rparr> = h\<lparr>submessageSize := n\<rparr>" by simp
  moreover have "word_of_nat (min (unat m) (length ?xs)) = n" unfolding xs n [symmetric] by simp
  ultimately show ?thesis
    by (auto simp: segmentsFrom_step [OF ne] segmentsFrom_fields simp del: drop_drop)
qed

text \<open>Headers of the same message: they differ at most in the fields that \<^verbatim>\<open>writeSegmentedInternal\<close> fills in.\<close>

definition same_message :: "datagram_header \<Rightarrow> datagram_header \<Rightarrow> bool" where
  "same_message h g \<longleftrightarrow> h\<lparr>submessageCount := 0, submessageOffset := 0, submessageSize := 0\<rparr>
     = g\<lparr>submessageCount := 0, submessageOffset := 0, submessageSize := 0\<rparr>"

lemma same_messageI:
  "h\<lparr>submessageOffset := 0, submessageSize := 0\<rparr> = g\<lparr>submessageOffset := 0, submessageSize := 0\<rparr> \<Longrightarrow> same_message h g"
  by (cases h; cases g) (simp add: same_message_def)

lemma same_message_fields:
  "same_message h g \<Longrightarrow> userHeaderSize h = userHeaderSize g \<and> userPayloadSize h = userPayloadSize g"
  by (cases h; cases g) (simp add: same_message_def)

lemma messageSegments_cong:
  assumes "same_message h g"
  shows "messageSegments h m hs ps = messageSegments g m hs ps"
proof -
  let ?n = "divideAndRoundUp (userHeaderSize g) m + divideAndRoundUp (userPayloadSize g) m"
  have "h\<lparr>submessageCount := ?n, submessageOffset := 0, submessageSize := 0\<rparr> = g\<lparr>submessageCount := ?n, submessageOffset := 0, submessageSize := 0\<rparr>"
    using assms by (cases h; cases g) (simp add: same_message_def)
  then show ?thesis
    using same_message_fields [OF assms] segmentsFrom_cong [of "h\<lparr>submessageCount := ?n\<rparr>" "g\<lparr>submessageCount := ?n\<rparr>"]
    by (simp add: messageSegments_def)
qed


text \<open>
  A layer that accepts: in the worlds \<open>ok\<close> it appends what it is given for the device to the log
  of that device, stays as it is, and reports no pending message.
\<close>

locale accepting_layer =
  fixes ops :: "'w layer_ops"
    and ok :: "'w \<Rightarrow> bool"
    and log :: "'w \<Rightarrow> byte list list"
    and t :: transport_layer
    and dev :: u32
  assumes accepts: "ok w \<Longrightarrow> \<exists>w'. sendUserData ops t ser data dev w = Inr (t, False, w') \<and> ok w' \<and>
      log w' = log w @ [ser @ data]"
begin

lemma sendLoop_segments:
  assumes "ok w" "m \<noteq> 0" "base \<le> submessageOffset h"
    and "length buf = unat (submessageOffset h - base) + unat remaining"
    and "unat (submessageOffset h) + unat remaining < 2 ^ 32"
  shows "\<exists>h' w'. sendLoop E ops m buf base dev h remaining pending t w = Inr (h', pending, t, w') \<and> ok w' \<and>
    log w' = log w @ map (datagram E)
      (segmentsFrom h (unat m) (unat (submessageOffset h)) (drop (unat (submessageOffset h - base)) buf)) \<and>
    submessageOffset h' = submessageOffset h + remaining \<and>
    h'\<lparr>submessageOffset := 0, submessageSize := 0\<rparr> = h\<lparr>submessageOffset := 0, submessageSize := 0\<rparr>"
  using assms
proof (induction "unat remaining" arbitrary: h remaining w rule: less_induct)
  case less
  let ?off = "submessageOffset h"
  let ?xs = "drop (unat (?off - base)) buf"
  show ?case
  proof (cases "remaining = 0")
    case True
    then show ?thesis using less.prems by (simp add: sendLoop.simps [of E ops m buf])
  next
    case False
    let ?n = "min m remaining"
    let ?h1 = "h\<lparr>submessageSize := ?n\<rparr>"
    let ?h2 = "?h1\<lparr>submessageOffset := ?off + ?n\<rparr>"
    have n: "unat ?n = min (unat m) (unat remaining)" by (rule unat_min)
    have xs: "length ?xs = unat remaining" using less.prems(4) by simp
    have read: "read_bytes ?xs (unat ?n) = Inr (take (unat m) ?xs)"
      using xs n by (simp add: read_bytes_def take_all_iff min_def)
    obtain ser where ser: "serializeHeader E ?h1 = Inr ser"
      by (simp add: serializeHeader_ok)
    obtain w1 where w1: "sendUserData ops t ser (take (unat m) ?xs) dev w = Inr (t, False, w1)" "ok w1"
      "log w1 = log w @ [ser @ take (unat m) ?xs]"
      using accepts [OF less.prems(1)] by blast
    have step: "sendLoop E ops m buf base dev h remaining pending t w
        = sendLoop E ops m buf base dev ?h2 (remaining - ?n) pending t w1"
      using False less.prems(2,3) ser read w1(1) by (subst sendLoop.simps) (simp add: leD)
    have off2: "unat (?off + ?n) = unat ?off + unat ?n"
      using less.prems(5) n by (intro unat_plus_simple [THEN iffD1] no_olen_add_nat [THEN iffD2]) simp
    have base2: "base \<le> ?off + ?n" "unat (?off + ?n - base) = unat (?off - base) + unat ?n"
      using less.prems(3) off2 by (simp_all add: word_le_nat_alt unat_sub)
    have rem2: "unat (remaining - ?n) = unat remaining - unat ?n" by (rule unat_minus_min)
    have le: "unat ?n \<le> unat remaining" using n by simp
    obtain h' w' where IH: "sendLoop E ops m buf base dev ?h2 (remaining - ?n) pending t w1 = Inr (h', pending, t, w')"
      "ok w'" "log w' = log w1 @ map (datagram E)
         (segmentsFrom ?h2 (unat m) (unat (?off + ?n)) (drop (unat (?off + ?n - base)) buf))"
      "submessageOffset h' = ?off + ?n + (remaining - ?n)"
      "h'\<lparr>submessageOffset := 0, submessageSize := 0\<rparr> = ?h2\<lparr>submessageOffset := 0, submessageSize := 0\<rparr>"
      using less.hyps [of "remaining - ?n" w1 ?h2] less.prems(2,4,5) w1(2) base2 off2 rem2 le
        min_remaining_less [OF False less.prems(2)] by auto
    have seg: "segmentsFrom h (unat m) (unat ?off) ?xs =
        (?h1, take (unat m) ?xs) # segmentsFrom ?h2 (unat m) (unat (?off + ?n)) (drop (unat (?off + ?n - base)) buf)"
      using segmentsFrom_next [OF less.prems(2) False xs off2 base2(2)] .
    show ?thesis
      using step IH w1(3) ser seg by (auto simp: datagram_def)
  qed
qed

lemma writeFn_segments:
  assumes "ok w" "m = maxTransportPayloadSize E ops t"
    and "m \<noteq> 0" "length hs = unat (userHeaderSize h)" "length ps = unat (userPayloadSize h)"
    and "length hs + length ps < 2 ^ 32"
  shows "\<exists>h' w'. writeFn E ops hs ps dev t (w, h, pc) = Inr (t, (w', h', pc)) \<and> ok w' \<and>
    log w' = log w @ map (datagram E) (messageSegments h m hs ps) \<and> same_message h' h"
proof -
  let ?h1 = "h\<lparr>submessageCount := divideAndRoundUp (userHeaderSize h) m + divideAndRoundUp (userPayloadSize h) m,
    submessageOffset := 0\<rparr>"
  obtain h2 w1 where loop1: "sendLoop E ops m hs 0 dev ?h1 (userHeaderSize h) 0 t w = Inr (h2, 0, t, w1)" "ok w1"
    "log w1 = log w @ map (datagram E) (segmentsFrom ?h1 (unat m) 0 hs)"
    "submessageOffset h2 = userHeaderSize h"
    "h2\<lparr>submessageOffset := 0, submessageSize := 0\<rparr> = ?h1\<lparr>submessageOffset := 0, submessageSize := 0\<rparr>"
    using sendLoop_segments [OF assms(1,3), of 0 ?h1 hs "userHeaderSize h" E 0] assms(4,6) by auto
  obtain h3 w2 where loop2: "sendLoop E ops m ps (userHeaderSize h) dev h2 (userPayloadSize h) pc t w1
      = Inr (h3, pc, t, w2)" "ok w2"
    "log w2 = log w1 @ map (datagram E) (segmentsFrom h2 (unat m) (length hs) ps)"
    "h3\<lparr>submessageOffset := 0, submessageSize := 0\<rparr> = h2\<lparr>submessageOffset := 0, submessageSize := 0\<rparr>"
    using sendLoop_segments [OF loop1(2) assms(3), of "userHeaderSize h" h2 ps "userPayloadSize h" E pc]
      assms(4-6) loop1(4) by auto
  have seg2: "segmentsFrom h2 (unat m) (length hs) ps = segmentsFrom ?h1 (unat m) (length hs) ps"
    using loop1(5) by (rule segmentsFrom_cong)
  show ?thesis
    using assms(2,3) loop1 loop2 seg2 same_messageI [of h3 h2] same_messageI [of h2 ?h1]
    by (auto simp: writeFn_def messageSegments_def segmentsFrom_fields same_message_def)
qed

text \<open>
  A message for one device that the layer does not keep: every datagram is sent, in order, and
  the chunk is released once, at the end.
\<close>

lemma writeSegmented_next:
  assumes "ok (ws_world s)" "di_device i = dev" "\<And>n. \<not> willBePending ops t n"
    and "index (di_type i) < TRANSPORT_TYPE_COUNT" "s_transports (ws_ti s) ! index (di_type i) = Some t" "isGood t"
    and "m = maxTransportPayloadSize E ops t" "m \<noteq> 0"
    and "length (ch_userHeader ck) = unat (userHeaderSize h)" "length (ch_userPayload ck) = unat (userPayloadSize h)"
    and "length (ch_userHeader ck) + length (ch_userPayload ck) < 2 ^ 32"
  shows "\<exists>h' w'. writeSegmented E ops cb rel h ck (i # is) mutex subscriber s
      = writeSegmented E ops cb rel h' ck is mutex subscriber (s\<lparr>ws_world := rel subscriber (ch_chunk ck) w'\<rparr>) \<and> ok w' \<and>
    log w' = log (ws_world s) @ map (datagram E) (messageSegments h m (ch_userHeader ck) (ch_userPayload ck)) \<and> same_message h' h"
proof -
  obtain h' w' where fn: "writeFn E ops (ch_userHeader ck) (ch_userPayload ck) dev t (ws_world s, h, 0)
      = Inr (t, (w', h', 0))" "ok w'"
    "log w' = log (ws_world s) @ map (datagram E) (messageSegments h m (ch_userHeader ck) (ch_userPayload ck))" "same_message h' h"
    using writeFn_segments [OF assms(1,7-11), of 0] by blast
  have "doFor (di_type i) (pendingFn ops (unat (userPayloadSize h)) (ch_chunk ck) mutex subscriber) (lift_cb cb)
      (ws_ti s, (ws_world s, ws_pending s, False, False)) = Inr (ws_ti s, (ws_world s, ws_pending s, False, False))"
    using assms(3) by (intro doFor_good [OF assms(4-6)]) (simp add: pendingFn_def)
  moreover have "writeSegmentedInternal E ops cb h (ch_userHeader ck) (ch_userPayload ck) i (ws_ti s, ws_world s)
      = Inr (False, h', ws_ti s, w')"
    using doFor_good [OF assms(4-6),
        of "writeFn E ops (ch_userHeader ck) (ch_userPayload ck) dev" "(ws_world s, h, 0)" "(w', h', 0)" "lift_cb cb"]
      fn(1) assms(2) by (simp add: writeSegmentedInternal_def)
  ultimately have "writeSegmented E ops cb rel h ck (i # is) mutex subscriber s
      = writeSegmented E ops cb rel h' ck is mutex subscriber (s\<lparr>ws_world := rel subscriber (ch_chunk ck) w'\<rparr>)" by simp
  with fn(2-4) show ?thesis by blast
qed

lemma writeSegmented_one:
  assumes "ok (ws_world s)" "di_device i = dev" "\<And>n. \<not> willBePending ops t n"
    and "index (di_type i) < TRANSPORT_TYPE_COUNT" "s_transports (ws_ti s) ! index (di_type i) = Some t" "isGood t"
    and "m = maxTransportPayloadSize E ops t" "m \<noteq> 0"
    and "length (ch_userHeader ck) = unat (userHeaderSize h)" "length (ch_userPayload ck) = unat (userPayloadSize h)"
    and "length (ch_userHeader ck) + length (ch_userPayload ck) < 2 ^ 32"
  shows "\<exists>w'. writeSegmented E ops cb rel h ck [i] mutex subscriber s
      = Inr (s\<lparr>ws_world := rel subscriber (ch_chunk ck) w'\<rparr>) \<and> ok w' \<and>
    log w' = log (ws_world s) @ map (datagram E) (messageSegments h m (ch_userHeader ck) (ch_userPayload ck))"
  using writeSegmented_next [OF assms, of cb rel "[]" mutex subscriber] by auto

end

section \<open>How often a chunk is released\<close>

text \<open>Layers that never keep a chunk, and an observation of the chunks released so far.\<close>

locale nonpending_layers =
  fixes ops :: "'w layer_ops"
    and rel :: "subscriber_ptr \<Rightarrow> chunk_ptr \<Rightarrow> 'w \<Rightarrow> 'w"
    and released :: "'w \<Rightarrow> (subscriber_ptr \<times> chunk_ptr) list"
    and cb :: "'w fail_callback option"
  assumes never_pending: "\<not> willBePending ops t n"
    and sends: "sendUserData ops t ser data dev w = Inr (t', p, w') \<Longrightarrow> \<not> p \<and> released w' = released w"
    and releases: "released (rel s c w) = released w @ [(s, c)]"
    and callback: "cb = Some f \<Longrightarrow> f ti w = Inr (ti', w') \<Longrightarrow> released w' = released w"
begin

lemma sendLoop_released:
  "sendLoop E ops m buf base dev h remaining pending t w = Inr (h', pending', t', w') \<Longrightarrow>
     pending' = pending \<and> released w' = released w"
proof (induction "unat remaining" arbitrary: h remaining pending t w rule: less_induct)
  case less
  show ?case
  proof (cases "remaining = 0 \<or> m = 0")
    case True
    then show ?thesis using less.prems by (subst (asm) sendLoop.simps) simp
  next
    case False
    let ?h1 = "h\<lparr>submessageSize := min m remaining\<rparr>"
    obtain ser data t1 p w1 where step: "sendUserData ops t ser data dev w = Inr (t1, p, w1)"
      "sendLoop E ops m buf base dev (?h1\<lparr>submessageOffset := submessageOffset h + min m remaining\<rparr>)
         (remaining - min m remaining) (pending + (if p then 1 else 0)) t1 w1 = Inr (h', pending', t', w')"
      using less.prems [unfolded sendLoop.simps [of E ops m buf base dev h remaining pending t w]] False
      by (auto simp: result_simps)
    then show ?thesis
      using less.hyps [OF _ step(2)] sends [OF step(1)] False by (simp add: min_remaining_less)
  qed
qed

lemma writeFn_released:
  "writeFn E ops hs ps dev t (w, h, pc) = Inr (t', (w', h', pc')) \<Longrightarrow> pc' = pc \<and> released w' = released w"
  by (auto simp: writeFn_def result_simps split: if_splits dest!: sendLoop_released)

lemma lift_cb_released:
  "lift_cb cb = Some f \<Longrightarrow> f ti (w, x) = Inr (ti', (w', x')) \<Longrightarrow> x' = x \<and> released w' = released w"
  by (auto simp: lift_cb_def result_simps dest: callback)

lemma writeSegmentedInternal_released:
  assumes "writeSegmentedInternal E ops cb h hs ps i (ti, w) = Inr (isPending, h', ti', w')"
  shows "\<not> isPending \<and> released w' = released w"
proof -
  from assms obtain pc where run: "doFor (di_type i) (writeFn E ops hs ps (di_device i)) (lift_cb cb) (ti, (w, h, 0))
      = Inr (ti', (w', h', pc))" and pc: "isPending = (pc = 1)"
    by (auto simp: writeSegmentedInternal_def result_simps)
  have "(\<lambda>(v, _, pc). released v = released w \<and> pc = 0) (w', h', pc)"
    using run by (rule doFor_invariant) (auto dest!: writeFn_released lift_cb_released)
  then show ?thesis using pc by simp
qed

lemma pendingFn_nothing:
  assumes "doFor (di_type i) (pendingFn ops n c mutex sub) (lift_cb cb) (ti, (w, pm, False, False))
      = Inr (ti', (w', pm', a, b))"
  shows "pm' = pm \<and> \<not> a \<and> \<not> b \<and> released w' = released w"
proof -
  have "(\<lambda>(v, x). released v = released w \<and> x = (pm, False, False)) (w', pm', a, b)"
    using assms by (rule doFor_invariant) (auto simp: pendingFn_def never_pending dest!: lift_cb_released)
  then show ?thesis by simp
qed

lemma writeSegmented_releases:
  "writeSegmented E ops cb rel h ck is mutex subscriber s = Inr s' \<Longrightarrow>
     released (ws_world s') = released (ws_world s) @ replicate (length is) (subscriber, ch_chunk ck) \<and>
     ws_pending s' = ws_pending s"
proof (induction "is" arbitrary: h s)
  case Nil
  then show ?case by simp
next
  case (Cons i "is")
  obtain ti1 w1 pm1 a b where 1: "doFor (di_type i) (pendingFn ops (unat (userPayloadSize h)) (ch_chunk ck) mutex subscriber)
      (lift_cb cb) (ws_ti s, (ws_world s, ws_pending s, False, False)) = Inr (ti1, (w1, pm1, a, b))"
    using Cons.prems by (auto simp: result_simps)
  note none = pendingFn_nothing [OF 1]
  obtain p h' ti2 w2 where 2: "writeSegmentedInternal E ops cb h (ch_userHeader ck) (ch_userPayload ck) i (ti1, w1)
      = Inr (p, h', ti2, w2)"
    using Cons.prems 1 none by (auto simp: result_simps)
  note rel2 = writeSegmentedInternal_released [OF 2]
  have "writeSegmented E ops cb rel h' ck is mutex subscriber
      (s\<lparr>ws_ti := ti2, ws_pending := ws_pending s, ws_world := rel subscriber (ch_chunk ck) w2\<rparr>) = Inr s'"
    using Cons.prems 1 2 none rel2 by simp
  from Cons.IH [OF this] show ?case using none rel2 by (simp add: releases)
qed

end

section \<open>Counts and sizes\<close>

lemma payload_size:
  assumes "maxIoxChunkDatagramHeaderSerializationSize E < maxMessageSize ops t" "maxMessageSize ops t < 2 ^ 32"
  shows "unat (maxTransportPayloadSize E ops t) = maxMessageSize ops t - maxIoxChunkDatagramHeaderSerializationSize E"
proof -
  have "maxTransportPayloadSize E ops t = word_of_nat (maxMessageSize ops t - maxIoxChunkDatagramHeaderSerializationSize E)"
    using assms(1) by (simp add: maxTransportPayloadSize_def of_nat_diff)
  moreover have "maxMessageSize ops t - maxIoxChunkDatagramHeaderSerializationSize E < 2 ^ 32" using assms(2) by linarith
  ultimately show ?thesis by (simp only: unat_of_nat) (simp add: take_bit_nat_eq_self)
qed

lemma unat_divideAndRoundUp:
  assumes "m \<noteq> 0" "unat a + unat m \<le> 2 ^ 32"
  shows "unat (divideAndRoundUp a m) = (unat a + unat m - 1) div unat m"
proof -
  have m: "0 < unat m" using assms(1) by (simp add: unat_gt_0)
  have "a + m - 1 = word_of_nat (unat a + unat m - 1)"
    using m by (simp add: of_nat_diff)
  moreover have "unat a + unat m - 1 < 2 ^ 32" using assms(2) m by simp
  ultimately have "unat (a + m - 1) = unat a + unat m - 1"
    by (simp add: unat_of_nat)
  then show ?thesis by (simp add: divideAndRoundUp_def unat_div)
qed

lemma messageSegments_length:
  assumes "m \<noteq> 0" "length hs = unat (userHeaderSize h)" "length ps = unat (userPayloadSize h)"
    and "length hs + unat m \<le> 2 ^ 32" "length ps + unat m \<le> 2 ^ 32" "length hs + length ps < 2 ^ 32"
  shows "length (messageSegments h m hs ps)
    = unat (divideAndRoundUp (userHeaderSize h) m + divideAndRoundUp (userPayloadSize h) m)"
proof -
  have m: "0 < unat m" using assms(1) by (simp add: unat_gt_0)
  let ?a = "divideAndRoundUp (userHeaderSize h) m" and ?b = "divideAndRoundUp (userPayloadSize h) m"
  have ab: "unat ?a = (length hs + unat m - 1) div unat m" "unat ?b = (length ps + unat m - 1) div unat m"
    using assms by (simp_all add: unat_divideAndRoundUp)
  have "(n + unat m - 1) div unat m \<le> n" for n
  proof (cases n)
    case (Suc k)
    have "k div unat m \<le> k" by (rule div_le_dividend)
    then show ?thesis using m Suc div_add_self2 [of "unat m" k] by simp
  qed (use m in simp)
  then have "unat ?a + unat ?b < 2 ^ 32"
    using assms(6) unfolding ab by (meson add_mono_thms_linordered_semiring(1) le_less_trans)
  then have "unat (?a + ?b) = unat ?a + unat ?b"
    by (intro unat_plus_simple [THEN iffD1] no_olen_add_nat [THEN iffD2]) simp
  then show ?thesis
    using m by (simp add: messageSegments_def segmentsFrom_length ab)
qed

section \<open>Properties\<close>

text \<open>
  The segment count that \<^verbatim>\<open>writeSegmented\<close> puts in every header is the number of datagrams
  it cuts the message into, and every one of these headers carries it; the 32-bit rounding
  division behind it is exact as long as each size plus the segment size stays within 32 bits.
\<close>

theorem segment_count:
  assumes "m \<noteq> 0" "length hs = unat (userHeaderSize h)" "length ps = unat (userPayloadSize h)"
    and "length hs + unat m \<le> 2 ^ 32" "length ps + unat m \<le> 2 ^ 32" "length hs + length ps < 2 ^ 32"
  shows "unat (divideAndRoundUp (userHeaderSize h) m) = (length hs + unat m - 1) div unat m \<and>
    unat (divideAndRoundUp (userPayloadSize h) m) = (length ps + unat m - 1) div unat m \<and>
    (\<forall>s \<in> set (messageSegments h m hs ps). unat (submessageCount (fst s)) = length (messageSegments h m hs ps))"
proof -
  let ?n = "divideAndRoundUp (userHeaderSize h) m + divideAndRoundUp (userPayloadSize h) m"
  have "submessageCount g = ?n" if "(g, d) \<in> set (messageSegments h m hs ps)" for g d
  proof -
    from that have "\<exists>off xs. (g, d) \<in> set (segmentsFrom (h\<lparr>submessageCount := ?n\<rparr>) (unat m) off xs)"
      unfolding messageSegments_def by auto
    then obtain a b where "g = (h\<lparr>submessageCount := ?n\<rparr>)\<lparr>submessageOffset := a, submessageSize := b\<rparr>"
      by (metis segmentsFrom_header)
    then show ?thesis by simp
  qed
  then show ?thesis
    using messageSegments_length [OF assms] assms by (auto simp: unat_divideAndRoundUp)
qed

theorem segment_count_witness:
  "map (\<lambda>s. unat (submessageCount (fst s))) (messageSegments (sample_header\<lparr>userPayloadSize := 5\<rparr>) 2 [] [1, 2, 3, 4, 5]) = [3, 3, 3]"
proof -
  let ?segs = "messageSegments (sample_header\<lparr>userPayloadSize := 5\<rparr>) 2 [] [1, 2, 3, 4, 5]"
  have seg: "length ?segs = 3" by code_simp
  then have "\<forall>s \<in> set ?segs. unat (submessageCount (fst s)) = 3"
    using segment_count [of 2 "[]" "sample_header\<lparr>userPayloadSize := 5\<rparr>" "[1, 2, 3, 4, 5]"]
    by (simp add: sample_header_def)
  then have "map (\<lambda>s. unat (submessageCount (fst s))) ?segs = replicate (length ?segs) 3"
    by (intro replicate_eqI) auto
  then show ?thesis by (simp add: seg numeral_eq_Suc)
qed

end
