(* ===== verification/Discovery.thy ===== *)
theory Discovery
  imports VectorMap Serialization Transport
begin

text \<open>
  \<^verbatim>\<open>DiscoveryManager\<close> (\<^verbatim>\<open>source/p3com/generic/discovery.cpp\<close>): which services exist on
  this device and on the others, which channels the gateway needs, and which devices a message
  has to be sent to. Callbacks of the class are functions on the pair of the manager's state
  and the rest of the world \<open>'w\<close>. The failure callback of the transport registry sends a
  discovery message, which may disable further layers and call it again; the recursion is
  bounded by fuel, and the theory proves how much is enough.
\<close>

unbundle bit_operations_syntax

section \<open>State\<close>

record local_state =
  userPublishers :: "service_description list"
  ls_userSubscribers :: "service_description list"
  userPublisherPorts :: "u64 list"

record device_record =
  dr_info :: pub_sub_info
  dr_deviceIndices :: "device_index list"

type_synonym device_cache = "(class_hash, device_index list) vector_map"

record remote_state =
  records :: "device_record list"
  deviceIndicesCache :: device_cache

datatype update_callback = Callback_Unset | Callback_Gateway | Callback_Ignore

record discovery =
  m_gatewayHash :: hash
  m_preferredType :: transport_type
  m_remoteState :: remote_state
  m_localState :: local_state
  m_gatewayPublisherUids :: "u64 list"
  m_lastSentDiscoveryInfo :: pub_sub_info
  m_terminateFlag :: bool
  m_updateCallback :: update_callback

text \<open>
  What the manager calls: \<^verbatim>\<open>sendBroadcast\<close> of a transport layer, \<^verbatim>\<open>generateHash\<close> (a random
  number, drawn from the world) and the callback that was passed to \<^verbatim>\<open>initialize\<close>.
\<close>

record 'w disc_env =
  iox :: iox_env
  sendBroadcast :: "transport_layer \<Rightarrow> byte list \<Rightarrow> 'w \<Rightarrow> transport_layer \<times> 'w"
  generateHash :: "'w \<Rightarrow> hash \<times> 'w"
  updateCallback :: "service_description list \<Rightarrow> discovery \<times> 'w \<Rightarrow> (discovery \<times> 'w) result"

section \<open>Discovery messages\<close>

definition empty_info :: pub_sub_info where
  "empty_info = \<lparr>userSubscribers = [], gatewayBitset = 0, gatewayHash = 0, infoHash = 0, isTermination = False\<rparr>"

definition clear_cache :: "discovery \<Rightarrow> discovery" where
  "clear_cache d =
     d\<lparr>m_remoteState := (m_remoteState d)\<lparr>deviceIndicesCache := vm_clear (deviceIndicesCache (m_remoteState d))\<rparr>\<rparr>"

definition generateDiscoveryInfo ::
  "'w disc_env \<Rightarrow> transport_info \<Rightarrow> discovery \<times> 'w \<Rightarrow> pub_sub_info \<times> 'w" where
  "generateDiscoveryInfo D ti = (\<lambda>(d, w).
     case generateHash D w of (h, w') \<Rightarrow>
       (\<lparr>userSubscribers = pushUnique MAX_TOPICS [] (ls_userSubscribers (m_localState d)),
         gatewayBitset = s_bitset ti, gatewayHash = m_gatewayHash d, infoHash = h,
         isTermination = False\<rparr>, w'))"

definition broadcastFn :: "'w disc_env \<Rightarrow> byte list \<Rightarrow> (discovery \<times> 'w) layer_fn" where
  "broadcastFn D bytes = (\<lambda>t (d, w).
     case sendBroadcast D t bytes w of (t', w') \<Rightarrow> Inr (t', (d, w')))"

text \<open>\<^verbatim>\<open>sendDiscoveryInfo\<close>, where \<open>cb\<close> is the failure callback of the registry.\<close>

definition sendDiscoveryInfoWith ::
  "'w disc_env \<Rightarrow> (discovery \<times> 'w) fail_callback option \<Rightarrow> pub_sub_info
     \<Rightarrow> transport_info \<times> (discovery \<times> 'w) \<Rightarrow> (transport_info \<times> (discovery \<times> 'w)) result" where
  "sendDiscoveryInfoWith D cb info s =
     bindR (serializeInfo (iox D) info) (\<lambda>bytes. doForAllEnabled (broadcastFn D bytes) cb s)"

text \<open>The callback that the constructor registers.\<close>

fun transportFailCallback :: "'w disc_env \<Rightarrow> nat \<Rightarrow> (discovery \<times> 'w) fail_callback" where
  "transportFailCallback D 0 ti s = Inl No_Fuel"
| "transportFailCallback D (Suc n) ti (d, w) =
     (let d1 = clear_cache d
      in if \<not> m_terminateFlag d1
         then case generateDiscoveryInfo D ti (d1, w) of
                (info, w') \<Rightarrow> sendDiscoveryInfoWith D (Some (transportFailCallback D n)) info (ti, (d1, w'))
         else Inr (ti, (d1, w)))"

text \<open>Each run of the callback follows the disabling of a layer, so one unit per layer is enough.\<close>

definition callback_fuel :: nat where
  "callback_fuel = TRANSPORT_TYPE_COUNT"

definition sendDiscoveryInfo ::
  "'w disc_env \<Rightarrow> pub_sub_info \<Rightarrow> transport_info \<times> (discovery \<times> 'w)
     \<Rightarrow> (transport_info \<times> (discovery \<times> 'w)) result" where
  "sendDiscoveryInfo D = sendDiscoveryInfoWith D (Some (transportFailCallback D callback_fuel))"

text \<open>\<^verbatim>\<open>sendDiscoveryInfo(generateDiscoveryInfo())\<close>\<close>

definition announce ::
  "'w disc_env \<Rightarrow> transport_info \<times> (discovery \<times> 'w) \<Rightarrow> (transport_info \<times> (discovery \<times> 'w)) result" where
  "announce D = (\<lambda>(ti, (d, w)).
     case generateDiscoveryInfo D ti (d, w) of (info, w') \<Rightarrow> sendDiscoveryInfo D info (ti, (d, w')))"

definition resendDiscoveryInfoToTransport ::
  "'w disc_env \<Rightarrow> transport_type \<Rightarrow> transport_info \<times> (discovery \<times> 'w)
     \<Rightarrow> (transport_info \<times> (discovery \<times> 'w)) result" where
  "resendDiscoveryInfoToTransport D type = (\<lambda>(ti, (d, w)).
     case generateDiscoveryInfo D ti (d, w) of (info, w') \<Rightarrow>
       bindR (serializeInfo (iox D) info) (\<lambda>bytes.
         doFor type (broadcastFn D bytes) (Some (transportFailCallback D callback_fuel)) (ti, (d, w'))))"

section \<open>Life cycle\<close>

definition new_discovery :: "hash \<Rightarrow> transport_type \<Rightarrow> discovery" where
  "new_discovery h preferred =
     \<lparr>m_gatewayHash = h, m_preferredType = preferred,
      m_remoteState = \<lparr>records = [], deviceIndicesCache = vm_empty\<rparr>,
      m_localState = \<lparr>userPublishers = [], ls_userSubscribers = [], userPublisherPorts = []\<rparr>,
      m_gatewayPublisherUids = [], m_lastSentDiscoveryInfo = empty_info,
      m_terminateFlag = False, m_updateCallback = Callback_Unset\<rparr>"

definition initialize ::
  "'w disc_env \<Rightarrow> transport_info \<times> (discovery \<times> 'w) \<Rightarrow> (transport_info \<times> (discovery \<times> 'w)) result" where
  "initialize D = (\<lambda>(ti, (d, w)). announce D (ti, (d\<lparr>m_updateCallback := Callback_Gateway\<rparr>, w)))"

definition deinitialize ::
  "'w disc_env \<Rightarrow> transport_info \<times> (discovery \<times> 'w) \<Rightarrow> (transport_info \<times> (discovery \<times> 'w)) result" where
  "deinitialize D = (\<lambda>(ti, (d, w)).
     let d1 = d\<lparr>m_terminateFlag := True, m_updateCallback := Callback_Ignore\<rparr>
     in case generateDiscoveryInfo D ti (d1, w) of (info, w') \<Rightarrow>
          sendDiscoveryInfo D (info\<lparr>isTermination := True\<rparr>) (ti, (d1, w')))"

definition callUpdate ::
  "'w disc_env \<Rightarrow> service_description list \<Rightarrow> discovery \<times> 'w \<Rightarrow> (discovery \<times> 'w) result" where
  "callUpdate D services = (\<lambda>(d, w).
     case m_updateCallback d of
       Callback_Gateway \<Rightarrow> updateCallback D services (d, w)
     | _ \<Rightarrow> Inr (d, w))"

section \<open>Needed channels\<close>

fun pushRecords :: "service_description list \<Rightarrow> device_record list \<Rightarrow> service_description list" where
  "pushRecords ss [] = ss"
| "pushRecords ss (r # rs) = pushRecords (pushUnique MAX_TOPICS ss (userSubscribers (dr_info r))) rs"

definition updateNeededChannels :: "discovery \<Rightarrow> service_description list" where
  "updateNeededChannels d =
     (let s1 = pushUnique MAX_TOPICS [] (ls_userSubscribers (m_localState d));
          s2 = pushUnique MAX_TOPICS s1 (userPublishers (m_localState d))
      in pushRecords s2 (records (m_remoteState d)))"

section \<open>Local discovery\<close>

text \<open>A port of the introspection topic of RouDi: the node, the service and the port id.\<close>

record port_data =
  m_node :: id_string
  m_service :: service_description
  m_portID :: u64

record port_sample =
  m_publisherList :: "port_data list"
  m_subscriberList :: "port_data list"

definition IOX_GW_NODE_NAME :: id_string where
  "IOX_GW_NODE_NAME = bytes_of ''p3com-gw''"

definition RouDi_ID :: id_string where
  "RouDi_ID = bytes_of ''RouDi_ID''"

definition is_user_port :: "port_data \<Rightarrow> bool" where
  "is_user_port p \<longleftrightarrow> m_node p \<noteq> IOX_GW_NODE_NAME \<and> instanceID (m_service p) \<noteq> RouDi_ID"

definition readSample :: "port_sample \<Rightarrow> local_state" where
  "readSample sample =
     (let pubs = filter is_user_port (m_publisherList sample);
          subs = filter is_user_port (m_subscriberList sample)
      in \<lparr>userPublishers = push_all MAX_TOPICS [] (map m_service pubs),
          ls_userSubscribers = push_all MAX_TOPICS [] (map m_service subs),
          userPublisherPorts = push_all MAX_TOPICS [] (map m_portID pubs)\<rparr>)"

definition empty_local :: local_state where
  "empty_local = \<lparr>userPublishers = [], ls_userSubscribers = [], userPublisherPorts = []\<rparr>"

text \<open>
  \<^verbatim>\<open>readPortSubscriber\<close>; \<open>sample\<close> is what \<^verbatim>\<open>m_portSubscriber.take()\<close> returned, \<open>None\<close> for an
  error (no chunk available, or too many chunks held).
\<close>

definition readPortSubscriber ::
  "'w disc_env \<Rightarrow> port_sample option \<Rightarrow> transport_info \<times> (discovery \<times> 'w)
     \<Rightarrow> (transport_info \<times> (discovery \<times> 'w)) result" where
  "readPortSubscriber D sample = (\<lambda>(ti, (d, w)).
     let newLocalState = (case sample of None \<Rightarrow> empty_local | Some s \<Rightarrow> readSample s);
         old = m_localState d;
         oldUserPublishers = deleteElements (userPublishers old) (userPublishers newLocalState);
         oldUserSubscribers = deleteElements (ls_userSubscribers old) (ls_userSubscribers newLocalState);
         newUserPublishers = deleteElements (userPublishers newLocalState) (userPublishers old);
         newUserSubscribers = deleteElements (ls_userSubscribers newLocalState) (ls_userSubscribers old);
         d1 = d\<lparr>m_localState := newLocalState\<rparr>
     in if oldUserPublishers = [] \<and> oldUserSubscribers = [] \<and> newUserPublishers = [] \<and> newUserSubscribers = []
        then Inr (ti, (d1, w))
        else bindR (callUpdate D (updateNeededChannels d1) (d1, w)) (\<lambda>(d2, w2).
             case generateDiscoveryInfo D ti (d2, w2) of (info, w3) \<Rightarrow>
               if userSubscribers info \<noteq> userSubscribers (m_lastSentDiscoveryInfo d2)
               then bindR (sendDiscoveryInfo D info (ti, (d2, w3))) (\<lambda>(ti', (d3, w4)).
                    Inr (ti', (d3\<lparr>m_lastSentDiscoveryInfo := info\<rparr>, w4)))
               else Inr (ti, (d2, w3))))"

text \<open>The sample published on the gateway introspection topic after each local discovery event.\<close>

record gw_registered_data =
  publisherUids :: "u64 list"
  subscriberServices :: "service_description list"

definition gwIntrospectionSample :: "discovery \<Rightarrow> gw_registered_data" where
  "gwIntrospectionSample d =
     \<lparr>publisherUids = userPublisherPorts (m_localState d),
      subscriberServices = pushUnique MAX_TOPICS [] (ls_userSubscribers (m_localState d))\<rparr>"

section \<open>Remote discovery\<close>

definition empty_record :: device_record where
  "empty_record = \<lparr>dr_info = empty_info, dr_deviceIndices = []\<rparr>"

text \<open>Store the message and the index of the device it came from in a record.\<close>

definition updateRecord :: "pub_sub_info \<Rightarrow> device_index \<Rightarrow> device_record \<Rightarrow> device_record" where
  "updateRecord info deviceIndex r =
     (let r1 = r\<lparr>dr_info := info\<rparr>;
          indexIt = find_if (\<lambda>i. di_type i = di_type deviceIndex) (dr_deviceIndices r1)
      in if indexIt = length (dr_deviceIndices r1)
         then r1\<lparr>dr_deviceIndices := fst (push_back TRANSPORT_TYPE_COUNT (dr_deviceIndices r1) deviceIndex)\<rparr>
         else r1)"

definition set_records :: "device_record list \<Rightarrow> discovery \<Rightarrow> discovery" where
  "set_records rs d = d\<lparr>m_remoteState := (m_remoteState d)\<lparr>records := rs\<rparr>\<rparr>"

text \<open>
  The records after a message that does not announce a termination: a new record is appended
  for a gateway that is not known, and \<^verbatim>\<open>&records.back()\<close> is then updated whether or not
  there was room for it.
\<close>

definition storeRecord :: "pub_sub_info \<Rightarrow> device_index \<Rightarrow> device_record list \<Rightarrow> device_record list" where
  "storeRecord info deviceIndex rs =
     (let recordIt = find_if (\<lambda>r. gatewayHash (dr_info r) = gatewayHash info) rs;
          rs1 = (if recordIt = length rs then fst (push_back MAX_DEVICE_COUNT rs empty_record) else rs);
          it = (if recordIt = length rs then length rs1 - 1 else recordIt)
      in rs1[it := updateRecord info deviceIndex (rs1 ! it)])"

definition receiveRemoteDiscoveryInfo ::
  "'w disc_env \<Rightarrow> byte list \<Rightarrow> nat \<Rightarrow> device_index \<Rightarrow> transport_info \<times> (discovery \<times> 'w)
     \<Rightarrow> (transport_info \<times> (discovery \<times> 'w)) result" where
  "receiveRemoteDiscoveryInfo D serializedData sz deviceIndex = (\<lambda>(ti, (d, w)).
     bindR (deserializeInfo (iox D) serializedData sz) (\<lambda>(info, _).
     let rs = records (m_remoteState d);
         recordIt = find_if (\<lambda>r. gatewayHash (dr_info r) = gatewayHash info) rs
     in if isTermination info
        then Inr (ti, (if recordIt \<noteq> length rs then set_records (erase_at recordIt rs) d else d, w))
        else
          bindR (if recordIt = length rs \<and> \<not> m_terminateFlag d then announce D (ti, (d, w)) else Inr (ti, (d, w)))
            (\<lambda>(ti1, (d1, w1)).
          let d2 = set_records (storeRecord info deviceIndex (records (m_remoteState d1))) d1;
              d3 = clear_cache d2
          in bindR (callUpdate D (updateNeededChannels d3) (d3, w1)) (\<lambda>(d4, w4). Inr (ti1, (d4, w4))))))"

section \<open>Destinations\<close>

definition recordIndex :: "discovery \<Rightarrow> transport_info \<Rightarrow> device_record \<Rightarrow> device_index option" where
  "recordIndex d ti r =
     (let preferredType = findMatchingType (gatewayBitset (dr_info r)) (m_preferredType d) ti
      in if preferredType \<noteq> NONE
         then find (\<lambda>i. di_type i = preferredType) (dr_deviceIndices r)
         else None)"

fun collectIndices ::
  "iox_env \<Rightarrow> discovery \<Rightarrow> transport_info \<Rightarrow> (device_record \<Rightarrow> bool) \<Rightarrow> class_hash
     \<Rightarrow> device_record list \<Rightarrow> device_index list \<Rightarrow> device_index list" where
  "collectIndices E d ti P svcHash [] is = is"
| "collectIndices E d ti P svcHash (r # rs) is =
     collectIndices E d ti P svcHash rs
       (if P r \<and> containsElementHash (getClassHash E) (userSubscribers (dr_info r)) svcHash
        then case recordIndex d ti r of
               None \<Rightarrow> is
             | Some i \<Rightarrow> fst (push_back MAX_DEVICE_COUNT is i)
        else is)"

definition computeDeviceIndices ::
  "iox_env \<Rightarrow> transport_info \<Rightarrow> discovery \<Rightarrow> class_hash \<Rightarrow> device_index list" where
  "computeDeviceIndices E ti d svcHash =
     collectIndices E d ti (\<lambda>_. True) svcHash (records (m_remoteState d)) []"

definition generateDeviceIndices ::
  "iox_env \<Rightarrow> transport_info \<Rightarrow> discovery \<Rightarrow> u64 \<Rightarrow> class_hash \<Rightarrow> discovery \<times> device_index list" where
  "generateDeviceIndices E ti d uid svcHash =
     (if containsElement (m_gatewayPublisherUids d) uid then (d, [])
      else if \<not> containsElement (userPublisherPorts (m_localState d)) uid then (d, [])
      else
        let cache = deviceIndicesCache (m_remoteState d);
            it = vm_find cache svcHash
        in if it = vm_end cache
           then let indices = computeDeviceIndices E ti d svcHash
                in case vm_emplace MAX_TOPICS cache svcHash indices of (cache', emplaced) \<Rightarrow>
                     let d' = d\<lparr>m_remoteState := (m_remoteState d)\<lparr>deviceIndicesCache := cache'\<rparr>\<rparr>
                     in if \<not> emplaced then (d', []) else (d', last (m_elems cache'))
           else (d, m_elems cache ! it))"

fun sourceBitset :: "device_record list \<Rightarrow> device_index \<Rightarrow> bitset \<Rightarrow> bitset" where
  "sourceBitset [] fromDeviceIndex b = b"
| "sourceBitset (r # rs) fromDeviceIndex b =
     sourceBitset rs fromDeviceIndex
       (if containsElement (dr_deviceIndices r) fromDeviceIndex then gatewayBitset (dr_info r) else b)"

definition generateDeviceIndicesForwarding ::
  "iox_env \<Rightarrow> transport_info \<Rightarrow> discovery \<Rightarrow> class_hash \<Rightarrow> device_index \<Rightarrow> device_index list" where
  "generateDeviceIndicesForwarding E ti d svcHash fromDeviceIndex =
     (let fromDeviceBitset = sourceBitset (records (m_remoteState d)) fromDeviceIndex 0
      in if fromDeviceBitset = 0 then []
         else collectIndices E d ti (\<lambda>r. fromDeviceBitset AND gatewayBitset (dr_info r) = 0) svcHash
                (records (m_remoteState d)) [])"

section \<open>Publishers of the gateway\<close>

definition addGatewayPublisher :: "iox_env \<Rightarrow> u64 \<Rightarrow> discovery \<Rightarrow> discovery" where
  "addGatewayPublisher E uid d =
     d\<lparr>m_gatewayPublisherUids := fst (push_back (maxPublishers E) (m_gatewayPublisherUids d) uid)\<rparr>"

definition discardGatewayPublisher :: "u64 \<Rightarrow> discovery \<Rightarrow> discovery" where
  "discardGatewayPublisher uid d =
     d\<lparr>m_gatewayPublisherUids := deleteElement (m_gatewayPublisherUids d) uid\<rparr>"

section \<open>Sending terminates\<close>

text \<open>
  The contract of \<^verbatim>\<open>sendBroadcast\<close>: it may mark its layer as failed, nothing else about the
  layer changes. \<open>W\<close> is an invariant of the rest of the world that it keeps, as does drawing a
  hash.
\<close>

locale broadcast_layer =
  fixes D :: "'w disc_env"
    and W :: "'w \<Rightarrow> bool"
  assumes broadcast_type: "isGood t \<Longrightarrow> sendBroadcast D t bytes w = (t', w') \<Longrightarrow> getType t' = getType t"
    and broadcast_status: "isGood t \<Longrightarrow> sendBroadcast D t bytes w = (t', w') \<Longrightarrow> m_status t' \<noteq> DISABLED"
    and broadcast_world: "isGood t \<Longrightarrow> sendBroadcast D t bytes w = (t', w') \<Longrightarrow> W w \<Longrightarrow> W w'"
    and hash_world: "generateHash D w = (h, w') \<Longrightarrow> W w \<Longrightarrow> W w'"

definition wf_local :: "iox_env \<Rightarrow> discovery \<Rightarrow> bool" where
  "wf_local E d \<longleftrightarrow> (\<forall>s \<in> set (ls_userSubscribers (m_localState d)). wf_service E s)"

lemma clear_cache_fields [simp]:
  "m_localState (clear_cache d) = m_localState d" "records (m_remoteState (clear_cache d)) = records (m_remoteState d)"
  "m_terminateFlag (clear_cache d) = m_terminateFlag d" "m_preferredType (clear_cache d) = m_preferredType d"
  "m_gatewayHash (clear_cache d) = m_gatewayHash d" "m_updateCallback (clear_cache d) = m_updateCallback d"
  "m_gatewayPublisherUids (clear_cache d) = m_gatewayPublisherUids d"
  "m_lastSentDiscoveryInfo (clear_cache d) = m_lastSentDiscoveryInfo d"
  "deviceIndicesCache (m_remoteState (clear_cache d)) = vm_empty"
  by (simp_all add: clear_cache_def vm_clear_def vm_empty_def)

lemma clear_cache_idem [simp]: "clear_cache (clear_cache d) = clear_cache d"
  by (simp add: clear_cache_def vm_clear_def)

lemma wf_local_clear [simp]: "wf_local E (clear_cache d) = wf_local E d"
  by (simp add: wf_local_def)

lemma generateDiscoveryInfo_fields:
  assumes "generateDiscoveryInfo D ti (d, w) = (info, w')"
  shows "userSubscribers info = pushUnique MAX_TOPICS [] (ls_userSubscribers (m_localState d))"
    and "gatewayBitset info = s_bitset ti" and "gatewayHash info = m_gatewayHash d"
    and "\<not> isTermination info"
  using assms by (auto simp: generateDiscoveryInfo_def split: prod.splits)

lemma generateDiscoveryInfo_wf:
  assumes "wf_local E d" "generateDiscoveryInfo D ti (d, w) = (info, w')"
  shows "wf_info E info"
proof -
  have "set (userSubscribers info) \<subseteq> set (ls_userSubscribers (m_localState d))"
    using pushUnique_subset [of "[]" MAX_TOPICS "ls_userSubscribers (m_localState d)"]
    by (simp add: generateDiscoveryInfo_fields(1) [OF assms(2)])
  moreover have "length (userSubscribers info) \<le> MAX_TOPICS"
    using pushUnique_bounded [of "[]" MAX_TOPICS] generateDiscoveryInfo_fields(1) [OF assms(2)] by auto
  ultimately show ?thesis using assms(1) by (auto simp: wf_info_def wf_local_def)
qed

abbreviation cache_cleared :: "discovery \<Rightarrow> discovery \<times> 'w \<Rightarrow> bool" where
  "cache_cleared d s \<equiv> fst s = clear_cache d"

abbreviation at_most_cleared :: "discovery \<Rightarrow> discovery \<times> 'w \<Rightarrow> bool" where
  "at_most_cleared d s \<equiv> fst s = d \<or> fst s = clear_cache d"

sublocale broadcast_layer \<subseteq> layer_client "broadcastFn D bytes" for bytes
  by unfold_locales
    (auto simp: broadcastFn_def split: prod.splits dest: broadcast_type broadcast_status)

sublocale broadcast_layer \<subseteq> total_client "broadcastFn D bytes" "\<lambda>s. at_most_cleared d s \<and> W (snd s)" for bytes d
  by unfold_locales (auto simp: broadcastFn_def split: prod.splits dest: broadcast_world)

context broadcast_layer
begin

lemma generateDiscoveryInfo_world:
  "generateDiscoveryInfo D ti (d, w) = (info, w') \<Longrightarrow> W w \<Longrightarrow> W w'"
  by (auto simp: generateDiscoveryInfo_def split: prod.splits dest: hash_world)

abbreviation kept :: "discovery \<Rightarrow> discovery \<times> 'w \<Rightarrow> bool" where
  "kept d s \<equiv> at_most_cleared d s \<and> W (snd s)"

abbreviation reset :: "discovery \<Rightarrow> discovery \<times> 'w \<Rightarrow> bool" where
  "reset d s \<equiv> cache_cleared d s \<and> W (snd s)"

lemma sendWith_total:
  assumes "adequate K (kept d) (reset d) f" "wf_info (iox D) info"
    and "ti_wf ti" "active ti \<le> K" "kept d s"
  shows "\<exists>ti' s'. sendDiscoveryInfoWith D (Some f) info (ti, s) = Inr (ti', s') \<and> ti_wf ti' \<and>
    active ti' \<le> active ti \<and> kept d s' \<and> (ti' = ti \<or> reset d s')"
  using doForAllEnabled_total [OF assms(1) _ assms(3-5)] assms(2)
  by (simp add: sendDiscoveryInfoWith_def serializeInfo_ok)

lemma callback_adequate:
  "wf_local (iox D) d \<Longrightarrow> adequate n (kept d) (reset d) (transportFailCallback D n)"
proof (induction n arbitrary: d)
  case 0
  then show ?case by (simp add: adequate_def)
next
  case (Suc n)
  show ?case
    unfolding adequate_def
  proof (intro allI impI)
    fix ti and s :: "discovery \<times> 'w"
    assume wf: "ti_wf ti" and act: "active ti < Suc n" and I: "kept d s"
    obtain d0 w where s: "s = (d0, w)" by fastforce
    have d1: "clear_cache d0 = clear_cache d" and W: "W w" using I s by auto
    obtain info w' where info: "generateDiscoveryInfo D ti (clear_cache d, w) = (info, w')" by fastforce
    have ok: "wf_info (iox D) info" "W w'"
      using generateDiscoveryInfo_wf [OF _ info] generateDiscoveryInfo_world [OF info W] Suc.prems by simp_all
    obtain ti' s' where run: "sendDiscoveryInfoWith D (Some (transportFailCallback D n)) info (ti, (clear_cache d, w'))
        = Inr (ti', s')" "ti_wf ti'" "active ti' \<le> active ti" "kept (clear_cache d) s'"
      using sendWith_total [OF Suc.IH [of "clear_cache d"] ok(1) wf, of "(clear_cache d, w')"] Suc.prems act ok(2)
      by auto
    then show "\<exists>ti' s'. transportFailCallback D (Suc n) ti s = Inr (ti', s') \<and> ti_wf ti' \<and>
        active ti' \<le> active ti \<and> reset d s'"
      using wf d1 info W clear_cache_fields(3) [of d0] clear_cache_fields(3) [of d]
      by (cases s', cases "m_terminateFlag d") (auto simp: s)
  qed
qed

lemma send_total:
  assumes "ti_wf ti" "wf_local (iox D) d" "wf_info (iox D) info" "W w"
  shows "\<exists>ti' s'. sendDiscoveryInfo D info (ti, (d, w)) = Inr (ti', s') \<and> ti_wf ti' \<and>
    active ti' \<le> active ti \<and> kept d s' \<and> (ti' = ti \<or> reset d s')"
  unfolding sendDiscoveryInfo_def
  using sendWith_total [OF callback_adequate [OF assms(2)] assms(3,1)] active_le [OF assms(1)] assms(4)
  by (simp add: callback_fuel_def)

lemma announce_total:
  assumes "ti_wf ti" "wf_local (iox D) d" "W w"
  shows "\<exists>ti' s'. announce D (ti, (d, w)) = Inr (ti', s') \<and> ti_wf ti' \<and>
    active ti' \<le> active ti \<and> kept d s' \<and> (ti' = ti \<or> reset d s')"
proof -
  obtain info w' where info: "generateDiscoveryInfo D ti (d, w) = (info, w')" by fastforce
  then show ?thesis
    using send_total [OF assms(1,2) generateDiscoveryInfo_wf [OF assms(2) info] generateDiscoveryInfo_world [OF info assms(3)]]
    by (simp add: announce_def)
qed

lemma resend_total:
  assumes "ti_wf ti" "wf_local (iox D) d" "W w" "index type < TRANSPORT_TYPE_COUNT"
  shows "\<exists>ti' s'. resendDiscoveryInfoToTransport D type (ti, (d, w)) = Inr (ti', s') \<and> ti_wf ti' \<and>
    active ti' \<le> active ti \<and> kept d s' \<and> (ti' = ti \<or> reset d s')"
proof -
  obtain info w' where info: "generateDiscoveryInfo D ti (d, w) = (info, w')" by fastforce
  have "kept d (d, w')" using generateDiscoveryInfo_world [OF info assms(3)] by simp
  from doFor_total [OF callback_adequate [OF assms(2)] _ assms(1) _ this assms(4), of callback_fuel] show ?thesis
    using info active_le [OF assms(1)] generateDiscoveryInfo_wf [OF assms(2) info]
    by (simp add: resendDiscoveryInfoToTransport_def serializeInfo_ok callback_fuel_def)
qed

end

section \<open>Needed channels and announced subscribers\<close>

lemma pushUnique_append: "pushUnique cap (pushUnique cap a b) c = pushUnique cap a (b @ c)"
  by (induction b arbitrary: a) simp_all

lemma pushRecords_eq:
  "pushRecords ss rs = pushUnique MAX_TOPICS ss (concat (map (\<lambda>r. userSubscribers (dr_info r)) rs))"
  by (induction rs arbitrary: ss) (simp_all add: pushUnique_append)

definition allServices :: "discovery \<Rightarrow> service_description list" where
  "allServices d = ls_userSubscribers (m_localState d) @ userPublishers (m_localState d) @
     concat (map (\<lambda>r. userSubscribers (dr_info r)) (records (m_remoteState d)))"

lemma updateNeededChannels_eq: "updateNeededChannels d = pushUnique MAX_TOPICS [] (allServices d)"
  by (simp add: updateNeededChannels_def pushRecords_eq pushUnique_append allServices_def)

section \<open>Destinations\<close>

definition destination ::
  "iox_env \<Rightarrow> discovery \<Rightarrow> transport_info \<Rightarrow> (device_record \<Rightarrow> bool) \<Rightarrow> class_hash \<Rightarrow> device_record
     \<Rightarrow> device_index option" where
  "destination E d ti P h r =
     (if P r \<and> (\<exists>s \<in> set (userSubscribers (dr_info r)). getClassHash E s = h) then recordIndex d ti r else None)"

lemma collectIndices_eq:
  "collectIndices E d ti P h rs is = push_all MAX_DEVICE_COUNT is (List.map_filter (destination E d ti P h) rs)"
  by (induction rs arbitrary: "is") (auto simp: destination_def map_filter_simps split: option.splits)

lemma length_map_filter: "length (List.map_filter f xs) \<le> length xs"
  by (induction xs) (auto simp: map_filter_simps split: option.splits)

lemma collectIndices_all:
  assumes "length rs \<le> MAX_DEVICE_COUNT"
  shows "collectIndices E d ti P h rs [] = List.map_filter (destination E d ti P h) rs"
  using length_map_filter [of "destination E d ti P h" rs] assms
  by (simp add: collectIndices_eq push_all_take)

lemma recordIndex_Some:
  assumes "recordIndex d ti r = Some i" "ti_wf ti"
  shows "i \<in> set (dr_deviceIndices r) \<and> di_type i \<noteq> NONE \<and>
    bit (gatewayBitset (dr_info r)) (index (di_type i)) \<and> bit (s_bitset ti) (index (di_type i))"
proof -
  let ?ty = "findMatchingType (gatewayBitset (dr_info r)) (m_preferredType d) ti"
  have ne: "?ty \<noteq> NONE" and "find (\<lambda>i. di_type i = ?ty) (dr_deviceIndices r) = Some i"
    using assms(1) by (auto simp: recordIndex_def split: if_splits)
  then have "i \<in> set (dr_deviceIndices r)" "di_type i = ?ty"
    by (auto simp: find_Some_iff)
  then show ?thesis using findMatchingType_common [OF assms(2) refl ne] ne by simp
qed

section \<open>Invariant\<close>

definition wf_record :: "device_record \<Rightarrow> bool" where
  "wf_record r \<longleftrightarrow> distinct (map di_type (dr_deviceIndices r)) \<and> length (dr_deviceIndices r) \<le> TRANSPORT_TYPE_COUNT"

abbreviation record_hashes :: "device_record list \<Rightarrow> hash list" where
  "record_hashes rs \<equiv> map (\<lambda>r. gatewayHash (dr_info r)) rs"

definition wf_records :: "device_record list \<Rightarrow> bool" where
  "wf_records rs \<longleftrightarrow> length rs \<le> MAX_DEVICE_COUNT \<and> distinct (record_hashes rs) \<and> (\<forall>r \<in> set rs. wf_record r)"

definition disc_inv :: "discovery \<Rightarrow> bool" where
  "disc_inv d \<longleftrightarrow> wf_records (records (m_remoteState d)) \<and> vm_invar MAX_TOPICS (deviceIndicesCache (m_remoteState d))"

definition cache_coherent :: "iox_env \<Rightarrow> transport_info \<Rightarrow> discovery \<Rightarrow> bool" where
  "cache_coherent E ti d \<longleftrightarrow> (\<forall>h is. vm_lookup (deviceIndicesCache (m_remoteState d)) h = Some is
     \<longrightarrow> is = computeDeviceIndices E ti d h)"

lemma new_discovery_inv: "disc_inv (new_discovery h ty) \<and> cache_coherent E ti (new_discovery h ty)"
  by (simp add: disc_inv_def wf_records_def new_discovery_def cache_coherent_def vm.invar_empty vm.lookup_empty)

lemma clear_cache_inv: "disc_inv d \<Longrightarrow> disc_inv (clear_cache d)"
  by (simp add: disc_inv_def vm.invar_empty)

lemma clear_cache_coherent: "cache_coherent E ti (clear_cache d)"
  by (simp add: cache_coherent_def vm.lookup_empty)

lemma updateRecord_wf:
  assumes "wf_record r"
  shows "wf_record (updateRecord info i r)"
proof -
  let ?is = "dr_deviceIndices r"
  have "wf_record (r\<lparr>dr_info := info, dr_deviceIndices := fst (push_back TRANSPORT_TYPE_COUNT ?is i)\<rparr>)"
    if "\<forall>x \<in> set ?is. di_type x \<noteq> di_type i"
    using that assms by (auto simp: wf_record_def push_back_def)
  then show ?thesis
    using assms by (auto simp: updateRecord_def find_if_end wf_record_def)
qed

lemma updateRecord_info [simp]: "dr_info (updateRecord info i r) = info"
  by (simp add: updateRecord_def)

text \<open>The three cases of storing a message: known gateway, room for a new one, no room.\<close>

lemma storeRecord_known:
  assumes "gatewayHash info \<in> set (record_hashes rs)"
  shows "\<exists>k < length rs. gatewayHash (dr_info (rs ! k)) = gatewayHash info \<and>
    storeRecord info i rs = rs[k := updateRecord info i (rs ! k)]"
proof -
  let ?k = "find_if (\<lambda>r. gatewayHash (dr_info r) = gatewayHash info) rs"
  have "\<exists>r \<in> set rs. gatewayHash (dr_info r) = gatewayHash info" using assms by force
  then have k: "?k < length rs" by (simp add: find_if_less)
  then show ?thesis using find_if_nth [OF k] by (auto simp: storeRecord_def)
qed

lemma find_unknown:
  "gatewayHash info \<notin> set (record_hashes rs) \<Longrightarrow>
     find_if (\<lambda>r. gatewayHash (dr_info r) = gatewayHash info) rs = length rs"
  by (force simp: find_if_end)

lemma storeRecord_new:
  assumes "gatewayHash info \<notin> set (record_hashes rs)" "length rs < MAX_DEVICE_COUNT"
  shows "storeRecord info i rs = rs @ [\<lparr>dr_info = info, dr_deviceIndices = [i]\<rparr>]"
  using assms
  by (simp add: storeRecord_def find_unknown push_back_def updateRecord_def empty_record_def TRANSPORT_TYPE_COUNT_def)

lemma storeRecord_full:
  assumes "gatewayHash info \<notin> set (record_hashes rs)" "length rs = MAX_DEVICE_COUNT"
  shows "storeRecord info i rs = butlast rs @ [updateRecord info i (last rs)]"
proof -
  have ne: "rs \<noteq> []" using assms(2) by (auto simp: MAX_DEVICE_COUNT_def)
  then have "storeRecord info i rs = rs[length rs - 1 := updateRecord info i (last rs)]"
    using assms by (simp add: storeRecord_def find_unknown push_back_def last_conv_nth)
  then show ?thesis using ne by (metis append_butlast_last_id list_update_length length_butlast)
qed

lemma storeRecord_wf:
  assumes "wf_records rs"
  shows "wf_records (storeRecord info i rs)"
proof (cases "gatewayHash info \<in> set (record_hashes rs)")
  case True
  then obtain k where k: "k < length rs" "gatewayHash (dr_info (rs ! k)) = gatewayHash info"
    "storeRecord info i rs = rs[k := updateRecord info i (rs ! k)]"
    using storeRecord_known by blast
  then have "record_hashes (storeRecord info i rs) = record_hashes rs"
    by (simp add: map_update list_update_same_conv)
  moreover have "\<forall>r \<in> set (storeRecord info i rs). wf_record r"
    using assms k updateRecord_wf set_update_subset_insert [of rs k]
    by (auto simp: wf_records_def dest!: subsetD [OF set_update_subset_insert])
  ultimately show ?thesis using assms k by (simp add: wf_records_def)
next
  case False
  show ?thesis
  proof (cases "length rs < MAX_DEVICE_COUNT")
    case True
    then show ?thesis
      using False assms by (simp add: storeRecord_new wf_records_def wf_record_def TRANSPORT_TYPE_COUNT_def)
  next
    case full: False
    then have len: "length rs = MAX_DEVICE_COUNT" using assms by (simp add: wf_records_def)
    then have ne: "rs \<noteq> []" by (auto simp: MAX_DEVICE_COUNT_def)
    then have rs: "rs = butlast rs @ [last rs]" by simp
    have "distinct (record_hashes (butlast rs))" "gatewayHash info \<notin> set (record_hashes (butlast rs))"
      using assms False distinct_butlast [of "record_hashes rs"]
      by (auto simp: wf_records_def map_butlast dest: in_set_butlastD)
    moreover have "wf_record (updateRecord info i (last rs))"
      using assms ne by (intro updateRecord_wf) (simp add: wf_records_def)
    moreover have "\<forall>r \<in> set (butlast rs). wf_record r"
      using assms by (auto simp: wf_records_def dest: in_set_butlastD)
    ultimately show ?thesis
      using len by (auto simp: storeRecord_full [OF False len] wf_records_def MAX_DEVICE_COUNT_def)
  qed
qed

section \<open>Operations keep the invariant\<close>

lemma destination_cong:
  assumes "m_preferredType d' = m_preferredType d"
  shows "destination E d' ti P h r = destination E d ti P h r"
  using assms by (simp add: destination_def recordIndex_def cong: if_cong)

lemma computeDeviceIndices_cong:
  assumes "m_preferredType d' = m_preferredType d" "records (m_remoteState d') = records (m_remoteState d)"
  shows "computeDeviceIndices E ti d' h = computeDeviceIndices E ti d h"
proof -
  have "destination E d' ti P h = destination E d ti P h" for P
    by (rule ext) (rule destination_cong [OF assms(1)])
  then show ?thesis using assms(2) by (simp add: computeDeviceIndices_def collectIndices_eq)
qed

lemma cache_coherent_cong:
  assumes "m_preferredType d' = m_preferredType d" "m_remoteState d' = m_remoteState d"
  shows "cache_coherent E ti d' = cache_coherent E ti d"
proof -
  have "computeDeviceIndices E ti d' h = computeDeviceIndices E ti d h" for h
    using assms by (intro computeDeviceIndices_cong) simp_all
  then show ?thesis using assms(2) by (simp add: cache_coherent_def)
qed

lemma disc_inv_cong: "m_remoteState d' = m_remoteState d \<Longrightarrow> disc_inv d' = disc_inv d"
  by (simp add: disc_inv_def)

lemma vm_emplace_back:
  "vm_wf cap m \<Longrightarrow> vm_size m < cap \<Longrightarrow> last (m_elems (fst (vm_emplace cap m k v))) = v"
  by (simp add: vm_emplace_room)

abbreviation known_publisher :: "discovery \<Rightarrow> u64 \<Rightarrow> bool" where
  "known_publisher d uid \<equiv>
     uid \<notin> set (m_gatewayPublisherUids d) \<and> uid \<in> set (userPublisherPorts (m_localState d))"

lemma generateDeviceIndices_unknown:
  "\<not> known_publisher d uid \<Longrightarrow> generateDeviceIndices E ti d uid h = (d, [])"
  by (auto simp: generateDeviceIndices_def)

lemma generateDeviceIndices_known:
  assumes "disc_inv d" "cache_coherent E ti d" "known_publisher d uid"
  defines "cache \<equiv> deviceIndicesCache (m_remoteState d)"
  shows "\<exists>cache'. generateDeviceIndices E ti d uid h =
      (d\<lparr>m_remoteState := (m_remoteState d)\<lparr>deviceIndicesCache := cache'\<rparr>\<rparr>,
       if vm_lookup cache h = None \<and> vm_size cache = MAX_TOPICS then [] else computeDeviceIndices E ti d h) \<and>
    vm_invar MAX_TOPICS cache' \<and>
    vm_lookup cache' = (if vm_lookup cache h = None \<and> vm_size cache = MAX_TOPICS then vm_lookup cache
                        else (vm_lookup cache)(h \<mapsto> computeDeviceIndices E ti d h))"
proof -
  let ?v = "computeDeviceIndices E ti d h"
  have inv: "vm_invar MAX_TOPICS cache" and wf: "vm_wf MAX_TOPICS cache"
    using assms(1) by (simp_all add: disc_inv_def cache_def vm_invar_def)
  from wf show ?thesis
  proof (cases rule: vm_find_cases [where k = h])
    case present
    then have "m_elems cache ! vm_find cache h = ?v"
      using assms(2) by (simp add: cache_coherent_def cache_def)
    then have "generateDeviceIndices E ti d uid h = (d, ?v)"
      using present assms(3) by (simp add: generateDeviceIndices_def cache_def)
    moreover have "vm_lookup cache = (vm_lookup cache)(h \<mapsto> ?v)"
      using present assms(2) by (auto simp: cache_coherent_def cache_def)
    ultimately show ?thesis using present inv by (intro exI [of _ cache]) (auto simp: cache_def)
  next
    case absent
    note gen = generateDeviceIndices_def [of E ti d uid h, folded cache_def]
    show ?thesis
    proof (cases "vm_size cache < MAX_TOPICS")
      case True
      then obtain cache' where acc: "vm_emplace MAX_TOPICS cache h ?v = (cache', True)"
        using vm.emplace_accepts [OF inv, of h ?v] by (metis prod.collapse)
      then have "vm_invar MAX_TOPICS cache'" "vm_lookup cache' = (vm_lookup cache)(h \<mapsto> ?v)" "last (m_elems cache') = ?v"
        using vm.invar_emplace [OF inv absent(3), of ?v] vm.lookup_emplace [OF inv _ absent(3), of ?v]
          vm_emplace_back [OF wf True, of h ?v] by simp_all
      then show ?thesis
        using absent(1,3) True assms(3) acc by (intro exI [of _ cache']) (simp add: gen)
    next
      case False
      then have "vm_size cache = MAX_TOPICS" using wf by (simp add: vm_wf_def vm_size_def)
      then show ?thesis
        using absent False assms(3) inv by (intro exI [of _ cache]) (auto simp: gen vm_emplace_full [OF wf])
    qed
  qed
qed

lemma generateDeviceIndices_inv:
  assumes "disc_inv d" "cache_coherent E ti d" "generateDeviceIndices E ti d uid h = (d', is)"
  shows "disc_inv d' \<and> cache_coherent E ti d'"
proof (cases "known_publisher d uid")
  case True
  show ?thesis
  proof -
    obtain cache' where d': "d' = d\<lparr>m_remoteState := (m_remoteState d)\<lparr>deviceIndicesCache := cache'\<rparr>\<rparr>"
      and inv: "vm_invar MAX_TOPICS cache'"
      and look: "vm_lookup cache' = (if vm_lookup (deviceIndicesCache (m_remoteState d)) h = None \<and>
          vm_size (deviceIndicesCache (m_remoteState d)) = MAX_TOPICS then vm_lookup (deviceIndicesCache (m_remoteState d))
        else (vm_lookup (deviceIndicesCache (m_remoteState d)))(h \<mapsto> computeDeviceIndices E ti d h))"
      using generateDeviceIndices_known [OF assms(1,2) True, of h] assms(3) by auto
    have "computeDeviceIndices E ti d' h' = computeDeviceIndices E ti d h'" for h'
      unfolding d' by (rule computeDeviceIndices_cong) simp_all
    then show ?thesis
      using assms(1,2) inv look by (simp add: d' disc_inv_def cache_coherent_def)
  qed
next
  case False
  then show ?thesis using generateDeviceIndices_unknown [OF False, of E ti h] assms by simp
qed

text \<open>
  Whatever the callback does before it runs out of fuel, it keeps the registry invariant; so
  the functions the manager runs on the registry, with this callback, are its clients.
\<close>

context broadcast_layer
begin

lemma callback_handler: "fail_handler (Some (transportFailCallback D n))"
proof (induction n)
  case 0
  then show ?case by unfold_locales auto
next
  case (Suc n)
  have step: "ti_wf ti' \<and> active ti' \<le> active ti"
    if wf: "ti_wf ti" and run: "transportFailCallback D (Suc n) ti s = Inr (ti', s')" for ti s ti' s'
  proof (cases "m_terminateFlag (fst s)")
    case True
    then show ?thesis using wf run by (cases s) auto
  next
    case False
    then obtain bytes s1 where "doForAllEnabled (broadcastFn D bytes) (Some (transportFailCallback D n)) (ti, s1) = Inr (ti', s')"
      using run by (cases s) (auto simp: sendDiscoveryInfoWith_def result_simps split: prod.splits)
    then show ?thesis
      using registry_client.doForAllEnabled_wf [OF registry_client.intro [OF layer_client_axioms Suc.IH] wf] by blast
  qed
  then show ?case by unfold_locales (auto simp del: transportFailCallback.simps)
qed

end

sublocale broadcast_layer \<subseteq> registry: registry_client "broadcastFn D bytes" "Some (transportFailCallback D n)" for bytes n
  using registry_client.intro [OF layer_client_axioms callback_handler] .

text \<open>
  The contract of the update callback: it may change the set of publishers of the gateway,
  nothing else of the manager.
\<close>

locale discovery_env = broadcast_layer D W for D :: "'w disc_env" and W +
  assumes update_ok: "W w \<Longrightarrow>
    \<exists>uids w'. updateCallback D ss (d, w) = Inr (d\<lparr>m_gatewayPublisherUids := uids\<rparr>, w') \<and> W w'"
begin

lemma callUpdate_ok:
  assumes "W w"
  shows "\<exists>uids w'. callUpdate D ss (d, w) = Inr (d\<lparr>m_gatewayPublisherUids := uids\<rparr>, w') \<and> W w'"
proof (cases "m_updateCallback d = Callback_Gateway")
  case True
  then show ?thesis using update_ok [OF assms] by (simp add: callUpdate_def)
next
  case False
  then have "callUpdate D ss (d, w) = Inr (d\<lparr>m_gatewayPublisherUids := m_gatewayPublisherUids d\<rparr>, w)"
    by (cases "m_updateCallback d") (simp_all add: callUpdate_def)
  then show ?thesis using assms by blast
qed

lemma receive_ok:
  assumes "ti_wf ti" "wf_local (iox D) d" "W w"
    and "deserializeInfo (iox D) bytes sz = Inr (info, n)" "\<not> isTermination info"
  shows "\<exists>ti' d' w'. receiveRemoteDiscoveryInfo D bytes sz dev (ti, (d, w)) = Inr (ti', (d', w')) \<and> ti_wf ti' \<and> W w' \<and>
    records (m_remoteState d') = storeRecord info dev (records (m_remoteState d)) \<and>
    deviceIndicesCache (m_remoteState d') = vm_empty \<and> m_localState d' = m_localState d \<and>
    m_preferredType d' = m_preferredType d"
proof -
  let ?rs = "records (m_remoteState d)"
  let ?new = "find_if (\<lambda>r. gatewayHash (dr_info r) = gatewayHash info) ?rs = length ?rs \<and> \<not> m_terminateFlag d"
  have "\<exists>ti1 s1. (if ?new then announce D (ti, (d, w)) else Inr (ti, (d, w))) = Inr (ti1, s1) \<and>
      ti_wf ti1 \<and> kept d s1"
    using announce_total [OF assms(1-3)] assms(1,3) by auto
  then obtain ti1 d1 w1 where 1: "(if ?new then announce D (ti, (d, w)) else Inr (ti, (d, w))) = Inr (ti1, (d1, w1))"
    "ti_wf ti1" "d1 = d \<or> d1 = clear_cache d" "W w1" by fastforce
  let ?d3 = "clear_cache (set_records (storeRecord info dev (records (m_remoteState d1))) d1)"
  obtain uids w4 where 4: "callUpdate D (updateNeededChannels ?d3) (?d3, w1)
      = Inr (?d3\<lparr>m_gatewayPublisherUids := uids\<rparr>, w4)" "W w4"
    using callUpdate_ok [OF 1(4)] by blast
  have "receiveRemoteDiscoveryInfo D bytes sz dev (ti, (d, w)) = Inr (ti1, (?d3\<lparr>m_gatewayPublisherUids := uids\<rparr>, w4))"
    using assms(4,5) 1(1) 4(1) by (simp add: receiveRemoteDiscoveryInfo_def)
  then show ?thesis using 1(2,3) 4(2) by (auto simp: set_records_def)
qed

text \<open>Local discovery: the local state becomes what the sample says, empty if there was none.\<close>

lemma read_ok:
  assumes "ti_wf ti" "W w"
    and new: "new = (case sample of None \<Rightarrow> empty_local | Some s \<Rightarrow> readSample s)"
    and "\<forall>s \<in> set (ls_userSubscribers new). wf_service (iox D) s"
  shows "\<exists>ti' d' w'. readPortSubscriber D sample (ti, (d, w)) = Inr (ti', (d', w')) \<and> ti_wf ti' \<and> W w' \<and>
    m_localState d' = new \<and> records (m_remoteState d') = records (m_remoteState d) \<and>
    m_preferredType d' = m_preferredType d \<and>
    deviceIndicesCache (m_remoteState d') \<in> {deviceIndicesCache (m_remoteState d), vm_empty}"
proof -
  let ?d1 = "d\<lparr>m_localState := new\<rparr>"
  let ?same = "deleteElements (userPublishers (m_localState d)) (userPublishers new) = [] \<and>
    deleteElements (ls_userSubscribers (m_localState d)) (ls_userSubscribers new) = [] \<and>
    deleteElements (userPublishers new) (userPublishers (m_localState d)) = [] \<and>
    deleteElements (ls_userSubscribers new) (ls_userSubscribers (m_localState d)) = []"
  obtain uids w2 where upd: "callUpdate D (updateNeededChannels ?d1) (?d1, w) = Inr (?d1\<lparr>m_gatewayPublisherUids := uids\<rparr>, w2)" "W w2"
    using callUpdate_ok [OF assms(2)] by blast
  let ?d2 = "?d1\<lparr>m_gatewayPublisherUids := uids\<rparr>"
  obtain info w3 where info: "generateDiscoveryInfo D ti (?d2, w2) = (info, w3)" by fastforce
  have wf: "wf_local (iox D) ?d2" using assms(4) by (simp add: wf_local_def)
  have W3: "W w3" using generateDiscoveryInfo_world [OF info upd(2)] .
  obtain ti' d3 w4 where send: "sendDiscoveryInfo D info (ti, (?d2, w3)) = Inr (ti', (d3, w4))" "ti_wf ti'" "W w4"
    "d3 = ?d2 \<or> d3 = clear_cache ?d2"
    using send_total [OF assms(1) wf generateDiscoveryInfo_wf [OF wf info] W3] by fastforce
  have "readPortSubscriber D sample (ti, (d, w)) =
      (if ?same then Inr (ti, (?d1, w))
       else if userSubscribers info \<noteq> userSubscribers (m_lastSentDiscoveryInfo d)
       then Inr (ti', (d3\<lparr>m_lastSentDiscoveryInfo := info\<rparr>, w4)) else Inr (ti, (?d2, w3)))"
    using upd(1) info send(1) by (simp add: readPortSubscriber_def flip: new)
  then show ?thesis using assms(1,2) send W3 by auto
qed

end

lemma receive_termination:
  assumes "deserializeInfo (iox D) bytes sz = Inr (info, n)" "isTermination info"
  shows "\<exists>d'. receiveRemoteDiscoveryInfo D bytes sz dev (ti, (d, w)) = Inr (ti, (d', w)) \<and>
    records (m_remoteState d') = erase_at (find_if (\<lambda>r. gatewayHash (dr_info r) = gatewayHash info)
      (records (m_remoteState d))) (records (m_remoteState d)) \<and>
    d' = set_records (records (m_remoteState d')) d"
  using assms by (auto simp: receiveRemoteDiscoveryInfo_def set_records_def)

lemma erase_record:
  assumes "distinct (record_hashes rs)"
  shows "erase_at (find_if (\<lambda>r. gatewayHash (dr_info r) = h) rs) rs = filter (\<lambda>r. gatewayHash (dr_info r) \<noteq> h) rs"
  using assms
proof (induction rs)
  case (Cons r rs)
  then have "\<forall>x \<in> set rs. gatewayHash (dr_info x) \<noteq> gatewayHash (dr_info r)"
    by (auto simp: image_iff)
  then have "filter (\<lambda>r'. gatewayHash (dr_info r') \<noteq> gatewayHash (dr_info r)) rs = rs"
    by (rule filter_True)
  with Cons show ?case by auto
qed simp

section \<open>Forwarding\<close>

lemma sourceBitset_cases:
  "sourceBitset rs i b = b \<or> (\<exists>r \<in> set rs. i \<in> set (dr_deviceIndices r) \<and> sourceBitset rs i b = gatewayBitset (dr_info r))"
  by (induction rs arbitrary: b) force+

lemma sourceBitset_unique:
  assumes "r \<in> set rs" "i \<in> set (dr_deviceIndices r)"
    and "\<forall>r' \<in> set rs. i \<in> set (dr_deviceIndices r') \<longrightarrow> r' = r"
  shows "sourceBitset rs i b = gatewayBitset (dr_info r)"
proof -
  have "sourceBitset rs i b = gatewayBitset (dr_info r)"
    if "b = gatewayBitset (dr_info r) \<or> r \<in> set rs" "\<forall>r' \<in> set rs. i \<in> set (dr_deviceIndices r') \<longrightarrow> r' = r" for rs b
    using that assms(2) by (induction rs arbitrary: b) auto
  then show ?thesis using assms by blast
qed

section \<open>Properties\<close>

lemma records_set_records [simp]: "records (m_remoteState (set_records rs d)) = rs"
  by (simp add: set_records_def)

lemma destination_set:
  "set (List.map_filter (destination E d ti P h) rs) =
     {i. \<exists>r \<in> set rs. P r \<and> (\<exists>s \<in> set (userSubscribers (dr_info r)). getClassHash E s = h) \<and> recordIndex d ti r = Some i}"
  by (force simp: map_filter_def destination_def split: if_splits)

definition subscribes :: "iox_env \<Rightarrow> class_hash \<Rightarrow> device_record \<Rightarrow> bool" where
  "subscribes E h r \<longleftrightarrow> (\<exists>s \<in> set (userSubscribers (dr_info r)). getClassHash E s = h)"

lemma computeDeviceIndices_set:
  assumes "length (records (m_remoteState d)) \<le> MAX_DEVICE_COUNT"
  shows "set (computeDeviceIndices E ti d h) =
    {i. \<exists>r \<in> set (records (m_remoteState d)). subscribes E h r \<and> recordIndex d ti r = Some i}"
  using assms by (auto simp: computeDeviceIndices_def collectIndices_all destination_set subscribes_def)


definition sample_service :: service_description where
  "sample_service = \<lparr>serviceID = [65], instanceID = [66], eventID = [67, 68]\<rparr>"

definition sample_record :: device_record where
  "sample_record = \<lparr>dr_info = sample_info, dr_deviceIndices = [\<lparr>di_type = UDP, di_device = 3\<rparr>]\<rparr>"

definition sample_discovery :: discovery where
  "sample_discovery =
     (new_discovery 1 NONE)\<lparr>m_remoteState := \<lparr>records = [sample_record], deviceIndicesCache = vm_empty\<rparr>,
       m_localState := \<lparr>userPublishers = [sample_service], ls_userSubscribers = [], userPublisherPorts = [42]\<rparr>\<rparr>"

lemma sample_discovery_inv: "disc_inv sample_discovery \<and> cache_coherent sample_env sample_registry sample_discovery"
  by (simp add: sample_discovery_def disc_inv_def cache_coherent_def vm.invar_empty vm.lookup_empty wf_records_def
      wf_record_def sample_record_def config_defs)

lemma sample_recordIndex: "recordIndex sample_discovery sample_registry sample_record = Some \<lparr>di_type = UDP, di_device = 3\<rparr>"
  by (simp add: recordIndex_def findMatchingType_def sample_registry_def sample_record_def sample_info_def isGood_def
      sample_discovery_def new_discovery_def bit_numeral_rec)


text \<open>
  C29. The channels the manager asks for: no service twice, at most \<^verbatim>\<open>MAX_TOPICS\<close>, only services with a
  local subscriber, a local publisher or a remote subscriber, and all of them if they fit.
\<close>

theorem needed_channels:
  defines "wanted \<equiv> \<lambda>d. set (ls_userSubscribers (m_localState d)) \<union> set (userPublishers (m_localState d)) \<union>
    (\<Union>r \<in> set (records (m_remoteState d)). set (userSubscribers (dr_info r)))"
  shows "distinct (updateNeededChannels d) \<and> length (updateNeededChannels d) = min MAX_TOPICS (card (wanted d)) \<and>
    set (updateNeededChannels d) \<subseteq> wanted d \<and> (card (wanted d) \<le> MAX_TOPICS \<longrightarrow> set (updateNeededChannels d) = wanted d)"
proof -
  have wanted: "wanted d = set (allServices d)" by (auto simp: wanted_def allServices_def)
  have "length (uniqueUnion [] (allServices d)) = card (set (allServices d))"
    using distinct_card [OF uniqueUnion_distinct [of "[]" "allServices d"]] by simp
  then show ?thesis
    using pushUnique_complete [of "[]" "allServices d" MAX_TOPICS] pushUnique_subset [of "[]" MAX_TOPICS "allServices d"]
    by (simp add: wanted updateNeededChannels_eq pushUnique_distinct) (simp add: pushUnique_uniqueUnion min.commute)
qed

theorem needed_channels_witness: "set (updateNeededChannels sample_discovery) = {sample_service}"
proof -
  have "set (ls_userSubscribers (m_localState sample_discovery)) \<union> set (userPublishers (m_localState sample_discovery)) \<union>
    (\<Union>r \<in> set (records (m_remoteState sample_discovery)). set (userSubscribers (dr_info r))) = {sample_service}"
    by (simp add: sample_discovery_def sample_record_def sample_info_def sample_service_def)
  then show ?thesis using needed_channels [of sample_discovery] by (simp add: MAX_TOPICS_def)
qed

text \<open>
  Forwarding goes only where it is needed: a message that came in from a device is forwarded
  to gateways that subscribe to its service and share no transport with a gateway known to have
  sent from that device; in particular never over a transport that the source has itself, and not
  at all if the source is unknown.
\<close>

theorem forwarding_targets:
  assumes "ti_wf ti" "length (records (m_remoteState d)) \<le> MAX_DEVICE_COUNT"
    and "i \<in> set (generateDeviceIndicesForwarding E ti d h from_dev)"
  shows "\<exists>r \<in> set (records (m_remoteState d)). \<exists>source \<in> set (records (m_remoteState d)).
    from_dev \<in> set (dr_deviceIndices source) \<and> gatewayBitset (dr_info source) AND gatewayBitset (dr_info r) = 0 \<and>
    subscribes E h r \<and> i \<in> set (dr_deviceIndices r) \<and> bit (s_bitset ti) (index (di_type i)) \<and>
    \<not> bit (gatewayBitset (dr_info source)) (index (di_type i))"
proof -
  let ?rs = "records (m_remoteState d)" and ?b = "sourceBitset (records (m_remoteState d)) from_dev 0"
  have b: "?b \<noteq> 0" using assms(3) by (auto simp: generateDeviceIndicesForwarding_def)
  then obtain source where src: "source \<in> set ?rs" "from_dev \<in> set (dr_deviceIndices source)" "?b = gatewayBitset (dr_info source)"
    using sourceBitset_cases [of ?rs from_dev 0] by auto
  obtain r where r: "r \<in> set ?rs" "?b AND gatewayBitset (dr_info r) = 0" "subscribes E h r" "recordIndex d ti r = Some i"
    using assms(3) b by (auto simp: generateDeviceIndicesForwarding_def collectIndices_all [OF assms(2)] destination_set subscribes_def)
  have i: "i \<in> set (dr_deviceIndices r)" "bit (gatewayBitset (dr_info r)) (index (di_type i))" "bit (s_bitset ti) (index (di_type i))"
    using recordIndex_Some [OF r(4) assms(1)] by simp_all
  have "\<not> bit (gatewayBitset (dr_info source)) (index (di_type i))"
    using i(2) r(2) src(3) by (metis bit_0_eq bit_and_iff bot_apply bot_bool_def)
  then show ?thesis using r i src by (intro bexI [of _ r] bexI [of _ source]) simp_all
qed

definition pcie_record :: device_record where
  "pcie_record = \<lparr>dr_info = sample_info\<lparr>userSubscribers := [], gatewayBitset := 2, gatewayHash := 21\<rparr>,
     dr_deviceIndices = [\<lparr>di_type = PCIE, di_device = 0\<rparr>]\<rparr>"

theorem forwarding_targets_witness:
  "\<not> bit (gatewayBitset (dr_info pcie_record)) (index UDP) \<and>
   \<lparr>di_type = UDP, di_device = 3\<rparr> \<in> set (generateDeviceIndicesForwarding sample_env sample_registry
     (set_records [pcie_record, sample_record] sample_discovery) (getClassHash sample_env sample_service) \<lparr>di_type = PCIE, di_device = 0\<rparr>)"
proof -
  let ?d = "set_records [pcie_record, sample_record] sample_discovery"
  let ?h = "getClassHash sample_env sample_service" and ?i = "\<lparr>di_type = UDP, di_device = 3\<rparr>"
  have d: "records (m_remoteState ?d) = [pcie_record, sample_record]" "m_preferredType ?d = m_preferredType sample_discovery"
    by (simp_all add: set_records_def)
  have "recordIndex ?d sample_registry sample_record = Some ?i"
    using sample_recordIndex by (simp add: recordIndex_def d(2))
  then have i: "?i \<in> set (generateDeviceIndicesForwarding sample_env sample_registry ?d ?h \<lparr>di_type = PCIE, di_device = 0\<rparr>)"
    by (simp add: generateDeviceIndicesForwarding_def d(1) pcie_record_def sample_record_def sample_info_def
        sample_service_def push_back_def MAX_DEVICE_COUNT_def)
  have "\<exists>r \<in> set (records (m_remoteState ?d)). \<exists>source \<in> set (records (m_remoteState ?d)).
    \<lparr>di_type = PCIE, di_device = 0\<rparr> \<in> set (dr_deviceIndices source) \<and>
    gatewayBitset (dr_info source) AND gatewayBitset (dr_info r) = 0 \<and> subscribes sample_env ?h r \<and>
    ?i \<in> set (dr_deviceIndices r) \<and> bit (s_bitset sample_registry) (index (di_type ?i)) \<and>
    \<not> bit (gatewayBitset (dr_info source)) (index (di_type ?i))"
    by (rule forwarding_targets [OF sample_registry_wf _ i]) (simp add: d(1) MAX_DEVICE_COUNT_def)
  then show ?thesis using i by (auto simp: d(1) pcie_record_def sample_record_def)
qed

text \<open>
  A gateway that has said goodbye is still written to: its termination message removes the
  record of the gateway but neither the cached device indices nor the channels, so the devices
  cached for a service, the removed gateway's among them, are used until something else clears the
  cache.
\<close>

theorem stale_cache_after_termination:
  assumes "disc_inv d" "deserializeInfo (iox D) bytes sz = Inr (info, n)" "isTermination info"
    and "known_publisher d uid" "vm_lookup (deviceIndicesCache (m_remoteState d)) h = Some is"
  shows "\<exists>d'. receiveRemoteDiscoveryInfo D bytes sz dev (ti, (d, w)) = Inr (ti, (d', w)) \<and>
    gatewayHash info \<notin> set (record_hashes (records (m_remoteState d'))) \<and>
    generateDeviceIndices (iox D) ti d' uid h = (d', is)"
proof -
  have rec: "distinct (record_hashes (records (m_remoteState d)))"
    and wf: "vm_wf MAX_TOPICS (deviceIndicesCache (m_remoteState d))"
    using assms(1) by (simp_all add: disc_inv_def wf_records_def vm_invar_def)
  obtain d' where d': "receiveRemoteDiscoveryInfo D bytes sz dev (ti, (d, w)) = Inr (ti, (d', w))"
    "records (m_remoteState d') = filter (\<lambda>r. gatewayHash (dr_info r) \<noteq> gatewayHash info) (records (m_remoteState d))"
    "d' = set_records (records (m_remoteState d')) d"
    using receive_termination [OF assms(2,3), of dev ti d w] erase_record [OF rec] by auto
  have fields: "deviceIndicesCache (m_remoteState d') = deviceIndicesCache (m_remoteState d)"
    "m_gatewayPublisherUids d' = m_gatewayPublisherUids d" "m_localState d' = m_localState d"
    by (subst d'(3), simp add: set_records_def)+
  have "generateDeviceIndices (iox D) ti d' uid h = (d', is)"
    using assms(4,5) wf by (cases rule: vm_find_cases [where k = h, OF wf]) (simp_all add: generateDeviceIndices_def fields)
  then show ?thesis using d' by auto
qed

definition quiet_env :: "unit disc_env" where
  "quiet_env = \<lparr>iox = sample_env, sendBroadcast = (\<lambda>t bytes w. (t, w)), generateHash = (\<lambda>w. (0, w)),
     updateCallback = (\<lambda>ss s. Inr s)\<rparr>"

theorem stale_cache_after_termination_witness:
  "\<exists>bytes d'. receiveRemoteDiscoveryInfo quiet_env bytes (length bytes) \<lparr>di_type = UDP, di_device = 3\<rparr>
      (sample_registry, (fst (generateDeviceIndices sample_env sample_registry sample_discovery 42 (sample_hash sample_service)), ()))
      = Inr (sample_registry, (d', ())) \<and>
    snd (generateDeviceIndices sample_env sample_registry d' 42 (sample_hash sample_service)) = [\<lparr>di_type = UDP, di_device = 3\<rparr>]"
proof -
  let ?h = "sample_hash sample_service" and ?i = "\<lparr>di_type = UDP, di_device = 3\<rparr>"
  let ?d = "fst (generateDeviceIndices sample_env sample_registry sample_discovery 42 ?h)"
  have env: "iox quiet_env = sample_env" "getClassHash sample_env = sample_hash"
    by (simp_all add: quiet_env_def sample_env_def)
  have known: "known_publisher sample_discovery 42" by (simp add: sample_discovery_def new_discovery_def)
  have "computeDeviceIndices sample_env sample_registry sample_discovery ?h = [?i]"
    using sample_recordIndex
    by (simp add: computeDeviceIndices_def sample_discovery_def push_back_def MAX_DEVICE_COUNT_def env)
      (simp add: sample_record_def sample_info_def sample_service_def)
  then obtain cache' where d: "?d = sample_discovery\<lparr>m_remoteState := (m_remoteState sample_discovery)\<lparr>deviceIndicesCache := cache'\<rparr>\<rparr>"
    and cache': "vm_lookup cache' ?h = Some [?i]"
    using generateDeviceIndices_known [OF _ _ known, of sample_env sample_registry ?h] sample_discovery_inv
    by (auto simp: sample_discovery_def vm_size_def vm_empty_def MAX_TOPICS_def)
  let ?info = "sample_info\<lparr>isTermination := True\<rparr>"
  have wf: "wf_info sample_env ?info"
    by (simp add: wf_info_def wf_service_def wf_id_def sample_env_def sample_info_def MAX_TOPICS_def)
  obtain bytes where ser: "serializeInfo sample_env ?info = Inr bytes" using serializeInfo_ok [OF wf] by blast
  have bytes: "deserializeInfo (iox quiet_env) bytes (length bytes) = Inr (?info, length bytes)"
    using deserialize_serialize_info [OF sample_env_assigns wf ser, of "length bytes" "[]"] by (simp add: env)
  have "disc_inv ?d"
    using generateDeviceIndices_inv [of sample_discovery sample_env sample_registry 42 ?h ?d] sample_discovery_inv
    by (metis prod.collapse)
  moreover have "known_publisher ?d 42" using known by (simp add: d)
  moreover have "vm_lookup (deviceIndicesCache (m_remoteState ?d)) ?h = Some [?i]" using cache' by (simp add: d)
  ultimately obtain d' where "receiveRemoteDiscoveryInfo quiet_env bytes (length bytes) ?i (sample_registry, (?d, ()))
      = Inr (sample_registry, (d', ()))" "generateDeviceIndices sample_env sample_registry d' 42 ?h = (d', [?i])"
    using stale_cache_after_termination [OF _ bytes, of ?d 42 ?h "[?i]" ?i sample_registry "()"] by (auto simp: env)
  then show ?thesis by (intro exI [of _ bytes] exI [of _ d']) simp
qed

text \<open>
  When the record table is full, a discovery message of a new gateway overwrites the last
  record: the gateway that was stored there is forgotten, and its device indices are kept as
  indices of the new gateway.
\<close>

theorem full_record_table_overwrites:
  assumes "gatewayHash info \<notin> set (record_hashes rs)" "length rs = MAX_DEVICE_COUNT" "wf_records rs"
  shows "wf_records (storeRecord info dev rs) \<and> storeRecord info dev rs = butlast rs @ [updateRecord info dev (last rs)] \<and>
    gatewayHash (dr_info (last rs)) \<notin> set (record_hashes (storeRecord info dev rs)) \<and>
    set (dr_deviceIndices (last rs)) \<subseteq> set (dr_deviceIndices (last (storeRecord info dev rs)))"
proof -
  obtain rs' r where rs: "rs = rs' @ [r]" using assms(2) by (cases rs rule: rev_cases) (auto simp: MAX_DEVICE_COUNT_def)
  have eq: "storeRecord info dev rs = butlast rs @ [updateRecord info dev (last rs)]" by (rule storeRecord_full [OF assms(1,2)])
  have "set (dr_deviceIndices r) \<subseteq> set (dr_deviceIndices (updateRecord info dev r))"
    by (auto simp: updateRecord_def push_back_def)
  moreover have "gatewayHash (dr_info r) \<notin> set (record_hashes rs')" "gatewayHash (dr_info r) \<noteq> gatewayHash info"
    using assms(1,3) by (auto simp: rs wf_records_def)
  ultimately show ?thesis using eq storeRecord_wf [OF assms(3), of info dev] by (simp add: rs)
qed

definition record_with :: "hash \<Rightarrow> device_record" where
  "record_with h = \<lparr>dr_info = empty_info\<lparr>gatewayHash := h\<rparr>, dr_deviceIndices = [\<lparr>di_type = UDP, di_device = h\<rparr>]\<rparr>"

theorem full_record_table_overwrites_witness:
  "10 \<notin> set (record_hashes (storeRecord (empty_info\<lparr>gatewayHash := 11\<rparr>) \<lparr>di_type = UDP, di_device = 11\<rparr>
     (map record_with [1, 2, 3, 4, 5, 6, 7, 8, 9, 10])))"
  using full_record_table_overwrites [of "empty_info\<lparr>gatewayHash := 11\<rparr>" "map record_with [1, 2, 3, 4, 5, 6, 7, 8, 9, 10]"
      "\<lparr>di_type = UDP, di_device = 11\<rparr>"]
  by (simp add: record_with_def wf_records_def wf_record_def config_defs)

text \<open>
  C19. Announcing always ends. Layers may fail while a discovery message is broadcast; each failure
  is handled by disabling the layer and broadcasting again, and this recursion ends because a
  layer is disabled at most once (four nested calls are enough). The registry stays well
  formed, the message fits its buffer, and of the manager at most the cache is cleared, which
  happens whenever a layer was lost.
\<close>

theorem announcing_ends:
  assumes "broadcast_layer D W" "ti_wf ti" "wf_local (iox D) d" "W w"
  shows "\<exists>ti' d' w'. announce D (ti, (d, w)) = Inr (ti', (d', w')) \<and> ti_wf ti' \<and> W w' \<and> active ti' \<le> active ti \<and>
    (d' = d \<or> d' = clear_cache d) \<and> (ti' = ti \<or> d' = clear_cache d)"
  using broadcast_layer.announce_total [OF assms] by auto

definition failing_env :: "unit disc_env" where
  "failing_env = quiet_env\<lparr>sendBroadcast := (\<lambda>t bytes w. (setFailed t, w))\<rparr>"

theorem announcing_ends_witness:
  "\<exists>ti' d' w'. announce failing_env (sample_registry, (sample_discovery, ())) = Inr (ti', (d', w')) \<and> ti_wf ti'"
proof -
  have "broadcast_layer failing_env (\<lambda>_. True)"
    by unfold_locales (auto simp: failing_env_def quiet_env_def status_defs)
  moreover have "wf_local (iox failing_env) sample_discovery"
    by (simp add: wf_local_def sample_discovery_def)
  ultimately show ?thesis using announcing_ends [of failing_env "\<lambda>_. True" sample_registry sample_discovery "()"] sample_registry_wf by auto
qed

end
