(* ===== verification/UdpTransport.thy ===== *)
theory UdpTransport
  imports DataWriter Discovery
begin

text \<open>
  The UDP transport layer: \<^verbatim>\<open>UDPTransport\<close> (\<^verbatim>\<open>source/udp/udp_transport.cpp\<close>) and the
  \<^verbatim>\<open>UDPBroadcast\<close> object it owns (\<^verbatim>\<open>source/udp/udp_transport_broadcast.cpp\<close>), which has a
  failure status of its own. The socket library is a parameter: \<open>send_to\<close> takes the bytes, the
  destination and the network and returns the network, or nothing when it throws; whether a
  receive operation could be started again is the argument \<open>rearmed\<close> of the socket callbacks.
  The theory shows that the layer satisfies the contracts of \<open>DataWriter\<close> and \<open>Discovery\<close>.
\<close>

unbundle bit_operations_syntax

section \<open>State\<close>

record endpoint =
  address :: u32
  port :: nat

definition DATA_PORT :: nat where
  "DATA_PORT = 9333"

definition DISCOVERY_PORT :: nat where
  "DISCOVERY_PORT = 9332"

definition MAX_DATAGRAM_SIZE :: nat where
  "MAX_DATAGRAM_SIZE = 32768"

text \<open>A default-constructed endpoint: any address, port 0.\<close>

definition default_endpoint :: endpoint where
  "default_endpoint = \<lparr>address = 0, port = 0\<rparr>"

record 'n udp_state =
  m_interfaceEndpoints :: "endpoint list"
  m_broadcastEndpoints :: "endpoint list"
  m_devices :: "endpoint list"
  broadcastStatus :: transport_status
  udp_net :: 'n

type_synonym 'n send_to = "byte list \<Rightarrow> endpoint \<Rightarrow> 'n \<Rightarrow> 'n option"

text \<open>\<^verbatim>\<open>setFailed\<close> of the broadcast object.\<close>

definition setBroadcastFailed :: "'n udp_state \<Rightarrow> 'n udp_state" where
  "setBroadcastFailed u = u\<lparr>broadcastStatus := (if broadcastStatus u = GOOD then FAILED else broadcastStatus u)\<rparr>"

section \<open>Finding the interfaces\<close>

datatype sockaddr = AF_INET u32 | Other_Family

record iface =
  ifa_addr :: "sockaddr option"
  ifa_dstaddr :: "sockaddr option"

text \<open>\<^verbatim>\<open>ntohl\<close> on a little-endian machine reverses the four bytes.\<close>

definition ntohl :: "u32 \<Rightarrow> u32" where
  "ntohl w = word_of_nat (bytes_nat (rev (nat_bytes 4 (unat w))))"

definition sockAddrToUint32 :: "sockaddr option \<Rightarrow> u32" where
  "sockAddrToUint32 addr = (case addr of Some (AF_INET s_addr) \<Rightarrow> ntohl s_addr | _ \<Rightarrow> 0)"

definition is_loopback :: "u32 \<Rightarrow> bool" where
  "is_loopback a \<longleftrightarrow> a AND 0xFF000000 = 0x7F000000"

text \<open>The loop over the list of interfaces; \<open>n\<close> is \<^verbatim>\<open>iface_n\<close>.\<close>

fun discoverBroadcastAddresses :: "iface list \<Rightarrow> nat \<Rightarrow> 'n udp_state \<Rightarrow> 'n udp_state" where
  "discoverBroadcastAddresses [] n u = u"
| "discoverBroadcastAddresses (f # fs) n u =
     (if n < MAX_NETWORK_IFACE_COUNT
      then let ifaAddr = sockAddrToUint32 (ifa_addr f);
               dstAddr = sockAddrToUint32 (ifa_dstaddr f)
           in if 0 < ifaAddr \<and> \<not> is_loopback dstAddr
              then discoverBroadcastAddresses fs (Suc n)
                     (u\<lparr>m_interfaceEndpoints := fst (push_back MAX_NETWORK_IFACE_COUNT (m_interfaceEndpoints u)
                                                  \<lparr>address = ifaAddr, port = DISCOVERY_PORT\<rparr>),
                        m_broadcastEndpoints := fst (push_back MAX_NETWORK_IFACE_COUNT (m_broadcastEndpoints u)
                                                  \<lparr>address = dstAddr, port = DISCOVERY_PORT\<rparr>)\<rparr>)
              else discoverBroadcastAddresses fs n u
      else u)"

section \<open>Discovery socket\<close>

definition discoveredEndpoints :: "'n udp_state \<Rightarrow> nat" where
  "discoveredEndpoints u = length (m_devices u)"

definition getEndpoint :: "u32 \<Rightarrow> 'n udp_state \<Rightarrow> 'n udp_state \<times> endpoint" where
  "getEndpoint deviceIndex u =
     (if discoveredEndpoints u \<le> unat deviceIndex then (setBroadcastFailed u, default_endpoint)
      else (u, m_devices u ! unat deviceIndex))"

definition getIndex :: "u32 \<Rightarrow> 'n udp_state \<Rightarrow> u32 option" where
  "getIndex addr u =
     (let it = find_if (\<lambda>dev. address dev = addr) (m_devices u)
      in if it \<noteq> length (m_devices u) then Some (word_of_nat it) else None)"

text \<open>The socket callbacks return what they pass to the registered callback, if anything.\<close>

type_synonym delivery = "(byte list \<times> device_index) option"

definition discoverySocketCallback ::
  "bool \<Rightarrow> byte list \<Rightarrow> endpoint \<Rightarrow> bool \<Rightarrow> 'n udp_state \<Rightarrow> 'n udp_state \<times> delivery" where
  "discoverySocketCallback ec bytes outputEndpoint rearmed u =
     (if ec then (setBroadcastFailed u, None)
      else
        let (u1, out) =
          (if find_if (\<lambda>e. e = outputEndpoint) (m_interfaceEndpoints u) = length (m_interfaceEndpoints u)
           then let iter = find_if (\<lambda>e. e = outputEndpoint) (m_devices u);
                    u1 = (if iter = length (m_devices u) \<and> length (m_devices u) < MAX_DEVICE_COUNT
                          then u\<lparr>m_devices := fst (push_back MAX_DEVICE_COUNT (m_devices u) outputEndpoint)\<rparr>
                          else u)
                in (u1, Some (bytes, \<lparr>di_type = UDP, di_device = word_of_nat iter\<rparr>))
           else (u, None))
        in (if rearmed then u1 else setBroadcastFailed u1, out))"

fun sendBroadcastLoop :: "'n send_to \<Rightarrow> byte list \<Rightarrow> endpoint list \<Rightarrow> 'n udp_state \<Rightarrow> 'n udp_state" where
  "sendBroadcastLoop send bytes [] u = u"
| "sendBroadcastLoop send bytes (e # es) u =
     (case send bytes e (udp_net u) of
        None \<Rightarrow> setBroadcastFailed u
      | Some n \<Rightarrow> sendBroadcastLoop send bytes es (u\<lparr>udp_net := n\<rparr>))"

definition udpSendBroadcast :: "'n send_to \<Rightarrow> transport_layer \<Rightarrow> byte list \<Rightarrow> 'n udp_state \<Rightarrow> transport_layer \<times> 'n udp_state" where
  "udpSendBroadcast send t bytes u = (t, sendBroadcastLoop send bytes (m_broadcastEndpoints u) u)"

section \<open>Data socket\<close>

definition dataSocketCallback ::
  "bool \<Rightarrow> byte list \<Rightarrow> endpoint \<Rightarrow> bool \<Rightarrow> transport_layer \<Rightarrow> 'n udp_state \<Rightarrow> transport_layer \<times> delivery" where
  "dataSocketCallback ec bytes outputEndpoint rearmed t u =
     (if ec then (setFailed t, None)
      else (if rearmed then t else setFailed t,
            case getIndex (address outputEndpoint) u of
              Some i \<Rightarrow> Some (bytes, \<lparr>di_type = UDP, di_device = i\<rparr>)
            | None \<Rightarrow> None))"

definition udpSendUserData ::
  "'n send_to \<Rightarrow> transport_layer \<Rightarrow> byte list \<Rightarrow> byte list \<Rightarrow> u32 \<Rightarrow> 'n udp_state
     \<Rightarrow> transport_layer \<times> bool \<times> 'n udp_state" where
  "udpSendUserData send t data1 data2 deviceIndex u =
     (case getEndpoint deviceIndex u of (u1, endpoint) \<Rightarrow>
      case send (data1 @ data2) (endpoint\<lparr>port := DATA_PORT\<rparr>) (udp_net u1) of
        Some n \<Rightarrow> (t, False, u1\<lparr>udp_net := n\<rparr>)
      | None \<Rightarrow> (setFailed t, False, u1))"

text \<open>The methods of the layer; \<^verbatim>\<open>willBePending\<close> is inherited and returns false.\<close>

definition udp_ops :: "'n send_to \<Rightarrow> 'n udp_state layer_ops" where
  "udp_ops send = \<lparr>sendUserData = (\<lambda>t data1 data2 dev u. Inr (udpSendUserData send t data1 data2 dev u)), willBePending = (\<lambda>_ _. False),
     maxMessageSize = (\<lambda>_. MAX_DATAGRAM_SIZE)\<rparr>"

section \<open>Device indices\<close>

definition udp_inv :: "'n udp_state \<Rightarrow> bool" where
  "udp_inv u \<longleftrightarrow> distinct (m_devices u) \<and> length (m_devices u) \<le> MAX_DEVICE_COUNT"

lemma discoverySocketCallback_devices:
  "m_devices (fst (discoverySocketCallback ec bytes e rearmed u)) =
     (if \<not> ec \<and> e \<notin> set (m_interfaceEndpoints u) \<and> e \<notin> set (m_devices u) \<and> length (m_devices u) < MAX_DEVICE_COUNT
      then m_devices u @ [e] else m_devices u)"
  by (auto simp: discoverySocketCallback_def setBroadcastFailed_def push_back_def find_if_end)

lemma discoverySocketCallback_inv:
  "udp_inv u \<Longrightarrow> udp_inv (fst (discoverySocketCallback ec bytes e rearmed u))"
  by (simp add: udp_inv_def discoverySocketCallback_devices)

text \<open>A device that is listed is found again under its index, by endpoint and by address.\<close>

lemma getEndpoint_index:
  assumes "discoverySocketCallback False bytes e rearmed u = (u', Some (bytes', i))"
    and "length (m_devices u) < MAX_DEVICE_COUNT"
  shows "getEndpoint (di_device i) u' = (u', e) \<and> unat (di_device i) < length (m_devices u') \<and>
    m_devices u' ! unat (di_device i) = e \<and> bytes' = bytes \<and> di_type i = UDP"
proof -
  let ?it = "find_if (\<lambda>x. x = e) (m_devices u)"
  have new: "find_if (\<lambda>x. x = e) (m_interfaceEndpoints u) = length (m_interfaceEndpoints u)"
    using assms(1) by (auto simp: discoverySocketCallback_def split: if_splits)
  then have i: "i = \<lparr>di_type = UDP, di_device = word_of_nat ?it\<rparr>" "bytes' = bytes"
    using assms(1) by (auto simp: discoverySocketCallback_def split: if_splits)
  have le: "?it \<le> length (m_devices u)" by simp
  then have "?it < 10" using assms(2) unfolding MAX_DEVICE_COUNT_def by linarith
  then have "?it < 2 ^ 32" by simp
  then have small: "unat (word_of_nat ?it :: u32) = ?it" by (simp add: unat_of_nat)
  have devs: "m_devices u' = (if ?it = length (m_devices u) then m_devices u @ [e] else m_devices u)"
    using discoverySocketCallback_devices [of False bytes e rearmed u] assms new
    by (auto simp: find_if_end)
  have "?it < length (m_devices u') \<and> m_devices u' ! ?it = e"
    using devs le_neq_implies_less [OF le] find_if_nth [of "\<lambda>x. x = e" "m_devices u"]
    by (cases "?it = length (m_devices u)") auto
  then show ?thesis
    using i small by (simp add: getEndpoint_def discoveredEndpoints_def)
qed

section \<open>The layer satisfies the contracts\<close>

lemma udpSendUserData_result:
  "udpSendUserData send t d1 d2 dev u = (t', p, u') \<Longrightarrow> \<not> p \<and> (t' = t \<or> t' = setFailed t)"
  by (auto simp: udpSendUserData_def split: prod.splits option.splits)

text \<open>
  A network that is up sends what it is given, in order. Towards the devices \<open>devs\<close> the layer
  then accepts every datagram, whatever the device index.
\<close>

locale udp_network =
  fixes send :: "'n send_to"
    and up :: "'n \<Rightarrow> bool"
    and sent :: "'n \<Rightarrow> (byte list \<times> endpoint) list"
  assumes sends: "up n \<Longrightarrow> \<exists>n'. send bytes e n = Some n' \<and> up n' \<and> sent n' = sent n @ [(bytes, e)]"

definition data_endpoint :: "endpoint list \<Rightarrow> u32 \<Rightarrow> endpoint" where
  "data_endpoint devs dev =
     (if unat dev < length devs then devs ! unat dev else default_endpoint)\<lparr>port := DATA_PORT\<rparr>"

definition datagrams_to :: "('n \<Rightarrow> (byte list \<times> endpoint) list) \<Rightarrow> endpoint list \<Rightarrow> u32 \<Rightarrow> 'n udp_state \<Rightarrow> byte list list" where
  "datagrams_to sent devs dev u = map fst (filter (\<lambda>p. snd p = data_endpoint devs dev) (sent (udp_net u)))"

abbreviation udp_ready :: "('n \<Rightarrow> bool) \<Rightarrow> endpoint list \<Rightarrow> 'n udp_state \<Rightarrow> bool" where
  "udp_ready up devs u \<equiv> up (udp_net u) \<and> m_devices u = devs"

lemma getEndpoint_data:
  "getEndpoint dev u = (u', e) \<Longrightarrow> e\<lparr>port := DATA_PORT\<rparr> = data_endpoint (m_devices u) dev \<and>
     m_devices u' = m_devices u \<and> udp_net u' = udp_net u"
  by (auto simp: getEndpoint_def data_endpoint_def discoveredEndpoints_def setBroadcastFailed_def split: if_splits)

sublocale udp_network \<subseteq> accepting_layer "udp_ops send" "udp_ready up devs" "datagrams_to sent devs dev" t dev
  for devs t dev
proof
  fix w :: "'n udp_state" and ser data
  assume ready: "udp_ready up devs w"
  obtain u1 e where ep: "getEndpoint dev w = (u1, e)" by fastforce
  note e = getEndpoint_data [OF ep]
  obtain n where n: "send (ser @ data) (e\<lparr>port := DATA_PORT\<rparr>) (udp_net w) = Some n" "up n"
    "sent n = sent (udp_net w) @ [(ser @ data, e\<lparr>port := DATA_PORT\<rparr>)]"
    using sends ready by blast
  then show "\<exists>w'. sendUserData (udp_ops send) t ser data dev w = Inr (t, False, w') \<and> udp_ready up devs w' \<and>
      datagrams_to sent devs dev w' = datagrams_to sent devs dev w @ [ser @ data]"
    using ready ep e by (simp add: udp_ops_def udpSendUserData_def datagrams_to_def)
qed

text \<open>An ideal network: everything sent is kept.\<close>

definition ideal_send :: "(byte list \<times> endpoint) list send_to" where
  "ideal_send bytes e n = Some (n @ [(bytes, e)])"

interpretation ideal: udp_network ideal_send "\<lambda>_. True" "\<lambda>n. n"
  by unfold_locales (simp add: ideal_send_def)

text \<open>
  The layer together with the chunks that the subscribers were given back. A registered
  callback acts on the layer, not on that record.
\<close>

definition with_releases :: "'w layer_ops \<Rightarrow> ('w \<times> (subscriber_ptr \<times> chunk_ptr) list) layer_ops" where
  "with_releases ops =
     \<lparr>sendUserData = (\<lambda>t ser data dev (w, rs). bindR (sendUserData ops t ser data dev w) (\<lambda>(t', p, w'). Inr (t', p, (w', rs)))),
      willBePending = willBePending ops, maxMessageSize = maxMessageSize ops\<rparr>"

definition record_release ::
  "subscriber_ptr \<Rightarrow> chunk_ptr \<Rightarrow> 'w \<times> (subscriber_ptr \<times> chunk_ptr) list \<Rightarrow> 'w \<times> (subscriber_ptr \<times> chunk_ptr) list" where
  "record_release s c = (\<lambda>(w, rs). (w, rs @ [(s, c)]))"

interpretation udp_releases: nonpending_layers "with_releases (udp_ops send)" record_release snd "lift_cb cb" for send cb
  by unfold_locales
    (auto simp: with_releases_def record_release_def udp_ops_def lift_cb_def result_simps
      split: prod.splits dest: udpSendUserData_result)

section \<open>Properties\<close>

lemma messageSegments_data:
  assumes "(g, d) \<in> set (messageSegments h m hs ps)"
  shows "d \<noteq> [] \<and> length d \<le> unat m"
proof -
  have "d \<noteq> [] \<and> length d \<le> k" if "(g, d) \<in> set (segmentsFrom f k off xs)" for f k off xs
    using that
  proof (induction f k off xs rule: segmentsFrom.induct)
    case (1 f k off xs)
    then show ?case by (cases "k = 0 \<or> xs = []") (auto simp: segmentsFrom.simps [of f k off xs])
  qed
  then show ?thesis using assms by (auto simp: messageSegments_def)
qed

lemma datagram_length: "length (datagram E (g, d)) = maxIoxChunkDatagramHeaderSerializationSize E + length d"
proof -
  obtain ser where ser: "serializeHeader E g = Inr ser" by (simp add: serializeHeader_ok)
  then show ?thesis by (simp add: datagram_def serializeHeader_length [OF ser])
qed

lemma udp_payload_size:
  assumes "maxIoxChunkDatagramHeaderSerializationSize E < MAX_DATAGRAM_SIZE"
  shows "unat (maxTransportPayloadSize E (udp_ops send) t) = MAX_DATAGRAM_SIZE - maxIoxChunkDatagramHeaderSerializationSize E"
  using payload_size [of E "udp_ops send" t] assms by (simp add: udp_ops_def MAX_DATAGRAM_SIZE_def)

text \<open>The contract of the writer, for this layer.\<close>

context udp_network
begin

lemma udp_writes:
  assumes "up (udp_net (ws_world s))" "di_type i = UDP" "s_transports (ws_ti s) ! index UDP = Some t" "isGood t"
    and "maxIoxChunkDatagramHeaderSerializationSize E < MAX_DATAGRAM_SIZE"
    and "length (ch_userHeader ck) = unat (userHeaderSize h)" "length (ch_userPayload ck) = unat (userPayloadSize h)"
    and "length (ch_userHeader ck) + length (ch_userPayload ck) < 2 ^ 32"
  shows "\<exists>w'. writeSegmented E (udp_ops send) cb rel h ck [i] mutex subscriber s
      = Inr (s\<lparr>ws_world := rel subscriber (ch_chunk ck) w'\<rparr>) \<and> m_devices w' = m_devices (ws_world s) \<and>
    datagrams_to sent (m_devices (ws_world s)) (di_device i) w'
      = datagrams_to sent (m_devices (ws_world s)) (di_device i) (ws_world s) @
        map (datagram E) (messageSegments h (maxTransportPayloadSize E (udp_ops send) t) (ch_userHeader ck) (ch_userPayload ck))"
proof -
  have "maxTransportPayloadSize E (udp_ops send) t \<noteq> 0"
    using udp_payload_size [OF assms(5), of send t] assms(5) by auto
  then show ?thesis
    using writeSegmented_one [where s = s and devs = "m_devices (ws_world s)" and i = i and t = t and E = E
        and h = h and ck = ck and cb = cb and rel = rel and mutex = mutex and subscriber = subscriber] assms
    by (auto simp: udp_ops_def TRANSPORT_TYPE_COUNT_def)
qed

end

text \<open>
  Writing a message to one discovered device over UDP hands the network exactly the datagrams
  of the message's segments, in order, addressed to the data port of that device and none longer than
  the layer accepts, and releases the chunk once; nothing else of the writer's state changes.
\<close>

theorem udp_write_segments:
  assumes "udp_network send up sent" "up (udp_net (ws_world s))"
    and "di_type i = UDP" "s_transports (ws_ti s) ! index UDP = Some t" "isGood t"
    and "maxIoxChunkDatagramHeaderSerializationSize E < MAX_DATAGRAM_SIZE"
    and "length (ch_userHeader ck) = unat (userHeaderSize h)" "length (ch_userPayload ck) = unat (userPayloadSize h)"
    and "length (ch_userHeader ck) + length (ch_userPayload ck) < 2 ^ 32"
  shows "\<exists>w' grams. writeSegmented E (udp_ops send) cb rel h ck [i] mutex subscriber s
      = Inr (s\<lparr>ws_world := rel subscriber (ch_chunk ck) w'\<rparr>) \<and>
    datagrams_to sent (m_devices (ws_world s)) (di_device i) w'
      = datagrams_to sent (m_devices (ws_world s)) (di_device i) (ws_world s) @ grams \<and>
    grams = map (datagram E) (messageSegments h (maxTransportPayloadSize E (udp_ops send) t) (ch_userHeader ck) (ch_userPayload ck)) \<and>
    (\<forall>g \<in> set grams. length g \<le> MAX_DATAGRAM_SIZE)"
proof -
  let ?devs = "m_devices (ws_world s)" and ?m = "maxTransportPayloadSize E (udp_ops send) t"
  let ?segs = "messageSegments h ?m (ch_userHeader ck) (ch_userPayload ck)"
  have m: "unat ?m = MAX_DATAGRAM_SIZE - maxIoxChunkDatagramHeaderSerializationSize E" by (rule udp_payload_size [OF assms(6)])
  obtain w' where "writeSegmented E (udp_ops send) cb rel h ck [i] mutex subscriber s
      = Inr (s\<lparr>ws_world := rel subscriber (ch_chunk ck) w'\<rparr>)"
    "datagrams_to sent ?devs (di_device i) w' = datagrams_to sent ?devs (di_device i) (ws_world s) @ map (datagram E) ?segs"
    using udp_network.udp_writes [OF assms] by blast
  moreover have "length (datagram E sg) \<le> MAX_DATAGRAM_SIZE" if "sg \<in> set ?segs" for sg
  proof -
    have "length (snd sg) \<le> unat ?m" using messageSegments_data [of "fst sg" "snd sg"] that by simp
    then show ?thesis using datagram_length [of E "fst sg" "snd sg"] m assms(6) by simp
  qed
  ultimately show ?thesis by auto
qed

definition sample_udp :: "(byte list \<times> endpoint) list udp_state" where
  "sample_udp = \<lparr>m_interfaceEndpoints = [], m_broadcastEndpoints = [], m_devices = [\<lparr>address = 5, port = DISCOVERY_PORT\<rparr>],
     broadcastStatus = GOOD, udp_net = []\<rparr>"

definition sample_writer :: "(byte list \<times> endpoint) list udp_state writer_state" where
  "sample_writer = \<lparr>ws_ti = sample_registry, ws_pending = vm_empty, ws_world = sample_udp\<rparr>"

theorem udp_write_segments_witness:
  "\<exists>w'. writeSegmented sample_env (udp_ops ideal_send) None (\<lambda>_ _ w. w) sample_header
      \<lparr>ch_chunk = 9, ch_userHeader = [], ch_userPayload = [1, 2, 3, 4, 5]\<rparr> [\<lparr>di_type = UDP, di_device = 0\<rparr>] 0 1 sample_writer
    = Inr (sample_writer\<lparr>ws_world := w'\<rparr>)"
  using udp_write_segments [OF ideal.udp_network_axioms, where s = sample_writer and i = "\<lparr>di_type = UDP, di_device = 0\<rparr>"
      and t = "\<lparr>getType = UDP, m_status = GOOD\<rparr>" and E = sample_env and h = sample_header and cb = None
      and ck = "\<lparr>ch_chunk = 9, ch_userHeader = [], ch_userPayload = [1, 2, 3, 4, 5]\<rparr>" and rel = "\<lambda>_ _ w. w"
      and mutex = 0 and subscriber = 1]
  by (auto simp: sample_writer_def sample_registry_def isGood_def sample_env_def sample_header_def
      maxIoxChunkDatagramHeaderSerializationSize_def MAX_DATAGRAM_SIZE_def)

text \<open>
  Device indices are addresses: the index that a discovery datagram is delivered with is, as
  long as the device table has room, the index under which the layer finds the sender's
  address again, and that stays so; datagrams of a discovered address are delivered with the
  first index of that address.
\<close>

theorem udp_device_index:
  assumes "discoverySocketCallback False bytes e rearmed u = (u', Some (bytes', i))"
    and "length (m_devices u) < MAX_DEVICE_COUNT" "udp_inv u"
  shows "udp_inv u' \<and> bytes' = bytes \<and> di_type i = UDP \<and> getEndpoint (di_device i) u' = (u', e) \<and>
    (\<exists>j. getIndex (address e) u' = Some j \<and> unat j \<le> unat (di_device i) \<and> address (snd (getEndpoint j u')) = address e)"
proof -
  have inv: "udp_inv u'" using discoverySocketCallback_inv [OF assms(3), of False bytes e rearmed] assms(1) by simp
  have e: "getEndpoint (di_device i) u' = (u', e)" "bytes' = bytes" "di_type i = UDP"
    and i: "unat (di_device i) < length (m_devices u')" "m_devices u' ! unat (di_device i) = e"
    using getEndpoint_index [OF assms(1,2)] by simp_all
  let ?j = "find_if (\<lambda>dev. address dev = address e) (m_devices u')"
  from i have "?j \<le> unat (di_device i)" using find_if_first not_le by metis
  then have j: "?j < length (m_devices u')" using i(1) by simp
  then have "?j < 2 ^ 32" using inv by (simp add: udp_inv_def MAX_DEVICE_COUNT_def)
  then have "unat (word_of_nat ?j :: u32) = ?j" by (simp add: unat_of_nat take_bit_nat_eq_self)
  then show ?thesis
    using inv e j \<open>?j \<le> unat (di_device i)\<close> find_if_nth [OF j]
    by (auto simp: getIndex_def getEndpoint_def discoveredEndpoints_def)
qed

theorem udp_device_index_witness:
  "\<exists>u' i. discoverySocketCallback False [1, 2] \<lparr>address = 9, port = DISCOVERY_PORT\<rparr> True sample_udp = (u', Some ([1, 2], i)) \<and>
    getEndpoint (di_device i) u' = (u', \<lparr>address = 9, port = DISCOVERY_PORT\<rparr>)"
proof -
  have "discoverySocketCallback False [1, 2] \<lparr>address = 9, port = DISCOVERY_PORT\<rparr> True sample_udp
    = (sample_udp\<lparr>m_devices := [\<lparr>address = 5, port = DISCOVERY_PORT\<rparr>, \<lparr>address = 9, port = DISCOVERY_PORT\<rparr>]\<rparr>,
       Some ([1, 2], \<lparr>di_type = UDP, di_device = 1\<rparr>))" (is "_ = (?u, Some (_, ?i))")
    by (simp add: discoverySocketCallback_def sample_udp_def push_back_def MAX_DEVICE_COUNT_def)
  moreover have "getEndpoint (di_device ?i) ?u = (?u, \<lparr>address = 9, port = DISCOVERY_PORT\<rparr>)"
    using udp_device_index [OF calculation] by (simp add: sample_udp_def MAX_DEVICE_COUNT_def udp_inv_def)
  ultimately show ?thesis by blast
qed

text \<open>
  Over the UDP layer, which never keeps a chunk pending, \<^verbatim>\<open>writeSegmented\<close> releases the chunk once
  for every device it sends to, also when sends fail: with two devices it gives the same chunk
  back to iceoryx twice.
\<close>

theorem udp_release_per_device:
  assumes "writeSegmented E (with_releases (udp_ops send)) (lift_cb cb) record_release h ck devices mutex subscriber s = Inr s'"
  shows "snd (ws_world s') = snd (ws_world s) @ replicate (length devices) (subscriber, ch_chunk ck) \<and>
    ws_pending s' = ws_pending s"
  by (rule udp_releases.writeSegmented_releases [OF assms])

definition two_devices :: "device_index list" where
  "two_devices = [\<lparr>di_type = UDP, di_device = 0\<rparr>, \<lparr>di_type = UDP, di_device = 1\<rparr>]"

definition releasing_writer :: "((byte list \<times> endpoint) list udp_state \<times> (subscriber_ptr \<times> chunk_ptr) list) writer_state" where
  "releasing_writer = \<lparr>ws_ti = sample_registry, ws_pending = vm_empty, ws_world = (sample_udp, [])\<rparr>"

theorem udp_release_per_device_witness:
  "\<exists>s'. writeSegmented sample_env (with_releases (udp_ops ideal_send)) (lift_cb None) record_release sample_header
      \<lparr>ch_chunk = 9, ch_userHeader = [], ch_userPayload = [1, 2, 3, 4, 5]\<rparr> two_devices 0 1 releasing_writer = Inr s' \<and>
    snd (ws_world s') = [(1, 9), (1, 9)]"
proof -
  let ?r = "writeSegmented sample_env (with_releases (udp_ops ideal_send)) (lift_cb None) record_release sample_header
      \<lparr>ch_chunk = 9, ch_userHeader = [], ch_userPayload = [1, 2, 3, 4, 5]\<rparr> two_devices 0 1 releasing_writer"
  obtain s' where run: "?r = Inr s'"
    by (simp add: two_devices_def releasing_writer_def sample_registry_def sample_udp_def sample_env_def sample_header_def
        with_releases_def udp_ops_def record_release_def lift_cb_def ideal_send_def TRANSPORT_TYPE_COUNT_def MAX_DATAGRAM_SIZE_def
        doFor_def callGood_def checkFailed_def pendingFn_def isGood_def put_transport_def status_defs
        writeSegmentedInternal_def writeFn_def maxTransportPayloadSize_def maxIoxChunkDatagramHeaderSerializationSize_def
        divideAndRoundUp_def sendLoop.simps serializeHeader_ok udpSendUserData_def getEndpoint_def discoveredEndpoints_def
        setBroadcastFailed_def read_bytes_def)
  have "snd (ws_world s') = [(1, 9), (1, 9)]"
    using udp_release_per_device [OF run] unfolding releasing_writer_def two_devices_def by (simp add: numeral_eq_Suc)
  then show ?thesis using run by blast
qed

end
