(* ===== verification/Iox2Transport.thy ===== *)
theory Iox2Transport
  imports Gateway UdpTransport
begin

text \<open>
  \<^verbatim>\<open>Iceoryx2Transport\<close> (\<^verbatim>\<open>source/p3com/gateway/iox_to_transport.cpp\<close>): the subscribers of the
  gateway and what happens to a chunk taken from one of them. The endpoints are subscribers;
  the waitset is the list of the attached ones, attaching may fail (the parameter
  \<open>attach_ok\<close>). A transport layer reports the completion of a pending message from its own
  thread; the reports still to come are part of the state, so that the loop that waits for
  them is a recursion over them.
\<close>

section \<open>Channels\<close>

record subscriber =
  sub_ptr :: subscriber_ptr
  sub_service :: service_description

record i2t_state =
  i2t_waitset :: "subscriber_ptr list"
  i2t_unsubscribed :: "subscriber_ptr list"
  i2t_pending :: pending_messages
  i2t_completions :: "chunk_ptr list"
  i2t_released :: "(subscriber_ptr \<times> chunk_ptr) list"

text \<open>What the class takes from iceoryx.\<close>

record sub_env =
  newSubscriber :: "service_description \<Rightarrow> i2t_state \<Rightarrow> subscriber"
  attach_ok :: "subscriber_ptr \<Rightarrow> subscriber_ptr list \<Rightarrow> bool"

definition i2t_attach :: "sub_env \<Rightarrow> subscriber \<Rightarrow> i2t_state \<Rightarrow> i2t_state result" where
  "i2t_attach S e x =
     Inr (if attach_ok S (sub_ptr e) (i2t_waitset x)
          then x\<lparr>i2t_waitset := i2t_waitset x @ [sub_ptr e]\<rparr> else x)"

definition i2t_setupChannel :: "iox_env \<Rightarrow> sub_env \<Rightarrow> (subscriber, i2t_state) channel_fn" where
  "i2t_setupChannel E S = addChannel E (\<lambda>service x. (newSubscriber S service x, x)) (i2t_attach S)"

text \<open>
  The loop that yields until no message of the subscriber is pending: each turn lets the other
  threads report one more completion.
\<close>

fun awaitPending ::
  "subscriber_ptr \<Rightarrow> chunk_ptr list \<Rightarrow> pending_messages \<Rightarrow> (subscriber_ptr \<times> chunk_ptr) list
     \<Rightarrow> (chunk_ptr list \<times> pending_messages \<times> (subscriber_ptr \<times> chunk_ptr) list) result" where
  "awaitPending sub [] m rs = (if anyPending m sub then Inl Waits_Forever else Inr ([], m, rs))"
| "awaitPending sub (c # cs) m rs =
     (if anyPending m sub
      then case pm_release m c of (m', r) \<Rightarrow>
             awaitPending sub cs m' (case r of None \<Rightarrow> rs | Some x \<Rightarrow> rs @ [x])
      else Inr (c # cs, m, rs))"

definition i2t_detach :: "subscriber \<Rightarrow> i2t_state \<Rightarrow> i2t_state result" where
  "i2t_detach e x =
     (let x1 = x\<lparr>i2t_waitset := removeAll (sub_ptr e) (i2t_waitset x),
                 i2t_unsubscribed := i2t_unsubscribed x @ [sub_ptr e]\<rparr>
      in bindR (awaitPending (sub_ptr e) (i2t_completions x1) (i2t_pending x1) (i2t_released x1))
           (\<lambda>(cs, m, rs). Inr (x1\<lparr>i2t_completions := cs, i2t_pending := m, i2t_released := rs\<rparr>)))"

definition i2t_deleteChannel :: "iox_env \<Rightarrow> (subscriber, i2t_state) channel_fn" where
  "i2t_deleteChannel E = discardChannel E i2t_detach"

definition i2t_updateChannels ::
  "iox_env \<Rightarrow> sub_env \<Rightarrow> service_description list
     \<Rightarrow> (subscriber, i2t_state) gateway \<Rightarrow> (subscriber, i2t_state) gateway result" where
  "i2t_updateChannels E S services =
     updateChannelsInternal E sub_service services (i2t_setupChannel E S) (i2t_deleteChannel E)"

section \<open>Taking and sending a chunk\<close>

text \<open>The chunk a subscriber hands out, with the fields of its chunk header.\<close>

record taken_chunk =
  tc_chunk :: chunk_header
  tc_originId :: u64
  tc_userPayloadSize :: u32
  tc_userPayloadAlignment :: u32
  tc_hasUserHeader :: bool
  tc_userHeaderSize :: u32

text \<open>
  The header of a message; the submessage fields are set for every submessage by
  \<^verbatim>\<open>writeSegmented\<close> before they are used.
\<close>

definition datagramHeader :: "class_hash \<Rightarrow> hash \<Rightarrow> taken_chunk \<Rightarrow> datagram_header" where
  "datagramHeader svcHash msgHash tc =
     \<lparr>serviceHash = svcHash, messageHash = msgHash, submessageCount = 0, submessageOffset = 0,
      submessageSize = 0, userPayloadSize = tc_userPayloadSize tc,
      userPayloadAlignment = tc_userPayloadAlignment tc,
      userHeaderSize = (if tc_hasUserHeader tc then tc_userHeaderSize tc else 0)\<rparr>"

text \<open>
  The body of the waitset loop for one notification: \<open>taken\<close> is what \<^verbatim>\<open>subscriber.take()\<close>
  returned, \<open>msgHash\<close> the hash drawn for the message.
\<close>

definition i2t_notification ::
  "iox_env \<Rightarrow> 'w layer_ops \<Rightarrow> 'w fail_callback option \<Rightarrow> (subscriber_ptr \<Rightarrow> chunk_ptr \<Rightarrow> 'w \<Rightarrow> 'w)
     \<Rightarrow> mutex_ptr \<Rightarrow> subscriber \<Rightarrow> taken_chunk option \<Rightarrow> hash \<Rightarrow> discovery \<times> 'w writer_state
     \<Rightarrow> (discovery \<times> 'w writer_state) result" where
  "i2t_notification E ops cb rel mutex subscriber taken msgHash = (\<lambda>(d, s).
     case taken of
       None \<Rightarrow> Inr (d, s)
     | Some tc \<Rightarrow>
         let svcHash = getClassHash E (sub_service subscriber)
         in case generateDeviceIndices E (ws_ti s) d (tc_originId tc) svcHash of (d', deviceIndices) \<Rightarrow>
              if deviceIndices = []
              then Inr (d', s\<lparr>ws_world := rel (sub_ptr subscriber) (ch_chunk (tc_chunk tc)) (ws_world s)\<rparr>)
              else bindR (writeSegmented E ops cb rel (datagramHeader svcHash msgHash tc) (tc_chunk tc)
                            deviceIndices mutex (sub_ptr subscriber) s)
                     (\<lambda>s'. Inr (d', s')))"

section \<open>The wait ends\<close>

text \<open>Every pending message will be reported as completed.\<close>

definition completions_come :: "i2t_state \<Rightarrow> bool" where
  "completions_come x \<longleftrightarrow> pm_invar (i2t_pending x) \<and> dom (pm_abs (i2t_pending x)) \<subseteq> set (i2t_completions x)"

lemma awaitPending_returns:
  assumes "pm_invar m" "dom (pm_abs m) \<subseteq> set cs"
  shows "\<exists>cs' m' rs'. awaitPending sub cs m rs = Inr (cs', m', rs') \<and> pm_invar m' \<and> dom (pm_abs m') \<subseteq> set cs' \<and>
    \<not> anyPending m' sub"
  using assms
proof (induction sub cs m rs rule: awaitPending.induct)
  case (1 sub m rs)
  then have "\<not> anyPending m sub" by (auto simp: anyPending_iff dom_def)
  then show ?case using 1 by simp
next
  case (2 sub c cs m rs)
  show ?case
  proof (cases "anyPending m sub")
    case True
    obtain m' r where rel: "pm_release m c = (m', r)" by fastforce
    have inv: "pm_invar m'" and abs: "pm_abs m' = (pm_abs m)(c := None)"
      using pm_release_invar [OF "2.prems"(1), of c] pm_release_abs [OF "2.prems"(1), of c] rel by simp_all
    have dom: "dom (pm_abs m') \<subseteq> set cs" unfolding abs using "2.prems"(2) by auto
    show ?thesis using "2.IH" [OF True rel [symmetric] inv dom] True rel by simp
  next
    case False
    then show ?thesis using "2.prems" by simp
  qed
qed

lemma i2t_detach_ok:
  assumes "completions_come x"
  shows "\<exists>x'. i2t_detach e x = Inr x' \<and> completions_come x' \<and> \<not> anyPending (i2t_pending x') (sub_ptr e)"
proof -
  obtain cs m rs where "awaitPending (sub_ptr e) (i2t_completions x) (i2t_pending x) (i2t_released x) = Inr (cs, m, rs)"
    "pm_invar m" "dom (pm_abs m) \<subseteq> set cs" "\<not> anyPending m (sub_ptr e)"
    using awaitPending_returns [of "i2t_pending x" "i2t_completions x" "sub_ptr e" "i2t_released x"] assms
    by (auto simp: completions_come_def)
  then show ?thesis by (simp add: i2t_detach_def completions_come_def)
qed

section \<open>The channels follow the needed services\<close>

text \<open>The subscriber constructed for a service is one of that service.\<close>

locale subscriber_factory =
  fixes S :: sub_env
  assumes named: "sub_service (newSubscriber S s x) = s"

lemma i2t_setup_ok:
  assumes "subscriber_factory S" "completions_come x" "vm_invar MAX_TOPICS m" "vm_size m < MAX_TOPICS"
  shows "\<exists>e x'. i2t_setupChannel E S s (m, x) = Inr (fst (vm_emplace MAX_TOPICS m (getClassHash E s) e), x') \<and>
    completions_come x' \<and> sub_service e = s"
proof -
  have wf: "vm_wf MAX_TOPICS m" using assms(3) by (simp add: vm_invar_def)
  show ?thesis
    using assms(2) subscriber_factory.named [OF assms(1)] unfolding i2t_setupChannel_def
    by (simp add: addChannel_room [OF wf assms(4) refl] i2t_attach_def completions_come_def) blast
qed

lemma i2t_delete_ok:
  assumes "completions_come x" "vm_invar MAX_TOPICS m" "vm_lookup m (getClassHash E s) \<noteq> None"
  shows "\<exists>x'. i2t_deleteChannel E s (m, x) = Inr (vm_remove m (getClassHash E s), x') \<and> completions_come x'"
proof -
  have wf: "vm_wf MAX_TOPICS m" using assms(2) by (simp add: vm_invar_def)
  obtain e where "vm_lookup m (getClassHash E s) = Some e" using assms(3) by blast
  then show ?thesis
    using i2t_detach_ok [OF assms(1), of e] by (auto simp: i2t_deleteChannel_def discardChannel_eq [OF wf])
qed

sublocale subscriber_factory \<subseteq> channel_gateway E sub_service "i2t_setupChannel E S" "i2t_deleteChannel E" completions_come
  for E
  using i2t_setup_ok [OF subscriber_factory_axioms] i2t_delete_ok by unfold_locales blast+

text \<open>Subscribers numbered by the number of channels set up so far.\<close>

context subscriber_factory
begin

lemma i2t_channels:
  assumes "completions_come x" "ep_inv E sub_service m" "distinct services" "length services \<le> MAX_TOPICS"
    and "inj_on (getClassHash E) (set services \<union> endpoint_services sub_service m)"
  shows "\<exists>m' x'. i2t_updateChannels E S services (m, x) = Inr (m', x') \<and> completions_come x' \<and>
    ep_inv E sub_service m' \<and> endpoint_services sub_service m' = set services"
  using update_channels [OF assms] by (simp add: i2t_updateChannels_def)

end

definition numbered_subscribers :: sub_env where
  "numbered_subscribers =
     \<lparr>newSubscriber = (\<lambda>s x. \<lparr>sub_ptr = length (i2t_waitset x), sub_service = s\<rparr>), attach_ok = (\<lambda>_ _. True)\<rparr>"

interpretation numbered: subscriber_factory numbered_subscribers
  by unfold_locales (simp add: numbered_subscribers_def)

section \<open>Messages of the gateway are not sent back\<close>

lemma i2t_notification_gateway_publisher:
  assumes "tc_originId tc \<in> set (m_gatewayPublisherUids d)"
  shows "i2t_notification E ops cb rel mutex sub (Some tc) msgHash (d, s)
    = Inr (d, s\<lparr>ws_world := rel (sub_ptr sub) (ch_chunk (tc_chunk tc)) (ws_world s)\<rparr>)"
  using assms by (simp add: i2t_notification_def generateDeviceIndices_unknown)

section \<open>Properties\<close>


definition busy_subscriber :: i2t_state where
  "busy_subscriber = \<lparr>i2t_waitset = [4], i2t_unsubscribed = [], i2t_pending = fst (pm_push vm_empty 7 0 4),
     i2t_completions = [9, 7], i2t_released = []\<rparr>"


text \<open>
  No echo: a chunk that the gateway itself published, or whose publisher is not a user publisher of
  this host, is given back to its subscriber and sent nowhere; neither the manager nor the
  transports change.
\<close>

theorem no_echo:
  assumes "\<not> known_publisher d (tc_originId tc)"
  shows "i2t_notification E ops cb rel mutex sub (Some tc) msgHash (d, s)
    = Inr (d, s\<lparr>ws_world := rel (sub_ptr sub) (ch_chunk (tc_chunk tc)) (ws_world s)\<rparr>)"
  by (simp add: i2t_notification_def generateDeviceIndices_unknown [OF assms])

theorem no_echo_witness:
  "i2t_notification sample_env (udp_ops ideal_send) None (\<lambda>s c u. u) 0 \<lparr>sub_ptr = 1, sub_service = sample_service\<rparr>
     (Some \<lparr>tc_chunk = \<lparr>ch_chunk = 9, ch_userHeader = [], ch_userPayload = [1]\<rparr>, tc_originId = 42, tc_userPayloadSize = 1,
       tc_userPayloadAlignment = 1, tc_hasUserHeader = False, tc_userHeaderSize = 0\<rparr>) 5
     (addGatewayPublisher sample_env 42 sample_discovery, sample_writer)
   = Inr (addGatewayPublisher sample_env 42 sample_discovery, sample_writer)"
  using no_echo [where d = "addGatewayPublisher sample_env 42 sample_discovery" and E = sample_env and ops = "udp_ops ideal_send"
      and tc = "\<lparr>tc_chunk = \<lparr>ch_chunk = 9, ch_userHeader = [], ch_userPayload = [1]\<rparr>, tc_originId = 42, tc_userPayloadSize = 1,
       tc_userPayloadAlignment = 1, tc_hasUserHeader = False, tc_userHeaderSize = 0\<rparr>" and cb = None and rel = "\<lambda>s c u. u"
      and mutex = 0 and sub = "\<lparr>sub_ptr = 1, sub_service = sample_service\<rparr>" and msgHash = 5 and s = sample_writer]
  by (simp add: addGatewayPublisher_def sample_discovery_def new_discovery_def push_back_def sample_env_def)

end
