(* ===== verification/Forwarder.thy ===== *)
theory Forwarder
  imports Iox2Transport
begin

text \<open>
  \<^verbatim>\<open>TransportForwarder\<close> (\<^verbatim>\<open>source/p3com/generic/transport_forwarder.cpp\<close>): messages of the
  configured services that arrived over one transport layer are sent on to the gateways that
  share no transport layer with the source. \<^verbatim>\<open>push\<close> remembers where a published chunk came
  from; the waitset loop looks that up when the chunk reaches the forwarding subscriber.
\<close>

section \<open>Operations\<close>

record forwarder =
  m_forwardedServiceHashes :: "class_hash list"
  m_messagesToForward :: "(chunk_ptr, device_index) vector_map"

definition new_forwarder :: "iox_env \<Rightarrow> service_description list \<Rightarrow> forwarder" where
  "new_forwarder E forwardedServices =
     \<lparr>m_forwardedServiceHashes = push_all MAX_FORWARDED_SERVICES [] (map (getClassHash E) forwardedServices),
      m_messagesToForward = vm_empty\<rparr>"

definition fw_push :: "chunk_ptr \<Rightarrow> class_hash \<Rightarrow> device_index \<Rightarrow> forwarder \<Rightarrow> forwarder" where
  "fw_push userPayload hash deviceIndex fw =
     (if containsElement (m_forwardedServiceHashes fw) hash
      then fw\<lparr>m_messagesToForward :=
                fst (vm_emplace MAX_FORWARDED_SERVICES (m_messagesToForward fw) userPayload deviceIndex)\<rparr>
      else fw)"

text \<open>
  Looking the source up: the iterator that \<^verbatim>\<open>find\<close> returns is compared with a null pointer,
  which it never is, and dereferenced. Without the lookup the variable stays uninitialised.
\<close>

definition fw_source :: "chunk_ptr \<Rightarrow> class_hash \<Rightarrow> forwarder \<Rightarrow> (device_index \<times> forwarder) result" where
  "fw_source userPayload hash fw =
     (if containsElement (m_forwardedServiceHashes fw) hash
      then let it = vm_find (m_messagesToForward fw) userPayload
           in bindR (vm_deref (m_messagesToForward fw) it) (\<lambda>deviceIndex.
              Inr (deviceIndex, fw\<lparr>m_messagesToForward := vm_erase (m_messagesToForward fw) it\<rparr>))
      else Inl Uninitialised_Read)"

text \<open>The body of the waitset loop for one notification.\<close>

definition fw_notification ::
  "iox_env \<Rightarrow> 'w layer_ops \<Rightarrow> 'w fail_callback option \<Rightarrow> (subscriber_ptr \<Rightarrow> chunk_ptr \<Rightarrow> 'w \<Rightarrow> 'w)
     \<Rightarrow> mutex_ptr \<Rightarrow> subscriber \<Rightarrow> taken_chunk option \<Rightarrow> hash \<Rightarrow> discovery \<Rightarrow> forwarder \<times> 'w writer_state
     \<Rightarrow> (forwarder \<times> 'w writer_state) result" where
  "fw_notification E ops cb rel mutex subscriber taken msgHash d = (\<lambda>(fw, s).
     case taken of
       None \<Rightarrow> Inr (fw, s)
     | Some tc \<Rightarrow>
         let svcHash = getClassHash E (sub_service subscriber);
             chunk = ch_chunk (tc_chunk tc)
         in bindR (fw_source chunk svcHash fw) (\<lambda>(deviceIndex, fw').
            let deviceIndices = generateDeviceIndicesForwarding E (ws_ti s) d svcHash deviceIndex
            in if deviceIndices = []
               then Inr (fw', s\<lparr>ws_world := rel (sub_ptr subscriber) chunk (ws_world s)\<rparr>)
               else bindR (writeSegmented E ops cb rel (datagramHeader svcHash msgHash tc) (tc_chunk tc)
                             deviceIndices mutex (sub_ptr subscriber) s)
                      (\<lambda>s'. Inr (fw', s'))))"

section \<open>Remembering the source\<close>

definition fw_inv :: "forwarder \<Rightarrow> bool" where
  "fw_inv fw \<longleftrightarrow> vm_invar MAX_FORWARDED_SERVICES (m_messagesToForward fw)"

lemma new_forwarder_inv: "fw_inv (new_forwarder E ss)"
  by (simp add: fw_inv_def new_forwarder_def vm.invar_empty)

lemma fw_push_inv:
  "fw_inv fw \<Longrightarrow> vm_lookup (m_messagesToForward fw) p = None \<Longrightarrow> fw_inv (fw_push p h i fw)"
  by (simp add: fw_inv_def fw_push_def vm.invar_emplace)

lemma fw_source_eq:
  assumes "fw_inv fw" "h \<in> set (m_forwardedServiceHashes fw)"
  shows "fw_source p h fw = (case vm_lookup (m_messagesToForward fw) p of
      None \<Rightarrow> Inl Out_Of_Bounds
    | Some i \<Rightarrow> Inr (i, fw\<lparr>m_messagesToForward := vm_remove (m_messagesToForward fw) p\<rparr>))"
proof -
  have wf: "vm_wf MAX_FORWARDED_SERVICES (m_messagesToForward fw)"
    using assms(1) by (simp add: fw_inv_def vm_invar_def)
  then show ?thesis
    using assms(2) by (cases rule: vm_find_cases [where k = p])
      (simp_all add: fw_source_def vm_deref_def read_at_def vm_end_wf [OF wf] vm_remove_def)
qed

end
