(* ===== verification/SegmentedMessages.thy ===== *)
theory SegmentedMessages
  imports VectorMap Types
begin

text \<open>
  \<^verbatim>\<open>SegmentedMessageManager\<close> (\<^verbatim>\<open>source/p3com/generic/segmented_messages.cpp\<close>): the
  partially received messages, by message hash. Buffers, publishers and mutexes are
  identified by their addresses, a null user header pointer is \<open>None\<close>, time points count
  nanoseconds. Calls of \<^verbatim>\<open>publisher.release(userPayload)\<close> are outputs of the operations.
\<close>

section \<open>Operations\<close>

type_synonym buffer_ptr = nat
type_synonym publisher_ptr = nat
type_synonym time_point = int

record segmented_message =
  remainingSegments :: u32
  sm_userHeader :: "buffer_ptr option"
  sm_userPayload :: buffer_ptr
  sm_mutex :: nat
  sm_publisher :: publisher_ptr
  deadline :: time_point

type_synonym segmented_messages = "(hash, segmented_message) vector_map"
type_synonym pub_release = "publisher_ptr \<times> buffer_ptr"

definition MAX_SEGMENTED_MESSAGE_COUNT :: nat where
  "MAX_SEGMENTED_MESSAGE_COUNT = 64"

definition release_of :: "segmented_message \<Rightarrow> pub_release" where
  "release_of msg = (sm_publisher msg, sm_userPayload msg)"

text \<open>
  One turn of the timeout loop removes the first expired message; the loop ends when there is
  none.
\<close>

function checkSegmentedMessages ::
  "time_point \<Rightarrow> segmented_messages \<Rightarrow> segmented_messages \<times> pub_release list" where
  "checkSegmentedMessages now m =
     (let it = find_if (\<lambda>msg. deadline msg < now) (m_elems m)
      in if it < length (m_elems m)
         then (case checkSegmentedMessages now (vm_erase m it) of
                 (m', rs) \<Rightarrow> (m', release_of (m_elems m ! it) # rs))
         else (m, []))"
  by pat_completeness auto
termination
  by (relation "measure (\<lambda>(now, m). length (m_elems m))")
    (auto simp: vm_erase_def length_erase_at)

declare checkSegmentedMessages.simps [simp del]

definition sm_push ::
  "segmented_messages \<Rightarrow> hash \<Rightarrow> segmented_message \<Rightarrow> segmented_messages \<times> pub_release option" where
  "sm_push m msgHash msg =
     (case vm_emplace MAX_SEGMENTED_MESSAGE_COUNT m msgHash msg of
        (m', emplaced) \<Rightarrow> (m', if emplaced then None else Some (release_of msg)))"

text \<open>
  The result is the pair of buffer pointers and \<^verbatim>\<open>shouldPublish\<close>; \<open>None\<close> is the return value
  false.
\<close>

definition findAndDecrement ::
  "segmented_messages \<Rightarrow> hash
     \<Rightarrow> segmented_messages \<times> (buffer_ptr option \<times> buffer_ptr \<times> bool) option" where
  "findAndDecrement m msgHash =
     (let msgIt = vm_find m msgHash
      in if msgIt \<noteq> vm_end m
         then let msg = m_elems m ! msgIt;
                  msg' = msg\<lparr>remainingSegments := remainingSegments msg - 1\<rparr>;
                  m1 = vm_assign m msgIt msg'
              in if remainingSegments msg' = 0
                 then (vm_erase m1 msgIt, Some (sm_userHeader msg, sm_userPayload msg, True))
                 else (m1, Some (sm_userHeader msg, sm_userPayload msg, False))
         else (m, None))"

definition sm_find :: "segmented_messages \<Rightarrow> hash \<Rightarrow> (buffer_ptr option \<times> buffer_ptr) option" where
  "sm_find m msgHash =
     (let msgIt = vm_find m msgHash
      in if msgIt \<noteq> vm_end m
         then Some (sm_userHeader (m_elems m ! msgIt), sm_userPayload (m_elems m ! msgIt))
         else None)"

definition sm_release :: "segmented_messages \<Rightarrow> hash \<Rightarrow> segmented_messages \<times> pub_release option" where
  "sm_release m msgHash =
     (let msgIt = vm_find m msgHash
      in if msgIt \<noteq> vm_end m then (vm_erase m msgIt, Some (release_of (m_elems m ! msgIt)))
         else (m, None))"

text \<open>\<^verbatim>\<open>releaseAll\<close> walks from \<^verbatim>\<open>end()\<close> to \<^verbatim>\<open>begin()\<close>; \<open>it\<close> is the distance from \<^verbatim>\<open>begin()\<close>.\<close>

fun releaseAll_loop ::
  "publisher_ptr \<Rightarrow> nat \<Rightarrow> segmented_messages \<Rightarrow> segmented_messages \<times> pub_release list" where
  "releaseAll_loop publisher 0 m = (m, [])"
| "releaseAll_loop publisher (Suc msgIt) m =
     (if sm_publisher (m_elems m ! msgIt) = publisher
      then (case releaseAll_loop publisher msgIt (vm_erase m msgIt) of
              (m', rs) \<Rightarrow> (m', release_of (m_elems m ! msgIt) # rs))
      else releaseAll_loop publisher msgIt m)"

definition releaseAll :: "segmented_messages \<Rightarrow> publisher_ptr \<Rightarrow> segmented_messages \<times> pub_release list" where
  "releaseAll m publisher = releaseAll_loop publisher (vm_end m) m"

section \<open>Behaviour in terms of the map\<close>

definition sm_invar :: "segmented_messages \<Rightarrow> bool" where
  "sm_invar m \<longleftrightarrow> vm_invar MAX_SEGMENTED_MESSAGE_COUNT m"

lemma sm_invar_wf: "sm_invar m \<Longrightarrow> vm_wf MAX_SEGMENTED_MESSAGE_COUNT m"
  by (simp add: sm_invar_def vm_invar_def)

lemma sm_invar_empty: "sm_invar vm_empty"
  unfolding sm_invar_def by (rule vm.invar_empty)

lemma sm_find_eq:
  assumes "sm_invar m"
  shows "sm_find m h = map_option (\<lambda>msg. (sm_userHeader msg, sm_userPayload msg)) (vm_lookup m h)"
  using sm_invar_wf [OF assms]
  by (cases rule: vm_find_cases [where k = h]) (simp_all add: sm_find_def)

lemma findAndDecrement_eq:
  assumes "sm_invar m"
  shows "findAndDecrement m h =
    (case vm_lookup m h of
       None \<Rightarrow> (m, None)
     | Some msg \<Rightarrow>
         if remainingSegments msg = 1
         then (vm_remove m h, Some (sm_userHeader msg, sm_userPayload msg, True))
         else (vm_modify m h (\<lambda>msg. msg\<lparr>remainingSegments := remainingSegments msg - 1\<rparr>),
               Some (sm_userHeader msg, sm_userPayload msg, False)))"
  using sm_invar_wf [OF assms]
  by (cases rule: vm_find_cases [where k = h])
    (simp_all add: findAndDecrement_def vm_remove_def vm_modify_def vm_erase_assign)

lemma sm_release_eq:
  assumes "sm_invar m"
  shows "sm_release m h = (vm_remove m h, map_option release_of (vm_lookup m h))"
  using sm_invar_wf [OF assms]
proof (cases rule: vm_find_cases [where k = h])
  case absent
  then have "vm_remove m h = m"
    using sm_invar_wf [OF assms] by (simp add: vm_remove_def vm_erase_def vm_end_def vm_wf_def)
  with absent show ?thesis by (simp add: sm_release_def)
next
  case present
  then show ?thesis by (simp add: sm_release_def vm_remove_def)
qed

lemma sm_push_room:
  assumes "sm_invar m" "vm_lookup m h = None" "vm_size m < MAX_SEGMENTED_MESSAGE_COUNT"
  shows "snd (sm_push m h msg) = None \<and> sm_invar (fst (sm_push m h msg)) \<and>
    vm_lookup (fst (sm_push m h msg)) = (vm_lookup m)(h \<mapsto> msg)"
  using assms vm.emplace_accepts [of MAX_SEGMENTED_MESSAGE_COUNT m h msg]
    vm.lookup_emplace [of MAX_SEGMENTED_MESSAGE_COUNT m h msg]
    vm.invar_emplace [of MAX_SEGMENTED_MESSAGE_COUNT m h msg]
  by (auto simp: sm_push_def sm_invar_def split_beta)

lemma sm_push_full:
  assumes "sm_invar m" "\<not> vm_size m < MAX_SEGMENTED_MESSAGE_COUNT"
  shows "sm_push m h msg = (m, Some (release_of msg))"
  using assms sm_invar_wf [OF assms(1)] by (simp add: sm_push_def vm_emplace_full)

lemma sm_push_invar: "sm_invar m \<Longrightarrow> vm_lookup m h = None \<Longrightarrow> sm_invar (fst (sm_push m h msg))"
  by (auto simp: sm_push_def sm_invar_def split_beta intro: vm.invar_emplace)

lemma findAndDecrement_invar: "sm_invar m \<Longrightarrow> sm_invar (fst (findAndDecrement m h))"
  using vm.invar_remove vm.invar_modify
  by (auto simp: findAndDecrement_eq sm_invar_def split: option.splits)

lemma sm_release_invar: "sm_invar m \<Longrightarrow> sm_invar (fst (sm_release m h))"
  using vm.invar_remove by (simp add: sm_release_eq) (simp add: sm_invar_def)

lemma findAndDecrement_present:
  assumes "sm_invar m" "vm_lookup m h = Some msg"
  shows "\<exists>sm. findAndDecrement m h = (sm, Some (sm_userHeader msg, sm_userPayload msg, remainingSegments msg = 1)) \<and>
    sm_invar sm \<and> vm_lookup sm = (vm_lookup m)(h :=
      (if remainingSegments msg = 1 then None else Some (msg\<lparr>remainingSegments := remainingSegments msg - 1\<rparr>)))"
proof -
  let ?dec = "\<lambda>msg. msg\<lparr>remainingSegments := remainingSegments msg - 1\<rparr>"
  have vm: "vm_invar MAX_SEGMENTED_MESSAGE_COUNT m" using assms(1) by (simp add: sm_invar_def)
  have "vm_lookup (vm_remove m h) = (vm_lookup m)(h := None)"
    "vm_lookup (vm_modify m h ?dec) = (vm_lookup m)(h \<mapsto> ?dec msg)"
    using vm.lookup_remove [OF vm, of h] vm.lookup_modify [OF vm, of h ?dec] assms(2) by simp_all
  then show ?thesis
    using findAndDecrement_eq [OF assms(1), of h] findAndDecrement_invar [OF assms(1), of h] assms(2)
    by (cases "remainingSegments msg = 1") simp_all
qed

section \<open>Timeouts and channel removal\<close>

text \<open>Reference definitions: keep the entries with a property, in order.\<close>

definition vm_keep :: "('v \<Rightarrow> bool) \<Rightarrow> ('k, 'v) vector_map \<Rightarrow> ('k, 'v) vector_map" where
  "vm_keep P m = \<lparr>m_keys = map fst (filter (\<lambda>(k, v). P v) (vm_alist m)), m_elems = filter P (m_elems m)\<rparr>"

lemma filter_zip_elems:
  "length ks = length vs \<Longrightarrow> map snd (filter (\<lambda>(k, v). P v) (zip ks vs)) = filter P vs"
  by (induction ks vs rule: list_induct2) auto

lemma filter_erase_at:
  "i < length xs \<Longrightarrow> \<not> P (xs ! i) \<Longrightarrow> filter P (erase_at i xs) = filter P xs"
proof (induction xs arbitrary: i)
  case Nil
  then show ?case by simp
next
  case (Cons x xs)
  then show ?case by (cases i) auto
qed

lemma filter_not_erase_at_find_if:
  "find_if P xs < length xs \<Longrightarrow> filter P xs = xs ! find_if P xs # filter P (erase_at (find_if P xs) xs)"
  by (induction xs) auto

lemma vm_keep_erase:
  assumes "vm_wf cap m" "i < length (m_elems m)" "\<not> P (m_elems m ! i)"
  shows "vm_keep P (vm_erase m i) = vm_keep P m"
  using assms
  by (simp add: vm_keep_def vm_erase_def zip_erase_at filter_erase_at vm_wf_def)

lemma vm_keep_all:
  assumes "vm_wf cap m" "\<forall>v \<in> set (m_elems m). P v"
  shows "vm_keep P m = m"
proof -
  have "filter (\<lambda>(k, v). P v) (vm_alist m) = vm_alist m"
    using assms(2) by (auto simp: filter_id_conv dest: set_zip_rightD)
  then show ?thesis
    using assms by (cases m) (auto simp: vm_keep_def vm_wf_def filter_id_conv)
qed

lemma vm_keep_invar:
  assumes "vm_invar cap m"
  shows "vm_invar cap (vm_keep P m)"
proof -
  have len: "length (m_keys m) = length (m_elems m)" and "length (m_elems m) \<le> cap"
    using assms by (auto simp: vm_invar_def vm_wf_def)
  have "map fst (vm_alist m) = m_keys m" using len by simp
  then have "distinct (map fst (filter (\<lambda>(k, v). P v) (vm_alist m)))"
    using assms distinct_map_filter [of fst "vm_alist m"] by (simp add: vm_invar_def)
  moreover have "length (filter P (m_elems m)) \<le> cap"
    using \<open>_ \<le> cap\<close> length_filter_le order_trans by blast
  moreover have "length (filter (\<lambda>(k, v). P v) (vm_alist m)) = length (filter P (m_elems m))"
    using filter_zip_elems [OF len, of P] by (metis length_map)
  ultimately show ?thesis by (simp add: vm_invar_def vm_wf_def vm_keep_def)
qed

lemma checkSegmentedMessages_eq:
  assumes "vm_wf cap m"
  shows "checkSegmentedMessages now m =
    (vm_keep (\<lambda>msg. \<not> deadline msg < now) m, map release_of (filter (\<lambda>msg. deadline msg < now) (m_elems m)))"
  using assms
proof (induction now m rule: checkSegmentedMessages.induct)
  case (1 now m)
  let ?P = "\<lambda>msg. deadline msg < now"
  let ?it = "find_if ?P (m_elems m)"
  show ?case
  proof (cases "?it < length (m_elems m)")
    case True
    note IH = "1.IH" [OF refl True vm_erase_wf [OF "1.prems"]]
    have "vm_keep (\<lambda>msg. \<not> ?P msg) (vm_erase m ?it) = vm_keep (\<lambda>msg. \<not> ?P msg) m"
      using True find_if_nth [OF True] by (intro vm_keep_erase [OF "1.prems"]) auto
    then show ?thesis
      using True IH filter_not_erase_at_find_if [OF True]
      by (simp add: checkSegmentedMessages.simps [of now m] vm_erase_def)
  next
    case False
    then have none: "\<forall>v \<in> set (m_elems m). \<not> ?P v"
      by (simp add: find_if_less)
    then show ?thesis
      using False vm_keep_all [OF "1.prems", of "\<lambda>msg. \<not> ?P msg"]
      by (simp add: checkSegmentedMessages.simps [of now m] filter_empty_conv)
  qed
qed

lemma take_erase_at: "n \<le> i \<Longrightarrow> take n (erase_at i xs) = take n xs"
  by (simp add: erase_at_def min_def)

lemma filter_take_Suc_rev:
  "n < length xs \<Longrightarrow> rev (filter P (take (Suc n) xs)) =
     (if P (xs ! n) then [xs ! n] else []) @ rev (filter P (take n xs))"
  by (simp add: take_Suc_conv_app_nth)

lemma releaseAll_loop_eq:
  assumes "vm_wf cap m" "n \<le> length (m_elems m)"
    and "\<forall>v \<in> set (drop n (m_elems m)). sm_publisher v \<noteq> p"
  shows "releaseAll_loop p n m =
    (vm_keep (\<lambda>msg. sm_publisher msg \<noteq> p) m,
     map release_of (rev (filter (\<lambda>msg. sm_publisher msg = p) (take n (m_elems m)))))"
  using assms
proof (induction p n m rule: releaseAll_loop.induct)
  case (1 p m)
  then show ?case by (simp add: vm_keep_all)
next
  case (2 p n m)
  have drop: "drop n (m_elems m) = m_elems m ! n # drop (Suc n) (m_elems m)"
    using "2.prems"(2) by (simp add: Cons_nth_drop_Suc)
  show ?case
  proof (cases "sm_publisher (m_elems m ! n) = p")
    case True
    let ?m = "vm_erase m n"
    have elems: "m_elems ?m = erase_at n (m_elems m)" by (simp add: vm_erase_def)
    have "drop n (m_elems ?m) = drop (Suc n) (m_elems m)"
      using "2.prems"(2) by (simp add: elems erase_at_def)
    moreover have "n \<le> length (m_elems ?m)"
      using "2.prems"(2) by (simp add: elems length_erase_at)
    ultimately have IH: "releaseAll_loop p n ?m = (vm_keep (\<lambda>msg. sm_publisher msg \<noteq> p) ?m,
        map release_of (rev (filter (\<lambda>msg. sm_publisher msg = p) (take n (m_elems ?m)))))"
      using "2.IH"(1) [OF True vm_erase_wf [OF "2.prems"(1)]] "2.prems"(3) by simp
    have "vm_keep (\<lambda>msg. sm_publisher msg \<noteq> p) ?m = vm_keep (\<lambda>msg. sm_publisher msg \<noteq> p) m"
      using True "2.prems" by (intro vm_keep_erase) auto
    then show ?thesis
      using True IH "2.prems"(2) by (simp add: elems take_erase_at filter_take_Suc_rev)
  next
    case False
    then show ?thesis
      using "2.IH"(2) [OF False "2.prems"(1)] "2.prems"(2,3) drop
      by (simp add: filter_take_Suc_rev)
  qed
qed

lemma releaseAll_eq:
  assumes "vm_wf cap m"
  shows "releaseAll m p =
    (vm_keep (\<lambda>msg. sm_publisher msg \<noteq> p) m,
     map release_of (rev (filter (\<lambda>msg. sm_publisher msg = p) (m_elems m))))"
  using releaseAll_loop_eq [OF assms, of "vm_end m" p] by (simp add: releaseAll_def vm_end_def)

end
