(* ===== verification/Transport2Iox.thy ===== *)
theory Transport2Iox
  imports Forwarder SegmentedMessages
begin

text \<open>
  \<^verbatim>\<open>Transport2Iceoryx\<close> (\<^verbatim>\<open>source/p3com/gateway/transport_to_iox.cpp\<close>): datagrams received over a
  transport layer are put together in chunks loaned from the publisher of their service, and a
  complete chunk is published. Chunks are explicit: \<open>chunks\<close> holds the memory of every chunk
  that is loaned and neither published nor released; using another one is a fault. A chunk and
  both pointers into it are identified by its address. What the operations achieve is shown in
  the theories \<open>Reassembly\<close> and \<open>ChunkSafety\<close>.
\<close>

section \<open>State\<close>

record chunk_mem =
  ck_userHeader :: "byte list"
  ck_userPayload :: "byte list"

datatype iox_event =
    Published publisher_ptr buffer_ptr chunk_mem
  | Released publisher_ptr buffer_ptr

record publisher =
  pub_ptr :: publisher_ptr
  pub_uid :: u64
  pub_service :: service_description

record t2i_state =
  segmented :: segmented_messages
  chunks :: "buffer_ptr \<rightharpoonup> chunk_mem"
  iox_events :: "iox_event list"
  t2i_forwarder :: forwarder
  t2i_discovery :: discovery

text \<open>
  What the class takes from iceoryx: the constructor of a publisher, \<^verbatim>\<open>publisher.loan\<close> (the chunk
  and its uninitialised memory, or an error) and the two constants for chunks without user
  header.
\<close>

record loan_request =
  lr_userPayloadSize :: u32
  lr_userPayloadAlignment :: u32
  lr_userHeaderSize :: u32
  lr_userHeaderAlignment :: u32

record pub_env =
  newPublisher :: "service_description \<Rightarrow> t2i_state \<Rightarrow> publisher"
  loan :: "publisher_ptr \<Rightarrow> loan_request \<Rightarrow> (buffer_ptr \<rightharpoonup> chunk_mem) \<Rightarrow> (buffer_ptr \<times> chunk_mem) option"
  CHUNK_NO_USER_HEADER_SIZE :: u32
  CHUNK_NO_USER_HEADER_ALIGNMENT :: u32

text \<open>A loaned chunk is not one that is in use, and has the sizes asked for.\<close>

definition loans_fresh :: "pub_env \<Rightarrow> bool" where
  "loans_fresh G \<longleftrightarrow> (\<forall>p r H q c. loan G p r H = Some (q, c) \<longrightarrow>
     q \<notin> dom H \<and> length (ck_userPayload c) = unat (lr_userPayloadSize r) \<and>
     (lr_userHeaderSize r \<noteq> CHUNK_NO_USER_HEADER_SIZE G \<longrightarrow> length (ck_userHeader c) = unat (lr_userHeaderSize r))) \<and>
   CHUNK_NO_USER_HEADER_SIZE G = 0"

section \<open>Chunks\<close>

definition release_chunk :: "pub_release \<Rightarrow> t2i_state \<Rightarrow> t2i_state" where
  "release_chunk r x = x\<lparr>chunks := (chunks x)(snd r := None), iox_events := iox_events x @ [Released (fst r) (snd r)]\<rparr>"

definition release_chunks :: "pub_release list \<Rightarrow> t2i_state \<Rightarrow> t2i_state" where
  "release_chunks rs x = fold release_chunk rs x"

text \<open>Both callers request the same chunk; a null user header pointer is \<open>None\<close>.\<close>

definition loanChunk ::
  "pub_env \<Rightarrow> datagram_header \<Rightarrow> publisher \<Rightarrow> t2i_state \<Rightarrow> (buffer_ptr option \<times> buffer_ptr \<times> t2i_state) option" where
  "loanChunk G h pub x =
     (let hasUserHeader = userHeaderSize h \<noteq> 0;
          request = \<lparr>lr_userPayloadSize = userPayloadSize h, lr_userPayloadAlignment = userPayloadAlignment h,
                     lr_userHeaderSize = (if hasUserHeader then userHeaderSize h else CHUNK_NO_USER_HEADER_SIZE G),
                     lr_userHeaderAlignment = (if hasUserHeader then USER_HEADER_ALIGNMENT
                                               else CHUNK_NO_USER_HEADER_ALIGNMENT G)\<rparr>
      in case loan G (pub_ptr pub) request (chunks x) of
           None \<Rightarrow> None
         | Some (p, c) \<Rightarrow> Some (if hasUserHeader then Some p else None, p, x\<lparr>chunks := (chunks x)(p \<mapsto> c)\<rparr>))"

definition NS_PER_BYTE :: int where
  "NS_PER_BYTE = 500"

text \<open>The sum of the sizes is a 32-bit number; the product with the duration is not.\<close>

definition pushSegmented ::
  "time_point \<Rightarrow> nat \<Rightarrow> datagram_header \<Rightarrow> u32 \<Rightarrow> buffer_ptr option \<Rightarrow> buffer_ptr \<Rightarrow> publisher \<Rightarrow> t2i_state \<Rightarrow> t2i_state" where
  "pushSegmented now mutex h remaining uh up pub x =
     (case sm_push (segmented x) (messageHash h)
             \<lparr>remainingSegments = remaining, sm_userHeader = uh, sm_userPayload = up, sm_mutex = mutex,
              sm_publisher = pub_ptr pub,
              deadline = now + NS_PER_BYTE * int (unat (userHeaderSize h + userPayloadSize h))\<rparr>
      of (sm, r) \<Rightarrow>
        let x1 = x\<lparr>segmented := sm\<rparr> in case r of None \<Rightarrow> x1 | Some rel \<Rightarrow> release_chunk rel x1)"

definition publishChunk ::
  "datagram_header \<Rightarrow> device_index \<Rightarrow> publisher \<Rightarrow> buffer_ptr \<Rightarrow> t2i_state \<Rightarrow> t2i_state result" where
  "publishChunk h deviceIndex pub up x =
     (case chunks x up of
        None \<Rightarrow> Inl Use_After_Release
      | Some c \<Rightarrow>
          Inr (x\<lparr>t2i_forwarder := fw_push up (serviceHash h) deviceIndex (t2i_forwarder x),
                 chunks := (chunks x)(up := None),
                 iox_events := iox_events x @ [Published (pub_ptr pub) up c]\<rparr>))"

text \<open>\<^verbatim>\<open>takeNext\<close> on the memory of the chunk.\<close>

definition fillChunk ::
  "datagram_header \<Rightarrow> byte list \<Rightarrow> buffer_ptr option \<Rightarrow> buffer_ptr \<Rightarrow> t2i_state \<Rightarrow> t2i_state result" where
  "fillChunk h data uh up x =
     (case chunks x up of
        None \<Rightarrow> Inl Use_After_Release
      | Some c \<Rightarrow>
          bindR (takeNext h data (map_option (\<lambda>_. ck_userHeader c) uh) (Some (ck_userPayload c))) (\<lambda>(hb, pb).
          Inr (x\<lparr>chunks := (chunks x)(up \<mapsto> \<lparr>ck_userHeader = (case hb of None \<Rightarrow> ck_userHeader c | Some b \<Rightarrow> b),
                                            ck_userPayload = (case pb of None \<Rightarrow> ck_userPayload c | Some b \<Rightarrow> b)\<rparr>)\<rparr>)))"

section \<open>Callbacks of the transport layers\<close>

definition receiveChannel ::
  "pub_env \<Rightarrow> time_point \<Rightarrow> nat \<Rightarrow> datagram_header \<Rightarrow> byte list \<Rightarrow> device_index \<Rightarrow> publisher \<Rightarrow> t2i_state \<Rightarrow> t2i_state result" where
  "receiveChannel G now mutex h data deviceIndex pub x =
     (case findAndDecrement (segmented x) (messageHash h) of
        (sm, Some (uh, up, shouldPublish)) \<Rightarrow>
          bindR (fillChunk h data uh up (x\<lparr>segmented := sm\<rparr>)) (\<lambda>x1.
          if shouldPublish then publishChunk h deviceIndex pub up x1 else Inr x1)
      | (sm, None) \<Rightarrow>
          (case loanChunk G h pub (x\<lparr>segmented := sm\<rparr>) of
             None \<Rightarrow> Inr (x\<lparr>segmented := sm\<rparr>)
           | Some (uh, up, x1) \<Rightarrow>
               if 1 < submessageCount h
               then fillChunk h data uh up (pushSegmented now mutex h (submessageCount h - 1) uh up pub x1)
               else bindR (fillChunk h data uh up x1) (publishChunk h deviceIndex pub up)))"

definition receive ::
  "iox_env \<Rightarrow> pub_env \<Rightarrow> time_point \<Rightarrow> nat \<Rightarrow> byte list \<Rightarrow> nat \<Rightarrow> device_index
     \<Rightarrow> (publisher, t2i_state) gateway \<Rightarrow> t2i_state result" where
  "receive E G now mutex bytes sz deviceIndex = (\<lambda>(m, x).
     bindR (deserializeHeader E bytes sz) (\<lambda>(h, n).
     if sz \<noteq> unat (submessageSize h + word_of_nat n) then Inr x
     else doForChannel (serviceHash h) (receiveChannel G now mutex h (drop n bytes) deviceIndex) (m, x)))"

text \<open>The buffer a layer may write into: the chunk and whether it is the header or the payload.\<close>

datatype loaned_buffer = Header_Of buffer_ptr | Payload_Of buffer_ptr

definition loanChannel ::
  "pub_env \<Rightarrow> time_point \<Rightarrow> nat \<Rightarrow> datagram_header \<Rightarrow> publisher \<Rightarrow> t2i_state \<times> loaned_buffer option
     \<Rightarrow> (t2i_state \<times> loaned_buffer option) result" where
  "loanChannel G now mutex h pub = (\<lambda>(x, bufferPtr).
     let buffer = (\<lambda>uh up. if submessageOffset h < userHeaderSize h then map_option Header_Of uh else Some (Payload_Of up))
     in case sm_find (segmented x) (messageHash h) of
          Some (uh, up) \<Rightarrow> Inr (x, buffer uh up)
        | None \<Rightarrow>
            (case loanChunk G h pub x of
               None \<Rightarrow> Inr (x, bufferPtr)
             | Some (uh, up, x1) \<Rightarrow> Inr (pushSegmented now mutex h (submessageCount h) uh up pub x1, buffer uh up)))"

definition loanBuffer ::
  "iox_env \<Rightarrow> pub_env \<Rightarrow> time_point \<Rightarrow> nat \<Rightarrow> byte list \<Rightarrow> nat
     \<Rightarrow> (publisher, t2i_state) gateway \<Rightarrow> (t2i_state \<times> loaned_buffer option) result" where
  "loanBuffer E G now mutex bytes sz = (\<lambda>(m, x).
     bindR (deserializeHeader E bytes sz) (\<lambda>(h, n).
     doForChannel (serviceHash h) (loanChannel G now mutex h) (m, (x, None))))"

definition releaseChannel ::
  "datagram_header \<Rightarrow> bool \<Rightarrow> device_index \<Rightarrow> publisher \<Rightarrow> t2i_state \<Rightarrow> t2i_state result" where
  "releaseChannel h shouldRelease deviceIndex pub x =
     (if shouldRelease
      then case sm_release (segmented x) (messageHash h) of
             (sm, r) \<Rightarrow> Inr (case r of None \<Rightarrow> x\<lparr>segmented := sm\<rparr> | Some rel \<Rightarrow> release_chunk rel (x\<lparr>segmented := sm\<rparr>))
      else case findAndDecrement (segmented x) (messageHash h) of
             (sm, Some (uh, up, True)) \<Rightarrow> publishChunk h deviceIndex pub up (x\<lparr>segmented := sm\<rparr>)
           | (sm, _) \<Rightarrow> Inr (x\<lparr>segmented := sm\<rparr>))"

definition releaseBuffer ::
  "iox_env \<Rightarrow> byte list \<Rightarrow> nat \<Rightarrow> bool \<Rightarrow> device_index \<Rightarrow> (publisher, t2i_state) gateway \<Rightarrow> t2i_state result" where
  "releaseBuffer E bytes sz shouldRelease deviceIndex = (\<lambda>(m, x).
     bindR (deserializeHeader E bytes sz) (\<lambda>(h, n).
     doForChannel (serviceHash h) (releaseChannel h shouldRelease deviceIndex) (m, x)))"

text \<open>The periodic timeout check of the segmented messages.\<close>

definition checkTimeouts :: "time_point \<Rightarrow> t2i_state \<Rightarrow> t2i_state" where
  "checkTimeouts now x =
     (case checkSegmentedMessages now (segmented x) of (sm, rs) \<Rightarrow> release_chunks rs (x\<lparr>segmented := sm\<rparr>))"

section \<open>Channels\<close>

definition t2i_setupChannel :: "iox_env \<Rightarrow> pub_env \<Rightarrow> (publisher, t2i_state) channel_fn" where
  "t2i_setupChannel E G =
     addChannel E (\<lambda>service x. (newPublisher G service x, x))
       (\<lambda>pub x. Inr (x\<lparr>t2i_discovery := addGatewayPublisher E (pub_uid pub) (t2i_discovery x)\<rparr>))"

definition t2i_close :: "publisher \<Rightarrow> t2i_state \<Rightarrow> t2i_state result" where
  "t2i_close pub x =
     (case releaseAll (segmented x) (pub_ptr pub) of (sm, rs) \<Rightarrow>
        let x1 = release_chunks rs (x\<lparr>segmented := sm\<rparr>)
        in Inr (x1\<lparr>t2i_discovery := discardGatewayPublisher (pub_uid pub) (t2i_discovery x1)\<rparr>))"

definition t2i_deleteChannel :: "iox_env \<Rightarrow> (publisher, t2i_state) channel_fn" where
  "t2i_deleteChannel E = discardChannel E t2i_close"

definition t2i_updateChannels ::
  "iox_env \<Rightarrow> pub_env \<Rightarrow> service_description list
     \<Rightarrow> (publisher, t2i_state) gateway \<Rightarrow> (publisher, t2i_state) gateway result" where
  "t2i_updateChannels E G services =
     updateChannelsInternal E pub_service services (t2i_setupChannel E G) (t2i_deleteChannel E)"

end
