(* ===== verification/Reassembly.thy ===== *)
theory Reassembly
  imports Transport2Iox
begin

text \<open>
  Reassembly in \<^verbatim>\<open>Transport2Iceoryx::receive\<close>: the datagrams that \<^verbatim>\<open>writeSegmented\<close> cuts a
  message into, received in any order, fill a loaned chunk exactly and publish it once. The
  proof goes from one segment copied into the chunk, over the segments that follow the first,
  to whole messages and the bytes on the wire.
\<close>

section \<open>Filling a chunk from segments\<close>

text \<open>
  A segment of the message with header \<open>h\<close>, user header bytes \<open>hs\<close> and payload bytes \<open>ps\<close>: it
  agrees with \<open>h\<close> on everything but offset and size, and it is a slice of one of the two.
\<close>

abbreviation seg_offset :: "datagram_header \<times> byte list \<Rightarrow> nat" where
  "seg_offset s \<equiv> unat (submessageOffset (fst s))"

definition segment_of :: "datagram_header \<Rightarrow> byte list \<Rightarrow> byte list \<Rightarrow> datagram_header \<times> byte list \<Rightarrow> bool" where
  "segment_of h hs ps s \<longleftrightarrow>
     fst s = h\<lparr>submessageOffset := submessageOffset (fst s), submessageSize := submessageSize (fst s)\<rparr> \<and>
     unat (submessageSize (fst s)) = length (snd s) \<and>
     (if seg_offset s < length hs then slice_of hs (seg_offset s, snd s)
      else slice_of ps (seg_offset s - length hs, snd s))"

definition header_pieces :: "nat \<Rightarrow> (datagram_header \<times> byte list) list \<Rightarrow> (nat \<times> byte list) list" where
  "header_pieces n segs = map (\<lambda>s. (seg_offset s, snd s)) (filter (\<lambda>s. seg_offset s < n) segs)"

definition payload_pieces :: "nat \<Rightarrow> (datagram_header \<times> byte list) list \<Rightarrow> (nat \<times> byte list) list" where
  "payload_pieces n segs = map (\<lambda>s. (seg_offset s - n, snd s)) (filter (\<lambda>s. \<not> seg_offset s < n) segs)"

definition fillAll :: "nat \<Rightarrow> (datagram_header \<times> byte list) list \<Rightarrow> chunk_mem \<Rightarrow> chunk_mem result" where
  "fillAll n segs c =
     bindR (copy_pieces (ck_userHeader c) (header_pieces n segs)) (\<lambda>hb.
     bindR (copy_pieces (ck_userPayload c) (payload_pieces n segs)) (\<lambda>pb.
     Inr \<lparr>ck_userHeader = hb, ck_userPayload = pb\<rparr>))"

definition chunk_fits :: "byte list \<Rightarrow> byte list \<Rightarrow> chunk_mem \<Rightarrow> bool" where
  "chunk_fits hs ps c \<longleftrightarrow> length (ck_userPayload c) = length ps \<and> (hs \<noteq> [] \<longrightarrow> length (ck_userHeader c) = length hs)"

lemma segment_of_fields:
  assumes "segment_of h hs ps s"
  shows "messageHash (fst s) = messageHash h" "serviceHash (fst s) = serviceHash h"
    "submessageCount (fst s) = submessageCount h" "userHeaderSize (fst s) = userHeaderSize h"
    "userPayloadSize (fst s) = userPayloadSize h"
proof -
  have eq: "fst s = h\<lparr>submessageOffset := submessageOffset (fst s), submessageSize := submessageSize (fst s)\<rparr>"
    using assms by (simp add: segment_of_def)
  show "messageHash (fst s) = messageHash h" "serviceHash (fst s) = serviceHash h"
    "submessageCount (fst s) = submessageCount h" "userHeaderSize (fst s) = userHeaderSize h"
    "userPayloadSize (fst s) = userPayloadSize h"
    by (subst eq, simp)+
qed

lemma fillAll_Nil [simp]: "fillAll n [] c = Inr c"
  by (simp add: fillAll_def header_pieces_def payload_pieces_def)

lemma fillAll_Cons: "fillAll n [s] c = Inr c1 \<Longrightarrow> fillAll n (s # segs) c = fillAll n segs c1"
  by (cases "seg_offset s < n") (auto simp: fillAll_def header_pieces_def payload_pieces_def result_simps)

lemma neonMemcpy_exact: "neonMemcpy buf k d (length d) = memcpy buf k d"
  by (simp add: neonMemcpy_def read_bytes_def)

text \<open>One segment: the copy stays inside the buffers and does what \<open>fillAll\<close> says.\<close>

lemma fillChunk_segment:
  assumes "segment_of h hs ps s" "userHeaderSize h = word_of_nat (length hs)" "length hs < 2 ^ 32"
    and "chunks x up = Some c" "chunk_fits hs ps c" "uh = (if hs = [] then None else Some up)"
  shows "\<exists>c'. fillAll (length hs) [s] c = Inr c' \<and> chunk_fits hs ps c' \<and>
    fillChunk (fst s) (snd s) uh up x = Inr (x\<lparr>chunks := (chunks x)(up \<mapsto> c')\<rparr>)"
proof -
  obtain g d where s: "s = (g, d)" by fastforce
  have len: "unat (submessageSize g) = length d" and slice: "if unat (submessageOffset g) < length hs
      then slice_of hs (unat (submessageOffset g), d) else slice_of ps (unat (submessageOffset g) - length hs, d)"
    using assms(1) by (auto simp: segment_of_def s split: if_splits)
  have "userHeaderSize g = userHeaderSize h" using segment_of_fields(4) [OF assms(1)] by (simp add: s)
  then have uhs: "unat (userHeaderSize g) = length hs" using assms(2,3) by (simp add: unat_of_nat)
  show ?thesis
  proof (cases "unat (submessageOffset g) < length hs")
    case True
    then have ne: "hs \<noteq> []" by auto
    have "unat (submessageOffset g) + length d \<le> length (ck_userHeader c)"
      using slice True assms(5) ne by (simp add: slice_of_def chunk_fits_def)
    then obtain b where b: "memcpy (ck_userHeader c) (unat (submessageOffset g)) d = Inr b"
      by (simp add: memcpy_ok)
    have "takeNext g d (Some (ck_userHeader c)) (Some (ck_userPayload c)) = Inr (Some b, Some (ck_userPayload c))"
      using True b len uhs by (simp add: takeNext_def word_less_nat_alt neonMemcpy_exact)
    moreover have "fillAll (length hs) [s] c = Inr \<lparr>ck_userHeader = b, ck_userPayload = ck_userPayload c\<rparr>"
      using True b by (simp add: fillAll_def header_pieces_def payload_pieces_def s)
    ultimately show ?thesis
      using assms(4-6) ne memcpy_length [OF b] by (simp add: fillChunk_def s chunk_fits_def)
  next
    case False
    then have "unat (submessageOffset g) - length hs + length d \<le> length (ck_userPayload c)"
      using slice assms(5) by (simp add: slice_of_def chunk_fits_def)
    then obtain b where b: "memcpy (ck_userPayload c) (unat (submessageOffset g) - length hs) d = Inr b"
      by (simp add: memcpy_ok)
    have "takeNext g d hb (Some (ck_userPayload c)) = Inr (hb, Some b)" for hb
      using False b len uhs by (simp add: takeNext_def word_less_nat_alt neonMemcpy_exact)
    moreover have "fillAll (length hs) [s] c = Inr \<lparr>ck_userHeader = ck_userHeader c, ck_userPayload = b\<rparr>"
      using False b by (simp add: fillAll_def header_pieces_def payload_pieces_def s)
    ultimately show ?thesis
      using assms(4-6) memcpy_length [OF b] by (simp add: fillChunk_def s chunk_fits_def split: option.split)
  qed
qed

section \<open>Receiving the remaining segments\<close>

type_synonym arrival = "time_point \<times> device_index \<times> (datagram_header \<times> byte list)"

definition arrive :: "pub_env \<Rightarrow> nat \<Rightarrow> publisher \<Rightarrow> arrival \<Rightarrow> t2i_state \<Rightarrow> t2i_state result" where
  "arrive G mutex pub = (\<lambda>(now, dev, s) x. receiveChannel G now mutex (fst s) (snd s) dev pub x)"

abbreviation arrived :: "arrival list \<Rightarrow> (datagram_header \<times> byte list) list" where
  "arrived as \<equiv> map (\<lambda>a. snd (snd a)) as"

text \<open>A segment of a message whose chunk is there but not complete.\<close>

lemma arrive_known:
  assumes "sm_invar (segmented x)" "vm_lookup (segmented x) (messageHash h) = Some msg"
    and "segment_of h hs ps s" "userHeaderSize h = word_of_nat (length hs)" "length hs < 2 ^ 32"
    and "chunks x (sm_userPayload msg) = Some c" "chunk_fits hs ps c"
    and "sm_userHeader msg = (if hs = [] then None else Some (sm_userPayload msg))"
  obtains c' sm where "fillAll (length hs) [s] c = Inr c'" "chunk_fits hs ps c'"
    "sm_invar sm" "vm_lookup sm = (vm_lookup (segmented x))(messageHash h :=
       (if remainingSegments msg = 1 then None else Some (msg\<lparr>remainingSegments := remainingSegments msg - 1\<rparr>)))"
    "arrive G mutex pub (now, dev, s) x =
       (let x1 = x\<lparr>segmented := sm, chunks := (chunks x)(sm_userPayload msg \<mapsto> c')\<rparr>
        in if remainingSegments msg = 1 then publishChunk (fst s) dev pub (sm_userPayload msg) x1 else Inr x1)"
proof -
  obtain sm where sm: "findAndDecrement (segmented x) (messageHash h)
      = (sm, Some (sm_userHeader msg, sm_userPayload msg, remainingSegments msg = 1))" and inv: "sm_invar sm"
    and look: "vm_lookup sm = (vm_lookup (segmented x))(messageHash h :=
       (if remainingSegments msg = 1 then None else Some (msg\<lparr>remainingSegments := remainingSegments msg - 1\<rparr>)))"
    using findAndDecrement_present [OF assms(1,2)] by blast
  obtain c' where c': "fillAll (length hs) [s] c = Inr c'" "chunk_fits hs ps c'"
    "fillChunk (fst s) (snd s) (sm_userHeader msg) (sm_userPayload msg) (x\<lparr>segmented := sm\<rparr>)
       = Inr (x\<lparr>segmented := sm, chunks := (chunks x)(sm_userPayload msg \<mapsto> c')\<rparr>)"
    using fillChunk_segment [OF assms(3-5) _ assms(7,8), of "x\<lparr>segmented := sm\<rparr>"] assms(6) by auto
  show ?thesis
  proof (rule that [OF c'(1,2) inv look])
    show "arrive G mutex pub (now, dev, s) x =
       (let x1 = x\<lparr>segmented := sm, chunks := (chunks x)(sm_userPayload msg \<mapsto> c')\<rparr>
        in if remainingSegments msg = 1 then publishChunk (fst s) dev pub (sm_userPayload msg) x1 else Inr x1)"
      using sm c'(3) segment_of_fields(1) [OF assms(3)] by (simp add: arrive_def receiveChannel_def)
  qed
qed

lemma arrive_rest:
  assumes "sm_invar (segmented x)" "vm_lookup (segmented x) (messageHash h) = Some msg"
    and "userHeaderSize h = word_of_nat (length hs)" "length hs < 2 ^ 32"
    and "chunks x (sm_userPayload msg) = Some c" "chunk_fits hs ps c"
    and "sm_userHeader msg = (if hs = [] then None else Some (sm_userPayload msg))"
    and "\<forall>s \<in> set (arrived as). segment_of h hs ps s"
    and "as \<noteq> []" "length as < 2 ^ 32" "remainingSegments msg = word_of_nat (length as)"
  shows "\<exists>x' c'. foldR (arrive G mutex pub) as x = Inr x' \<and> fillAll (length hs) (arrived as) c = Inr c' \<and>
    sm_invar (segmented x') \<and> vm_lookup (segmented x') = (vm_lookup (segmented x))(messageHash h := None) \<and>
    chunks x' = (chunks x)(sm_userPayload msg := None) \<and>
    iox_events x' = iox_events x @ [Published (pub_ptr pub) (sm_userPayload msg) c']"
  using assms
proof (induction as arbitrary: x msg c)
  case Nil
  then show ?case by simp
next
  case (Cons a as)
  obtain now dev s where a: "a = (now, dev, s)" by (cases a) auto
  have seg: "segment_of h hs ps s" using Cons.prems(8) by (simp add: a)
  obtain c1 sm where step: "fillAll (length hs) [s] c = Inr c1" "chunk_fits hs ps c1" "sm_invar sm"
    "vm_lookup sm = (vm_lookup (segmented x))(messageHash h :=
       (if remainingSegments msg = 1 then None else Some (msg\<lparr>remainingSegments := remainingSegments msg - 1\<rparr>)))"
    "arrive G mutex pub (now, dev, s) x =
       (let x1 = x\<lparr>segmented := sm, chunks := (chunks x)(sm_userPayload msg \<mapsto> c1)\<rparr>
        in if remainingSegments msg = 1 then publishChunk (fst s) dev pub (sm_userPayload msg) x1 else Inr x1)"
    using arrive_known [OF Cons.prems(1,2) seg Cons.prems(3-7)] by blast
  show ?case
  proof (cases "as = []")
    case True
    then have "remainingSegments msg = 1" using Cons.prems(11) by simp
    then show ?thesis using step True by (simp add: a publishChunk_def fun_eq_iff)
  next
    case False
    let ?x = "x\<lparr>segmented := sm, chunks := (chunks x)(sm_userPayload msg \<mapsto> c1)\<rparr>"
    let ?msg = "msg\<lparr>remainingSegments := remainingSegments msg - 1\<rparr>"
    have rem: "remainingSegments msg - 1 = word_of_nat (length as)" using Cons.prems(11) by simp
    have "unat (remainingSegments msg) = Suc (length as)"
      using Cons.prems(10,11) by (simp only: length_Cons unat_of_nat) simp
    then have more: "remainingSegments msg \<noteq> 1" using False by (metis length_0_conv nat.inject unat_1 One_nat_def)
    have "\<exists>x' c'. foldR (arrive G mutex pub) as ?x = Inr x' \<and> fillAll (length hs) (arrived as) c1 = Inr c' \<and>
        sm_invar (segmented x') \<and> vm_lookup (segmented x') = (vm_lookup (segmented ?x))(messageHash h := None) \<and>
        chunks x' = (chunks ?x)(sm_userPayload ?msg := None) \<and>
        iox_events x' = iox_events ?x @ [Published (pub_ptr pub) (sm_userPayload ?msg) c']"
      using Cons.prems(3,4,7,8,10) step more False rem by (intro Cons.IH [of ?x ?msg c1]) auto
    then show ?thesis
      using step more fillAll_Cons [OF step(1)] by (auto simp: a fun_eq_iff)
  qed
qed

section \<open>The segments of a whole message\<close>

lemma segmentsFrom_slice_of:
  assumes "(g, d) \<in> set (segmentsFrom h m off xs)" "off + length xs < 2 ^ 32"
  shows "off \<le> unat (submessageOffset g) \<and> unat (submessageOffset g) < off + length xs \<and>
    slice_of xs (unat (submessageOffset g) - off, d) \<and> unat (submessageSize g) = length d"
proof -
  obtain k where "k < length xs" "unat (submessageOffset g) = off + k" "d = take m (drop k xs)"
    "unat (submessageSize g) = length d"
    using segmentsFrom_slice [OF assms] by blast
  then show ?thesis by (auto simp: slice_of_def min_def)
qed

lemma messageSegments_segment_of:
  assumes "s \<in> set (messageSegments h m hs ps)" "length hs + length ps < 2 ^ 32"
  shows "segment_of (h\<lparr>submessageCount := divideAndRoundUp (userHeaderSize h) m
    + divideAndRoundUp (userPayloadSize h) m\<rparr>) hs ps s"
proof -
  let ?h = "h\<lparr>submessageCount := divideAndRoundUp (userHeaderSize h) m + divideAndRoundUp (userPayloadSize h) m\<rparr>"
  obtain g d where s: "s = (g, d)" by fastforce
  consider "(g, d) \<in> set (segmentsFrom ?h (unat m) 0 hs)" | "(g, d) \<in> set (segmentsFrom ?h (unat m) (length hs) ps)"
    using assms(1) by (auto simp: messageSegments_def s)
  then show ?thesis
  proof cases
    case 1
    then show ?thesis
      using segmentsFrom_slice_of [OF 1] segmentsFrom_header [OF 1] assms(2) by (simp add: segment_of_def s)
  next
    case 2
    then show ?thesis
      using segmentsFrom_slice_of [OF 2] segmentsFrom_header [OF 2] assms(2) by (simp add: segment_of_def s)
  qed
qed

text \<open>Any arrangement of all the segments covers both buffers, so it fills the chunk exactly.\<close>

lemma fillAll_complete:
  assumes "set segs = set (messageSegments h m hs ps)" "m \<noteq> 0" "length hs + length ps < 2 ^ 32" "chunk_fits hs ps c"
    and "fillAll (length hs) segs c = Inr c'"
  shows "ck_userPayload c' = ps \<and> (hs \<noteq> [] \<longrightarrow> ck_userHeader c' = hs)"
proof -
  let ?h = "h\<lparr>submessageCount := divideAndRoundUp (userHeaderSize h) m + divideAndRoundUp (userPayloadSize h) m\<rparr>"
  have m: "unat m \<noteq> 0" using assms(2) by (simp add: unat_eq_0)
  have seg: "\<forall>s \<in> set segs. segment_of ?h hs ps s"
    using messageSegments_segment_of assms(1,3) by blast
  have sl: "\<forall>p \<in> set (header_pieces (length hs) segs). slice_of hs p"
    "\<forall>p \<in> set (payload_pieces (length hs) segs). slice_of ps p"
    using seg by (auto simp: header_pieces_def payload_pieces_def segment_of_def)
  have ch: "covers (header_pieces (length hs) segs) i" if "i < length hs" for i
  proof -
    have "\<exists>(g, d) \<in> set (segmentsFrom ?h (unat m) 0 hs). unat (submessageOffset g) \<le> i \<and>
        i < unat (submessageOffset g) + length d"
      using segmentsFrom_cover [OF m, of 0 hs i] that assms(3) by simp
    then obtain g d where gd: "(g, d) \<in> set segs" "unat (submessageOffset g) \<le> i" "i < unat (submessageOffset g) + length d"
      using assms(1) by (auto simp: messageSegments_def)
    then show ?thesis using that by (force simp: covers_def header_pieces_def)
  qed
  have cp: "covers (payload_pieces (length hs) segs) i" if "i < length ps" for i
  proof -
    have "\<exists>(g, d) \<in> set (segmentsFrom ?h (unat m) (length hs) ps). unat (submessageOffset g) \<le> length hs + i \<and>
        length hs + i < unat (submessageOffset g) + length d"
      using segmentsFrom_cover [OF m, of "length hs" ps i] that assms(3) by simp
    then obtain g d where gd: "(g, d) \<in> set (segmentsFrom ?h (unat m) (length hs) ps)"
      "unat (submessageOffset g) \<le> length hs + i" "length hs + i < unat (submessageOffset g) + length d" by blast
    moreover have "length hs \<le> unat (submessageOffset g)" using segmentsFrom_slice_of [OF gd(1)] assms(3) by simp
    moreover have "(g, d) \<in> set segs" using gd(1) assms(1) by (simp add: messageSegments_def)
    ultimately show ?thesis by (force simp: covers_def payload_pieces_def)
  qed
  have "copy_pieces (ck_userPayload c) (payload_pieces (length hs) segs) = Inr ps"
    using assms(4) cp by (intro copy_pieces_complete [OF _ sl(2)]) (auto simp: chunk_fits_def)
  moreover have "copy_pieces (ck_userHeader c) (header_pieces (length hs) segs) = Inr hs" if "hs \<noteq> []"
    using assms(4) ch that by (intro copy_pieces_complete [OF _ sl(1)]) (auto simp: chunk_fits_def)
  ultimately show ?thesis
    using assms(5) by (auto simp: fillAll_def result_simps)
qed

section \<open>Receiving a whole message\<close>

definition request_for :: "pub_env \<Rightarrow> datagram_header \<Rightarrow> loan_request" where
  "request_for G h = \<lparr>lr_userPayloadSize = userPayloadSize h, lr_userPayloadAlignment = userPayloadAlignment h,
     lr_userHeaderSize = (if userHeaderSize h \<noteq> 0 then userHeaderSize h else CHUNK_NO_USER_HEADER_SIZE G),
     lr_userHeaderAlignment = (if userHeaderSize h \<noteq> 0 then USER_HEADER_ALIGNMENT else CHUNK_NO_USER_HEADER_ALIGNMENT G)\<rparr>"

lemma loanChunk_eq:
  "loanChunk G h pub x = map_option (\<lambda>(p, c). (if userHeaderSize h \<noteq> 0 then Some p else None, p,
     x\<lparr>chunks := (chunks x)(p \<mapsto> c)\<rparr>)) (loan G (pub_ptr pub) (request_for G h) (chunks x))"
  by (simp add: loanChunk_def request_for_def split: option.split)

lemma loan_fits:
  assumes "loans_fresh G" "loan G (pub_ptr pub) (request_for G h) H = Some (p, c)"
    and "unat (userPayloadSize h) = length ps" "unat (userHeaderSize h) = length hs"
  shows "p \<notin> dom H \<and> chunk_fits hs ps c"
proof -
  have "p \<notin> dom H" "length (ck_userPayload c) = length ps"
    and h: "lr_userHeaderSize (request_for G h) \<noteq> 0 \<longrightarrow> length (ck_userHeader c) = unat (lr_userHeaderSize (request_for G h))"
    using assms(1,2) assms(3) unfolding loans_fresh_def by (auto simp: request_for_def)
  moreover have "hs \<noteq> [] \<longrightarrow> userHeaderSize h \<noteq> 0" using assms(4) by (metis length_0_conv unat_0)
  ultimately show ?thesis using assms(4) h by (auto simp: chunk_fits_def request_for_def)
qed

lemma segment_of_request:
  assumes "segment_of h hs ps s"
  shows "request_for G (fst s) = request_for G h"
proof -
  have eq: "fst s = h\<lparr>submessageOffset := submessageOffset (fst s), submessageSize := submessageSize (fst s)\<rparr>"
    using assms by (simp add: segment_of_def)
  show ?thesis by (subst eq) (simp add: request_for_def)
qed

lemma pushSegmented_room:
  assumes "sm_invar (segmented x)" "vm_lookup (segmented x) (messageHash h) = None"
    and "vm_size (segmented x) < MAX_SEGMENTED_MESSAGE_COUNT"
  shows "\<exists>sm msg. pushSegmented now mutex h n uh up pub x = x\<lparr>segmented := sm\<rparr> \<and> sm_invar sm \<and>
    vm_lookup sm = (vm_lookup (segmented x))(messageHash h \<mapsto> msg) \<and>
    remainingSegments msg = n \<and> sm_userHeader msg = uh \<and> sm_userPayload msg = up"
proof -
  let ?msg = "\<lparr>remainingSegments = n, sm_userHeader = uh, sm_userPayload = up, sm_mutex = mutex,
     sm_publisher = pub_ptr pub, deadline = now + NS_PER_BYTE * int (unat (userHeaderSize h + userPayloadSize h))\<rparr>"
  obtain sm where "sm_push (segmented x) (messageHash h) ?msg = (sm, None)" "sm_invar sm"
    "vm_lookup sm = (vm_lookup (segmented x))(messageHash h \<mapsto> ?msg)"
    using sm_push_room [OF assms, of ?msg] by (metis prod.collapse)
  then show ?thesis by (intro exI [of _ sm] exI [of _ ?msg]) (simp add: pushSegmented_def)
qed

text \<open>The first segment: a chunk is loaned, and kept unless it is already complete.\<close>

lemma arrive_first:
  assumes "sm_invar (segmented x)" "vm_lookup (segmented x) (messageHash h) = None"
    and "vm_size (segmented x) < MAX_SEGMENTED_MESSAGE_COUNT"
    and "loan G (pub_ptr pub) (request_for G h) (chunks x) = Some (p, c)" "chunk_fits hs ps c"
    and "segment_of h hs ps s" "userHeaderSize h = word_of_nat (length hs)" "length hs < 2 ^ 32"
  obtains c' where "fillAll (length hs) [s] c = Inr c'" "chunk_fits hs ps c'"
    "\<not> 1 < submessageCount h \<Longrightarrow> \<exists>x'. arrive G mutex pub (now, dev, s) x = Inr x' \<and> segmented x' = segmented x \<and>
       chunks x' = (chunks x)(p := None) \<and> iox_events x' = iox_events x @ [Published (pub_ptr pub) p c']"
    "1 < submessageCount h \<Longrightarrow> \<exists>sm msg. arrive G mutex pub (now, dev, s) x
         = Inr (x\<lparr>segmented := sm, chunks := (chunks x)(p \<mapsto> c')\<rparr>) \<and> sm_invar sm \<and>
       vm_lookup sm = (vm_lookup (segmented x))(messageHash h \<mapsto> msg) \<and>
       remainingSegments msg = submessageCount h - 1 \<and> sm_userPayload msg = p \<and>
       sm_userHeader msg = (if hs = [] then None else Some p)"
proof -
  note fields = segment_of_fields [OF assms(6)]
  let ?uh = "if hs = [] then None else Some p"
  let ?x = "x\<lparr>chunks := (chunks x)(p \<mapsto> c)\<rparr>"
  have "unat (userHeaderSize h) = length hs" using assms(7,8) by (simp add: unat_of_nat)
  then have "userHeaderSize h = 0 \<longleftrightarrow> hs = []" by (metis length_0_conv unat_eq_0)
  then have loan: "loanChunk G (fst s) pub x = Some (?uh, p, ?x)"
    using assms(4) fields(4) segment_of_request [OF assms(6), of G] by (simp add: loanChunk_eq)
  have none: "findAndDecrement (segmented x) (messageHash (fst s)) = (segmented x, None)"
    using findAndDecrement_eq [OF assms(1)] assms(2) fields(1) by simp
  obtain c' where c': "fillAll (length hs) [s] c = Inr c'" "chunk_fits hs ps c'"
    using fillChunk_segment [OF assms(6-8) _ assms(5) refl, of ?x p] by auto
  have fill: "fillChunk (fst s) (snd s) ?uh p x' = Inr (x'\<lparr>chunks := (chunks x')(p \<mapsto> c')\<rparr>)"
    if "chunks x' p = Some c" for x'
    using fillChunk_segment [OF assms(6-8) that assms(5) refl] c'(1) by auto
  show ?thesis
  proof (rule that [OF c'])
    assume "\<not> 1 < submessageCount h"
    then show "\<exists>x'. arrive G mutex pub (now, dev, s) x = Inr x' \<and> segmented x' = segmented x \<and>
       chunks x' = (chunks x)(p := None) \<and> iox_events x' = iox_events x @ [Published (pub_ptr pub) p c']"
      using none loan fill [of ?x] fields(3)
      by (simp add: arrive_def receiveChannel_def publishChunk_def fun_eq_iff)
  next
    assume more: "1 < submessageCount h"
    obtain sm msg where push: "pushSegmented now mutex (fst s) (submessageCount h - 1) ?uh p pub ?x = ?x\<lparr>segmented := sm\<rparr>"
      "sm_invar sm" "vm_lookup sm = (vm_lookup (segmented x))(messageHash h \<mapsto> msg)"
      "remainingSegments msg = submessageCount h - 1" "sm_userHeader msg = ?uh" "sm_userPayload msg = p"
      using pushSegmented_room [of ?x "fst s" now mutex "submessageCount h - 1" ?uh p pub] assms(1-3) fields(1) by auto
    then show "\<exists>sm msg. arrive G mutex pub (now, dev, s) x
         = Inr (x\<lparr>segmented := sm, chunks := (chunks x)(p \<mapsto> c')\<rparr>) \<and> sm_invar sm \<and>
       vm_lookup sm = (vm_lookup (segmented x))(messageHash h \<mapsto> msg) \<and>
       remainingSegments msg = submessageCount h - 1 \<and> sm_userPayload msg = p \<and> sm_userHeader msg = ?uh"
      using none loan more fill [of "?x\<lparr>segmented := sm\<rparr>"] fields(3)
      by (intro exI [of _ sm] exI [of _ msg]) (simp add: arrive_def receiveChannel_def)
  qed
qed

text \<open>
  The rest of a message whose first segment has opened its entry: the table and the store end up
  as they were before that segment.
\<close>

lemma arrive_after_first:
  assumes "sm_invar sm" "vm_lookup sm = (vm_lookup (segmented x))(messageHash h \<mapsto> msg)"
    and "remainingSegments msg = word_of_nat (length as')" "as' \<noteq> []" "length as' < 2 ^ 32"
    and "sm_userPayload msg = p" "sm_userHeader msg = (if hs = [] then None else Some p)" "chunk_fits hs ps c1"
    and "\<forall>s \<in> set (arrived as'). segment_of (h\<lparr>submessageCount := n\<rparr>) hs ps s"
    and "userHeaderSize h = word_of_nat (length hs)" "length hs < 2 ^ 32"
    and "vm_lookup (segmented x) (messageHash h) = None" "p \<notin> dom (chunks x)"
  shows "\<exists>x' c'. foldR (arrive G mutex pub) as' (x\<lparr>segmented := sm, chunks := (chunks x)(p \<mapsto> c1)\<rparr>) = Inr x' \<and>
    fillAll (length hs) (arrived as') c1 = Inr c' \<and>
    sm_invar (segmented x') \<and> vm_lookup (segmented x') = vm_lookup (segmented x) \<and> chunks x' = chunks x \<and>
    iox_events x' = iox_events x @ [Published (pub_ptr pub) p c']"
proof -
  let ?x = "x\<lparr>segmented := sm, chunks := (chunks x)(p \<mapsto> c1)\<rparr>" and ?h = "h\<lparr>submessageCount := n\<rparr>"
  have "\<exists>x' c'. foldR (arrive G mutex pub) as' ?x = Inr x' \<and> fillAll (length hs) (arrived as') c1 = Inr c' \<and>
      sm_invar (segmented x') \<and> vm_lookup (segmented x') = (vm_lookup (segmented ?x))(messageHash ?h := None) \<and>
      chunks x' = (chunks ?x)(sm_userPayload msg := None) \<and>
      iox_events x' = iox_events ?x @ [Published (pub_ptr pub) (sm_userPayload msg) c']"
    using assms by (intro arrive_rest [of ?x ?h msg hs c1 ps as' G mutex pub]) auto
  moreover have "(chunks ?x)(p := None) = chunks x" "(vm_lookup sm)(messageHash h := None) = vm_lookup (segmented x)"
    using assms(2,12,13) by (auto simp: fun_eq_iff)
  ultimately show ?thesis using assms(6) by auto
qed

text \<open>All segments, in any order, at any times, from any devices.\<close>

lemma arrive_all:
  assumes "loans_fresh G" "sm_invar (segmented x)" "vm_lookup (segmented x) (messageHash h) = None"
    and "vm_size (segmented x) < MAX_SEGMENTED_MESSAGE_COUNT"
    and "loan G (pub_ptr pub) (request_for G h) (chunks x) = Some (p, c)"
    and segs: "mset (arrived as) = mset (messageSegments h m hs ps)" "as \<noteq> []"
    and "m \<noteq> 0" "length hs = unat (userHeaderSize h)" "length ps = unat (userPayloadSize h)"
    and "length hs + unat m \<le> 2 ^ 32" "length ps + unat m \<le> 2 ^ 32" "length hs + length ps < 2 ^ 32"
  shows "\<exists>x' c'. foldR (arrive G mutex pub) as x = Inr x' \<and> ck_userPayload c' = ps \<and> (hs \<noteq> [] \<longrightarrow> ck_userHeader c' = hs) \<and>
    sm_invar (segmented x') \<and> vm_lookup (segmented x') = vm_lookup (segmented x) \<and> chunks x' = chunks x \<and>
    iox_events x' = iox_events x @ [Published (pub_ptr pub) p c']"
proof -
  let ?h = "h\<lparr>submessageCount := divideAndRoundUp (userHeaderSize h) m + divideAndRoundUp (userPayloadSize h) m\<rparr>"
  obtain now dev s as' where as: "as = (now, dev, s) # as'" using segs(2) by (metis list.exhaust prod_cases3)
  have count: "unat (submessageCount ?h) = length as"
    using messageSegments_length [OF assms(8-13)] mset_eq_length [OF segs(1)] by simp
  have small: "length as < 2 ^ 32" unfolding count [symmetric] using unsigned_less [of "submessageCount ?h"] by simp
  have sset: "set (arrived as) = set (messageSegments h m hs ps)" using segs(1) by (rule mset_eq_setD)
  then have seg: "\<forall>s \<in> set (arrived as). segment_of ?h hs ps s"
    using messageSegments_segment_of [OF _ assms(13)] by blast
  have fits: "chunk_fits hs ps c" and fresh: "p \<notin> dom (chunks x)"
    using loan_fits [OF assms(1,5) assms(10) [symmetric] assms(9) [symmetric]] by simp_all
  have uhs: "userHeaderSize ?h = word_of_nat (length hs)" "length hs < 2 ^ 32" using assms(9,13) by simp_all
  have chunks: "(chunks x)(p := None) = chunks x" using fresh by (auto simp: fun_eq_iff)
  have req: "request_for G ?h = request_for G h" by (simp add: request_for_def)
  obtain c1 where c1: "fillAll (length hs) [s] c = Inr c1" "chunk_fits hs ps c1"
    and last: "\<not> 1 < submessageCount ?h \<Longrightarrow> \<exists>x'. arrive G mutex pub (now, dev, s) x = Inr x' \<and> segmented x' = segmented x \<and>
       chunks x' = (chunks x)(p := None) \<and> iox_events x' = iox_events x @ [Published (pub_ptr pub) p c1]"
    and more: "1 < submessageCount ?h \<Longrightarrow> \<exists>sm msg. arrive G mutex pub (now, dev, s) x
         = Inr (x\<lparr>segmented := sm, chunks := (chunks x)(p \<mapsto> c1)\<rparr>) \<and> sm_invar sm \<and>
       vm_lookup sm = (vm_lookup (segmented x))(messageHash ?h \<mapsto> msg) \<and>
       remainingSegments msg = submessageCount ?h - 1 \<and> sm_userPayload msg = p \<and>
       sm_userHeader msg = (if hs = [] then None else Some p)"
    using arrive_first [of x ?h G pub p c hs ps s mutex now dev] assms(2-5) fits seg uhs req as by auto
  show ?thesis
  proof (cases "as' = []")
    case True
    then have "\<not> 1 < submessageCount ?h" using count as by (simp add: word_less_nat_alt)
    with last obtain x' where x': "arrive G mutex pub (now, dev, s) x = Inr x'" "segmented x' = segmented x"
      "chunks x' = chunks x" "iox_events x' = iox_events x @ [Published (pub_ptr pub) p c1]"
      using chunks by auto
    moreover have "ck_userPayload c1 = ps \<and> (hs \<noteq> [] \<longrightarrow> ck_userHeader c1 = hs)"
      using fillAll_complete [OF _ assms(8,13) fits c1(1)] sset as True by simp
    ultimately show ?thesis using assms(2) as True by simp
  next
    case False
    then have lt: "1 < submessageCount ?h" using count as by (simp add: word_less_nat_alt)
    with more obtain sm msg where step: "arrive G mutex pub (now, dev, s) x = Inr (x\<lparr>segmented := sm, chunks := (chunks x)(p \<mapsto> c1)\<rparr>)"
      "sm_invar sm" "vm_lookup sm = (vm_lookup (segmented x))(messageHash h \<mapsto> msg)"
      "remainingSegments msg = submessageCount ?h - 1" "sm_userPayload msg = p"
      "sm_userHeader msg = (if hs = [] then None else Some p)" by auto
    have "submessageCount ?h = word_of_nat (length as)" by (simp flip: count)
    then have "remainingSegments msg = word_of_nat (length as')" using step(4) as by simp
    then obtain x' c' where x': "foldR (arrive G mutex pub) as' (x\<lparr>segmented := sm, chunks := (chunks x)(p \<mapsto> c1)\<rparr>) = Inr x'"
      "fillAll (length hs) (arrived as') c1 = Inr c'"
      "sm_invar (segmented x')" "vm_lookup (segmented x') = vm_lookup (segmented x)" "chunks x' = chunks x"
      "iox_events x' = iox_events x @ [Published (pub_ptr pub) p c']"
      using arrive_after_first [OF step(2,3) _ False _ step(5,6) c1(2) _ _ uhs(2) assms(3) fresh, of "submessageCount ?h" G mutex pub] seg as small uhs(1)
      by auto
    moreover have "fillAll (length hs) (arrived as) c = Inr c'" using x'(2) fillAll_Cons [OF c1(1)] as by simp
    then have "ck_userPayload c' = ps \<and> (hs \<noteq> [] \<longrightarrow> ck_userHeader c' = hs)"
      using fillAll_complete [OF sset assms(8,13) fits] by simp
    ultimately show ?thesis using step(1) as by auto
  qed
qed

section \<open>From datagrams\<close>

text \<open>A datagram whose size field does not wrap reaches the publisher of its service.\<close>

lemma receive_datagram:
  assumes "vm_wf cap m" "vm_lookup m (serviceHash g) = Some pub" "wf_header E g"
    and "unat (submessageSize g) = length d"
    and "maxIoxChunkDatagramHeaderSerializationSize E + length d < 2 ^ 32"
  shows "receive E G now mutex (datagram E (g, d)) (length (datagram E (g, d))) dev (m, x)
    = receiveChannel G now mutex g d dev pub x"
proof -
  obtain ser where ser: "serializeHeader E g = Inr ser" by (simp add: serializeHeader_ok)
  have len: "length ser = maxIoxChunkDatagramHeaderSerializationSize E" using serializeHeader_length [OF ser] .
  have des: "deserializeHeader E (ser @ d) (length (ser @ d)) = Inr (g, length ser)"
    using deserialize_serialize_header [OF assms(3) ser] by simp
  have "unat (word_of_nat (length ser) :: u32) = length ser" using assms(5) len by (simp add: unat_of_nat)
  then have "unat (submessageSize g + word_of_nat (length ser)) = length d + length ser"
    using assms(4,5) len by (subst unat_plus_simple [THEN iffD1]) (simp_all add: no_olen_add_nat)
  then have "unat (submessageSize g + word_of_nat (length ser)) = length (ser @ d)" by simp
  then show ?thesis
    using ser des assms(2) by (simp add: receive_def datagram_def doForChannel_eq [OF assms(1)])
qed

definition receiveAll ::
  "iox_env \<Rightarrow> pub_env \<Rightarrow> nat \<Rightarrow> publisher endpoints \<Rightarrow> (time_point \<times> device_index \<times> byte list) list
     \<Rightarrow> t2i_state \<Rightarrow> t2i_state result" where
  "receiveAll E G mutex m =
     foldR (\<lambda>(now, dev, bytes) x. receive E G now mutex bytes (length bytes) dev (m, x))"

lemma receiveAll_arrive:
  assumes "vm_wf cap m" "vm_lookup m (serviceHash h) = Some pub" "wf_header E h"
    and "\<forall>s \<in> set (arrived as). segment_of h hs ps s \<and>
      maxIoxChunkDatagramHeaderSerializationSize E + length (snd s) < 2 ^ 32"
  shows "receiveAll E G mutex m (map (\<lambda>(now, dev, s). (now, dev, datagram E s)) as) x = foldR (arrive G mutex pub) as x"
  using assms(4)
proof (induction as arbitrary: x)
  case Nil
  then show ?case by (simp add: receiveAll_def)
next
  case (Cons a as)
  obtain now dev g d where a: "a = (now, dev, (g, d))" by (cases a) auto
  have seg: "segment_of h hs ps (g, d)" and small: "maxIoxChunkDatagramHeaderSerializationSize E + length d < 2 ^ 32"
    using Cons.prems by (auto simp: a)
  note fields = segment_of_fields [OF seg, simplified]
  have "receive E G now mutex (datagram E (g, d)) (length (datagram E (g, d))) dev (m, x)
      = arrive G mutex pub (now, dev, (g, d)) x" for x
    using receive_datagram [OF assms(1) _ _ _ small, of g pub G now mutex dev x] assms(2,3) fields seg
    by (simp add: arrive_def segment_of_def wf_header_def)
  then show ?case using Cons by (simp add: a receiveAll_def cong: bindR_cong)
qed

end
