(* ===== verification/ChunkSafety.thy ===== *)
theory ChunkSafety
  imports Reassembly
begin

text \<open>
  Ownership of the chunks in \<^verbatim>\<open>Transport2Iceoryx\<close>: as long as the table of segmented messages
  does not overflow, the loaned chunks are exactly those of the messages under construction;
  no chunk is leaked, released twice or used after its release.
\<close>

section \<open>Chunks are neither lost nor used after their release\<close>

text \<open>
  The loaned chunks are exactly those of the messages under construction, one each.
\<close>

abbreviation sm_payloads :: "segmented_messages \<Rightarrow> buffer_ptr list" where
  "sm_payloads m \<equiv> map sm_userPayload (m_elems m)"

definition t2i_inv :: "t2i_state \<Rightarrow> bool" where
  "t2i_inv x \<longleftrightarrow> sm_invar (segmented x) \<and> distinct (sm_payloads (segmented x)) \<and>
     dom (chunks x) = set (sm_payloads (segmented x))"

lemma set_erase_at_distinct:
  "distinct xs \<Longrightarrow> i < length xs \<Longrightarrow> set (erase_at i xs) = set xs - {xs ! i}"
proof (induction xs arbitrary: i)
  case (Cons x xs)
  then show ?case by (cases i) auto
qed simp

lemma payloads_remove:
  assumes "vm_wf cap m" "vm_lookup m h = Some msg" "distinct (map f (m_elems m))"
  shows "distinct (map f (m_elems (vm_remove m h)))"
    and "set (map f (m_elems (vm_remove m h))) = set (map f (m_elems m)) - {f msg}"
proof -
  from assms(1) have "vm_find m h < length (m_elems m) \<and> m_elems m ! vm_find m h = msg"
    using assms(2) by (cases rule: vm_find_cases [where k = h]) (auto simp: vm_end_wf [OF assms(1)])
  then show "distinct (map f (m_elems (vm_remove m h)))"
    "set (map f (m_elems (vm_remove m h))) = set (map f (m_elems m)) - {f msg}"
    using assms(3) distinct_erase_at [OF assms(3)] set_erase_at_distinct [OF assms(3), of "vm_find m h"]
    by (auto simp: vm_remove_def vm_erase_def map_erase_at simp del: set_map)
qed

lemma payloads_modify:
  assumes "vm_wf cap m" "\<And>v. f (g v) = f v"
  shows "map f (m_elems (vm_modify m h g)) = map f (m_elems m)"
proof -
  have "(map f (m_elems m))[i := f (m_elems m ! i)] = map f (m_elems m)" if "i < length (m_elems m)" for i
    using that list_update_id [of "map f (m_elems m)" i] by simp
  then show ?thesis
    using assms by (cases rule: vm_find_cases [where k = h, OF assms(1)])
      (auto simp: vm_modify_def vm_assign_def map_update vm_end_wf [OF assms(1)])
qed

lemma fillChunk_dom:
  assumes "fillChunk h data uh up x = Inr x'"
  shows "\<exists>c. up \<in> dom (chunks x) \<and> x' = x\<lparr>chunks := (chunks x)(up \<mapsto> c)\<rparr>"
  using assms by (auto simp: fillChunk_def result_simps split: option.splits prod.splits)

lemma fillChunk_no_use_after_release:
  "up \<in> dom (chunks x) \<Longrightarrow> fillChunk h data uh up x \<noteq> Inl Use_After_Release"
  by (auto simp: fillChunk_def takeNext_def result_simps neonMemcpy_def read_bytes_def split: option.splits if_splits)

lemma publishChunk_result:
  "publishChunk h dev pub up x = (if up \<in> dom (chunks x)
     then Inr (x\<lparr>t2i_forwarder := fw_push up (serviceHash h) dev (t2i_forwarder x), chunks := (chunks x)(up := None),
       iox_events := iox_events x @ [Published (pub_ptr pub) up (the (chunks x up))]\<rparr>)
     else Inl Use_After_Release)"
  by (auto simp: publishChunk_def split: option.split)

text \<open>Every chunk that a segmented message refers to is loaned.\<close>

lemma t2i_inv_loaned:
  assumes "t2i_inv x" "vm_lookup (segmented x) h = Some msg"
  shows "sm_userPayload msg \<in> dom (chunks x)"
proof -
  have "vm_invar MAX_SEGMENTED_MESSAGE_COUNT (segmented x)" using assms(1) by (simp add: t2i_inv_def sm_invar_def)
  then have "msg \<in> set (m_elems (segmented x))" using vm_ran assms(2) by (metis ranI)
  then show ?thesis using assms(1) by (simp add: t2i_inv_def)
qed

lemma t2i_inv_decrement:
  assumes "t2i_inv x" "vm_lookup (segmented x) h = Some msg"
  obtains sm where "findAndDecrement (segmented x) h = (sm, Some (sm_userHeader msg, sm_userPayload msg, remainingSegments msg = 1))"
    "sm_invar sm" "distinct (sm_payloads sm)"
    "set (sm_payloads sm) = (if remainingSegments msg = 1 then dom (chunks x) - {sm_userPayload msg} else dom (chunks x))"
proof -
  let ?dec = "\<lambda>msg. msg\<lparr>remainingSegments := remainingSegments msg - 1\<rparr>"
  have inv: "sm_invar (segmented x)" and dist: "distinct (sm_payloads (segmented x))"
    and dom: "dom (chunks x) = set (sm_payloads (segmented x))"
    using assms(1) by (simp_all add: t2i_inv_def)
  note wf = sm_invar_wf [OF inv]
  let ?sm = "if remainingSegments msg = 1 then vm_remove (segmented x) h else vm_modify (segmented x) h ?dec"
  have "findAndDecrement (segmented x) h = (?sm, Some (sm_userHeader msg, sm_userPayload msg, remainingSegments msg = 1))"
    using findAndDecrement_eq [OF inv, of h] assms(2) by simp
  moreover have "sm_payloads (vm_modify (segmented x) h ?dec) = sm_payloads (segmented x)"
    by (rule payloads_modify [OF wf]) simp
  ultimately show ?thesis
    using that [of ?sm] findAndDecrement_invar [OF inv, of h] payloads_remove [OF wf assms(2) dist] dist dom
    by (cases "remainingSegments msg = 1") simp_all
qed

lemma release_chunk_fields [simp]:
  "segmented (release_chunk r x) = segmented x" "chunks (release_chunk r x) = (chunks x)(snd r := None)"
  "iox_events (release_chunk r x) = iox_events x @ [Released (fst r) (snd r)]"
  by (simp_all add: release_chunk_def)

lemma t2i_inv_push:
  assumes "t2i_inv x" "vm_lookup (segmented x) (messageHash h) = None" "p \<notin> dom (chunks x)"
    and "vm_size (segmented x) < MAX_SEGMENTED_MESSAGE_COUNT"
  shows "t2i_inv (pushSegmented now mutex h n uh p pub (x\<lparr>chunks := (chunks x)(p \<mapsto> c)\<rparr>))"
proof -
  let ?msg = "\<lparr>remainingSegments = n, sm_userHeader = uh, sm_userPayload = p, sm_mutex = mutex,
     sm_publisher = pub_ptr pub, deadline = now + NS_PER_BYTE * int (unat (userHeaderSize h + userPayloadSize h))\<rparr>"
  have inv: "sm_invar (segmented x)" using assms(1) by (simp add: t2i_inv_def)
  have push: "sm_push (segmented x) (messageHash h) ?msg
      = (\<lparr>m_keys = m_keys (segmented x) @ [messageHash h], m_elems = m_elems (segmented x) @ [?msg]\<rparr>, None)"
    using vm_emplace_room [OF sm_invar_wf [OF inv] assms(4)] by (simp add: sm_push_def)
  show ?thesis
    using assms(1,3) push sm_push_room [OF inv assms(2,4), of ?msg] by (auto simp: t2i_inv_def pushSegmented_def)
qed

lemma pushSegmented_full:
  assumes "sm_invar (segmented x)" "\<not> vm_size (segmented x) < MAX_SEGMENTED_MESSAGE_COUNT"
  shows "pushSegmented now mutex h n uh up pub x = release_chunk (pub_ptr pub, up) x"
  using sm_push_full [OF assms] by (simp add: pushSegmented_def release_of_def)

section \<open>Every operation keeps the invariant\<close>

lemma t2i_inv_step:
  assumes "sm_invar sm" "distinct (sm_payloads sm)" "dom H = set (sm_payloads sm)"
  shows "t2i_inv (x\<lparr>segmented := sm, chunks := H\<rparr>)"
  using assms by (simp add: t2i_inv_def)

lemma receiveChannel_known_cases:
  assumes "t2i_inv x" "vm_lookup (segmented x) (messageHash h) = Some msg"
  shows "receiveChannel G now mutex h data dev pub x \<noteq> Inl Use_After_Release" (is "?r \<noteq> _")
    and "receiveChannel G now mutex h data dev pub x = Inr x' \<Longrightarrow> t2i_inv x'"
proof -
  let ?p = "sm_userPayload msg"
  obtain sm where sm: "findAndDecrement (segmented x) (messageHash h) = (sm, Some (sm_userHeader msg, ?p, remainingSegments msg = 1))"
    "sm_invar sm" "distinct (sm_payloads sm)"
    "set (sm_payloads sm) = (if remainingSegments msg = 1 then dom (chunks x) - {?p} else dom (chunks x))"
    using t2i_inv_decrement [OF assms] by blast
  have loaned: "?p \<in> dom (chunks x)" by (rule t2i_inv_loaned [OF assms])
  have eq: "receiveChannel G now mutex h data dev pub x =
      bindR (fillChunk h data (sm_userHeader msg) ?p (x\<lparr>segmented := sm\<rparr>)) (\<lambda>x1.
        if remainingSegments msg = 1 then publishChunk h dev pub ?p x1 else Inr x1)"
    using sm(1) by (simp add: receiveChannel_def)
  have "?r \<noteq> Inl Use_After_Release \<and> (\<forall>x'. ?r = Inr x' \<longrightarrow> t2i_inv x')"
  proof (cases "fillChunk h data (sm_userHeader msg) ?p (x\<lparr>segmented := sm\<rparr>)")
    case (Inl e)
    then show ?thesis
      using fillChunk_no_use_after_release [of ?p "x\<lparr>segmented := sm\<rparr>" h data "sm_userHeader msg"] loaned
      by (auto simp: eq)
  next
    case (Inr x1)
    then obtain c where x1: "x1 = x\<lparr>segmented := sm, chunks := (chunks x)(?p \<mapsto> c)\<rparr>"
      using fillChunk_dom [OF Inr] by auto
    show ?thesis
      using Inr x1 sm(2-4) loaned
      by (cases "remainingSegments msg = 1") (auto simp: eq publishChunk_result t2i_inv_def insert_absorb)
  qed
  then show "?r \<noteq> Inl Use_After_Release" "?r = Inr x' \<Longrightarrow> t2i_inv x'" by blast+
qed

text \<open>
  The end of \<^verbatim>\<open>receive\<close> for a new chunk: the segment is copied in, and a message of one segment is
  published at once, which gives the chunk away and leaves the store as it was before the loan.
\<close>

lemma fill_publish_safe:
  assumes "p \<in> dom (chunks y)" "1 < submessageCount h \<longrightarrow> t2i_inv y" "t2i_inv x" "p \<notin> dom (chunks x)"
    and "1 < submessageCount h \<or> chunks y = (chunks x)(p \<mapsto> c) \<and> segmented y = segmented x"
  shows "bindR (fillChunk h data uh p y) (\<lambda>x1. if 1 < submessageCount h then Inr x1 else publishChunk h dev pub p x1) \<noteq> Inl Use_After_Release \<and>
    (\<forall>x'. bindR (fillChunk h data uh p y) (\<lambda>x1. if 1 < submessageCount h then Inr x1 else publishChunk h dev pub p x1) = Inr x' \<longrightarrow>
      t2i_inv x')"
proof (cases "fillChunk h data uh p y")
  case (Inl e)
  then show ?thesis using fillChunk_no_use_after_release [OF assms(1), of h data uh] by auto
next
  case (Inr x1)
  then obtain c' where x1: "x1 = y\<lparr>chunks := (chunks y)(p \<mapsto> c')\<rparr>" using fillChunk_dom [OF Inr] by auto
  show ?thesis
  proof (cases "1 < submessageCount h")
    case True
    then have "t2i_inv x1" using assms(1,2) by (auto simp: x1 t2i_inv_def insert_absorb)
    then show ?thesis using Inr True by simp
  next
    case False
    have "(chunks x)(p := None) = chunks x" using assms(4) by (auto simp: fun_eq_iff)
    then show ?thesis using Inr False assms(3,5) by (auto simp: x1 publishChunk_result t2i_inv_def)
  qed
qed

lemma receiveChannel_new_cases:
  assumes "t2i_inv x" "vm_lookup (segmented x) (messageHash h) = None" "loans_fresh G"
    and "vm_size (segmented x) < MAX_SEGMENTED_MESSAGE_COUNT \<or> \<not> 1 < submessageCount h"
  shows "receiveChannel G now mutex h data dev pub x \<noteq> Inl Use_After_Release" (is "?r \<noteq> _")
    and "receiveChannel G now mutex h data dev pub x = Inr x' \<Longrightarrow> t2i_inv x'"
proof -
  have inv: "sm_invar (segmented x)" using assms(1) by (simp add: t2i_inv_def)
  have none: "findAndDecrement (segmented x) (messageHash h) = (segmented x, None)"
    using findAndDecrement_eq [OF inv] assms(2) by simp
  have "?r \<noteq> Inl Use_After_Release \<and> (\<forall>x'. ?r = Inr x' \<longrightarrow> t2i_inv x')"
  proof (cases "loan G (pub_ptr pub) (request_for G h) (chunks x)")
    case None
    then show ?thesis using none assms(1) by (simp add: receiveChannel_def loanChunk_eq)
  next
    case (Some pc)
    obtain p c where pc: "pc = (p, c)" by fastforce
    have fresh: "p \<notin> dom (chunks x)"
      using loan_fits [OF assms(3) Some [unfolded pc], of "replicate (unat (userPayloadSize h)) 0"
          "replicate (unat (userHeaderSize h)) 0"] by simp
    let ?uh = "if userHeaderSize h \<noteq> 0 then Some p else None"
    let ?x = "x\<lparr>chunks := (chunks x)(p \<mapsto> c)\<rparr>"
    let ?y = "if 1 < submessageCount h then pushSegmented now mutex h (submessageCount h - 1) ?uh p pub ?x else ?x"
    have eq: "?r = bindR (fillChunk h data ?uh p ?y)
        (\<lambda>x1. if 1 < submessageCount h then Inr x1 else publishChunk h dev pub p x1)"
      using none Some by (simp add: receiveChannel_def loanChunk_eq pc)
    have y: "p \<in> dom (chunks ?y)" "1 < submessageCount h \<longrightarrow> t2i_inv ?y"
    proof -
      show "1 < submessageCount h \<longrightarrow> t2i_inv ?y"
        using t2i_inv_push [OF assms(1,2) fresh] assms(4) by auto
      show "p \<in> dom (chunks ?y)"
        using pushSegmented_room [of ?x h now mutex "submessageCount h - 1" ?uh p pub] inv assms(2,4) by auto
    qed
    have "1 < submessageCount h \<or> chunks ?y = (chunks x)(p \<mapsto> c) \<and> segmented ?y = segmented x" by simp
    then show ?thesis unfolding eq by (rule fill_publish_safe [OF y assms(1) fresh])
  qed
  then show "?r \<noteq> Inl Use_After_Release" "?r = Inr x' \<Longrightarrow> t2i_inv x'" by blast+
qed

lemma receiveChannel_safe:
  assumes "t2i_inv x" "loans_fresh G"
    and "vm_size (segmented x) < MAX_SEGMENTED_MESSAGE_COUNT \<or> \<not> 1 < submessageCount h"
  shows "receiveChannel G now mutex h data dev pub x \<noteq> Inl Use_After_Release \<and>
    (\<forall>x'. receiveChannel G now mutex h data dev pub x = Inr x' \<longrightarrow> t2i_inv x')"
proof (cases "vm_lookup (segmented x) (messageHash h)")
  case None
  then show ?thesis using receiveChannel_new_cases [OF assms(1) None assms(2,3)] by blast
next
  case (Some msg)
  then show ?thesis using receiveChannel_known_cases [OF assms(1) Some] by blast
qed

text \<open>
  When the table is full, the first datagram of a segmented message gets its chunk released by
  \<^verbatim>\<open>push\<close> and then written to.
\<close>

lemma receiveChannel_table_full:
  assumes "t2i_inv x" "vm_lookup (segmented x) (messageHash h) = None" "loans_fresh G"
    and "\<not> vm_size (segmented x) < MAX_SEGMENTED_MESSAGE_COUNT" "1 < submessageCount h"
    and "loan G (pub_ptr pub) (request_for G h) (chunks x) = Some (p, c)"
  shows "receiveChannel G now mutex h data dev pub x = Inl Use_After_Release"
proof -
  have inv: "sm_invar (segmented x)" using assms(1) by (simp add: t2i_inv_def)
  have none: "findAndDecrement (segmented x) (messageHash h) = (segmented x, None)"
    using findAndDecrement_eq [OF inv] assms(2) by simp
  have "pushSegmented now mutex h n uh p pub (x\<lparr>chunks := (chunks x)(p \<mapsto> c)\<rparr>)
      = release_chunk (pub_ptr pub, p) (x\<lparr>chunks := (chunks x)(p \<mapsto> c)\<rparr>)" for n uh
    using inv assms(4) by (intro pushSegmented_full) simp_all
  then show ?thesis
    using none assms(5,6) by (simp add: receiveChannel_def loanChunk_eq fillChunk_def)
qed

lemma releaseChannel_safe:
  assumes "t2i_inv x"
  shows "\<exists>x'. releaseChannel h shouldRelease dev pub x = Inr x' \<and> t2i_inv x'"
proof (cases "vm_lookup (segmented x) (messageHash h)")
  case None
  have inv: "sm_invar (segmented x)" using assms by (simp add: t2i_inv_def)
  have "sm_release (segmented x) (messageHash h) = (segmented x, None)"
    using None by (simp add: sm_release_def vm_lookup_def split: if_splits)
  moreover have "findAndDecrement (segmented x) (messageHash h) = (segmented x, None)"
    using findAndDecrement_eq [OF inv] None by simp
  ultimately show ?thesis using assms by (simp add: releaseChannel_def)
next
  case (Some msg)
  have inv: "sm_invar (segmented x)" and dist: "distinct (sm_payloads (segmented x))"
    and dom: "dom (chunks x) = set (sm_payloads (segmented x))"
    using assms by (simp_all add: t2i_inv_def)
  have loaned: "sm_userPayload msg \<in> dom (chunks x)" by (rule t2i_inv_loaned [OF assms Some])
  show ?thesis
  proof (cases shouldRelease)
    case True
    have "t2i_inv (release_chunk (release_of msg) (x\<lparr>segmented := vm_remove (segmented x) (messageHash h)\<rparr>))"
      using payloads_remove [OF sm_invar_wf [OF inv] Some dist] sm_release_invar [OF inv, of "messageHash h"] dom
      by (simp add: t2i_inv_def sm_release_eq [OF inv] release_of_def)
    then show ?thesis using True Some by (simp add: releaseChannel_def sm_release_eq [OF inv])
  next
    case False
    obtain sm where sm: "findAndDecrement (segmented x) (messageHash h)
        = (sm, Some (sm_userHeader msg, sm_userPayload msg, remainingSegments msg = 1))"
      "sm_invar sm" "distinct (sm_payloads sm)" "set (sm_payloads sm) =
        (if remainingSegments msg = 1 then dom (chunks x) - {sm_userPayload msg} else dom (chunks x))"
      using t2i_inv_decrement [OF assms Some] by blast
    then show ?thesis
      using False loaned
      by (cases "remainingSegments msg = 1") (simp_all add: releaseChannel_def publishChunk_result t2i_inv_def)
  qed
qed

text \<open>Releasing the chunks of the messages that are dropped: timeouts and closed channels.\<close>

lemma release_chunks_fields:
  "segmented (release_chunks rs x) = segmented x"
  "chunks (release_chunks rs x) = (chunks x) |` (- snd ` set rs)"
  "iox_events (release_chunks rs x) = iox_events x @ map (\<lambda>r. Released (fst r) (snd r)) rs"
  unfolding release_chunks_def
  by (induction rs arbitrary: x) (auto simp: restrict_map_def fun_eq_iff)

lemma vm_keep_elems: "m_elems (vm_keep P m) = filter P (m_elems m)"
  by (simp add: vm_keep_def)

lemma distinct_map_image_filter:
  assumes "distinct (map f xs)"
  shows "set (map f (filter P xs)) = set (map f xs) - f ` set (filter (\<lambda>x. \<not> P x) xs)"
  using assms by (induction xs) (auto simp: image_iff)

lemma t2i_inv_drop:
  assumes "t2i_inv x" "set rs = set (map release_of (filter (\<lambda>msg. \<not> P msg) (m_elems (segmented x))))"
  shows "t2i_inv (release_chunks rs (x\<lparr>segmented := vm_keep P (segmented x)\<rparr>))"
proof -
  have dist: "distinct (sm_payloads (segmented x))" and dom: "dom (chunks x) = set (sm_payloads (segmented x))"
    and inv: "vm_invar MAX_SEGMENTED_MESSAGE_COUNT (segmented x)"
    using assms(1) by (simp_all add: t2i_inv_def sm_invar_def)
  have "snd ` set rs = sm_userPayload ` set (filter (\<lambda>msg. \<not> P msg) (m_elems (segmented x)))"
    unfolding assms(2) by (force simp: release_of_def)
  then have "dom ((chunks x) |` (- snd ` set rs)) = set (map sm_userPayload (filter P (m_elems (segmented x))))"
    using distinct_map_image_filter [OF dist, of P] dom by auto
  moreover have "distinct (map sm_userPayload (filter P (m_elems (segmented x))))"
    using dist by (rule distinct_map_filter)
  ultimately show ?thesis
    using vm_keep_invar [OF inv, of P] by (simp add: t2i_inv_def release_chunks_fields vm_keep_elems sm_invar_def)
qed

lemma checkTimeouts_inv:
  assumes "t2i_inv x"
  shows "t2i_inv (checkTimeouts now x)"
proof -
  have wf: "vm_wf MAX_SEGMENTED_MESSAGE_COUNT (segmented x)"
    using assms sm_invar_wf by (simp add: t2i_inv_def)
  show ?thesis
    using t2i_inv_drop [OF assms, of _ "\<lambda>msg. \<not> deadline msg < now"]
    by (simp add: checkTimeouts_def checkSegmentedMessages_eq [OF wf])
qed

lemma t2i_close_ok:
  assumes "t2i_inv x"
  shows "\<exists>x'. t2i_close pub x = Inr x' \<and> t2i_inv x' \<and>
    m_elems (segmented x') = filter (\<lambda>msg. sm_publisher msg \<noteq> pub_ptr pub) (m_elems (segmented x))"
proof -
  have wf: "vm_wf MAX_SEGMENTED_MESSAGE_COUNT (segmented x)"
    using assms sm_invar_wf by (simp add: t2i_inv_def)
  let ?rs = "map release_of (rev (filter (\<lambda>msg. sm_publisher msg = pub_ptr pub) (m_elems (segmented x))))"
  have "t2i_inv (release_chunks ?rs (x\<lparr>segmented := vm_keep (\<lambda>msg. sm_publisher msg \<noteq> pub_ptr pub) (segmented x)\<rparr>))"
    by (rule t2i_inv_drop [OF assms]) simp
  then show ?thesis
    by (simp add: t2i_close_def releaseAll_eq [OF wf] t2i_inv_def release_chunks_fields vm_keep_elems)
qed

section \<open>The channels follow the needed services\<close>

locale publisher_factory =
  fixes G :: pub_env
  assumes named: "pub_service (newPublisher G s x) = s"

lemma t2i_setup_ok:
  assumes "publisher_factory G" "t2i_inv x" "vm_invar MAX_TOPICS m" "vm_size m < MAX_TOPICS"
  shows "\<exists>e x'. t2i_setupChannel E G s (m, x) = Inr (fst (vm_emplace MAX_TOPICS m (getClassHash E s) e), x') \<and>
    t2i_inv x' \<and> pub_service e = s"
proof -
  have wf: "vm_wf MAX_TOPICS m" using assms(3) by (simp add: vm_invar_def)
  show ?thesis
    using assms(2) publisher_factory.named [OF assms(1)] unfolding t2i_setupChannel_def
    by (simp add: addChannel_room [OF wf assms(4) refl] t2i_inv_def) blast
qed

lemma t2i_delete_ok:
  assumes "t2i_inv x" "vm_invar MAX_TOPICS m" "vm_lookup m (getClassHash E s) \<noteq> None"
  shows "\<exists>x'. t2i_deleteChannel E s (m, x) = Inr (vm_remove m (getClassHash E s), x') \<and> t2i_inv x'"
proof -
  have wf: "vm_wf MAX_TOPICS m" using assms(2) by (simp add: vm_invar_def)
  obtain e where "vm_lookup m (getClassHash E s) = Some e" using assms(3) by blast
  then show ?thesis
    using t2i_close_ok [OF assms(1), of e] by (auto simp: t2i_deleteChannel_def discardChannel_eq [OF wf])
qed

sublocale publisher_factory \<subseteq> channel_gateway E pub_service "t2i_setupChannel E G" "t2i_deleteChannel E" t2i_inv
  for E
  using t2i_setup_ok [OF publisher_factory_axioms] t2i_delete_ok by unfold_locales blast+

context publisher_factory
begin

lemma t2i_channels:
  assumes "t2i_inv x" "ep_inv E pub_service m" "distinct services" "length services \<le> MAX_TOPICS"
    and "inj_on (getClassHash E) (set services \<union> endpoint_services pub_service m)"
  shows "\<exists>m' x'. t2i_updateChannels E G services (m, x) = Inr (m', x') \<and> t2i_inv x' \<and>
    ep_inv E pub_service m' \<and> endpoint_services pub_service m' = set services"
  using update_channels [OF assms] by (simp add: t2i_updateChannels_def)

end

text \<open>A pool of 64 chunks, loaned with zeroed memory; publishers numbered by their service.\<close>

definition pool_loan ::
  "publisher_ptr \<Rightarrow> loan_request \<Rightarrow> (buffer_ptr \<rightharpoonup> chunk_mem) \<Rightarrow> (buffer_ptr \<times> chunk_mem) option" where
  "pool_loan pub r H =
     map_option (\<lambda>p. (p, \<lparr>ck_userHeader = replicate (unat (lr_userHeaderSize r)) 0,
                         ck_userPayload = replicate (unat (lr_userPayloadSize r)) 0\<rparr>))
       (find (\<lambda>p. H p = None) [0..<64])"

definition pool_env :: pub_env where
  "pool_env = \<lparr>newPublisher = (\<lambda>s x. \<lparr>pub_ptr = bytes_nat (eventID s), pub_uid = word_of_nat (bytes_nat (eventID s)),
     pub_service = s\<rparr>), loan = pool_loan, CHUNK_NO_USER_HEADER_SIZE = 0, CHUNK_NO_USER_HEADER_ALIGNMENT = 1\<rparr>"

lemma pool_loans_fresh: "loans_fresh pool_env"
  by (auto simp: loans_fresh_def pool_env_def pool_loan_def find_Some_iff)

interpretation pool: publisher_factory pool_env
  by unfold_locales (simp add: pool_env_def)

end
