(* ===== verification/ReceiverRuns.thy ===== *)
theory ReceiverRuns
  imports ChunkSafety
begin

text \<open>
  Runs of \<^verbatim>\<open>Transport2Iceoryx\<close>: the callbacks of the transport layers, the timeout check and the
  channel updates in any order, as a step relation. Chunks stay accounted for in every
  reachable state; what each callback guarantees by itself, and where the guarantees end
  (a full table of segmented messages, duplicated datagrams), is stated at the end.
\<close>

section \<open>User header pointers\<close>

text \<open>The user header pointer of a message is null or points into the chunk of the message.\<close>

definition headers_ok :: "segmented_messages \<Rightarrow> bool" where
  "headers_ok sm \<longleftrightarrow> (\<forall>msg \<in> set (m_elems sm). sm_userHeader msg = None \<or> sm_userHeader msg = Some (sm_userPayload msg))"

lemma headers_ok_lookup:
  assumes "headers_ok sm" "sm_invar sm" "vm_lookup sm h = Some msg"
  shows "sm_userHeader msg = None \<or> sm_userHeader msg = Some (sm_userPayload msg)"
  using assms vm_ran [of MAX_SEGMENTED_MESSAGE_COUNT sm] by (metis headers_ok_def ranI sm_invar_def)

lemma set_erase_at_subset: "set (erase_at i xs) \<subseteq> set xs"
  by (auto simp: erase_at_def dest: in_set_takeD in_set_dropD)

lemma headers_ok_remove: "headers_ok sm \<Longrightarrow> headers_ok (vm_remove sm h)"
  using set_erase_at_subset [of "vm_find sm h" "m_elems sm"]
  by (auto simp: headers_ok_def vm_remove_def vm_erase_def)

lemma headers_ok_modify:
  assumes "headers_ok sm" "sm_invar sm"
  shows "headers_ok (vm_modify sm h (\<lambda>msg. msg\<lparr>remainingSegments := r msg\<rparr>))"
proof -
  have "m_elems sm ! vm_find sm h \<in> set (m_elems sm)" if "vm_find sm h \<noteq> vm_end sm"
    using that by (cases rule: vm_find_cases [where k = h, OF sm_invar_wf [OF assms(2)]]) (auto simp: vm_end_def)
  then show ?thesis
    using assms(1) set_update_subset_insert [of "m_elems sm" "vm_find sm h"]
    by (fastforce simp: headers_ok_def vm_modify_def vm_assign_def)
qed

lemma headers_ok_findAndDecrement:
  "headers_ok sm \<Longrightarrow> sm_invar sm \<Longrightarrow> headers_ok (fst (findAndDecrement sm h))"
  by (auto simp: findAndDecrement_eq headers_ok_remove headers_ok_modify split: option.split)

lemma headers_ok_pushSegmented:
  assumes "headers_ok (segmented x)" "uh = None \<or> uh = Some up"
  shows "headers_ok (segmented (pushSegmented now mutex h n uh up pub x))"
proof -
  let ?msg = "\<lparr>remainingSegments = n, sm_userHeader = uh, sm_userPayload = up, sm_mutex = mutex,
     sm_publisher = pub_ptr pub, deadline = now + NS_PER_BYTE * int (unat (userHeaderSize h + userPayloadSize h))\<rparr>"
  have "segmented (pushSegmented now mutex h n uh up pub x)
      = fst (vm_emplace MAX_SEGMENTED_MESSAGE_COUNT (segmented x) (messageHash h) ?msg)"
    by (simp add: pushSegmented_def sm_push_def split: prod.split option.split)
  moreover have "set (m_elems (fst (vm_emplace cap m k v))) \<subseteq> insert v (set (m_elems m))" for cap k v and m :: segmented_messages
    by (auto simp: vm_emplace_def push_back_def split: prod.splits bool.splits if_splits)
  ultimately have "set (m_elems (segmented (pushSegmented now mutex h n uh up pub x))) \<subseteq> insert ?msg (set (m_elems (segmented x)))"
    by presburger
  then show ?thesis using assms by (fastforce simp: headers_ok_def)
qed

lemma headers_ok_keep: "headers_ok sm \<Longrightarrow> headers_ok (vm_keep P sm)"
  by (simp add: headers_ok_def vm_keep_elems)

lemma publishChunk_segmented: "publishChunk h dev pub up x = Inr x' \<Longrightarrow> segmented x' = segmented x"
  by (auto simp: publishChunk_result split: if_splits)

lemma fillChunk_segmented: "fillChunk h data uh up x = Inr x' \<Longrightarrow> segmented x' = segmented x"
  by (auto dest!: fillChunk_dom)

section \<open>The invariant of the receiver\<close>

definition receiver_inv :: "t2i_state \<Rightarrow> bool" where
  "receiver_inv x \<longleftrightarrow> t2i_inv x \<and> headers_ok (segmented x)"

abbreviation table_room :: "t2i_state \<Rightarrow> bool" where
  "table_room x \<equiv> vm_size (segmented x) < MAX_SEGMENTED_MESSAGE_COUNT"

lemma receiver_invD:
  assumes "receiver_inv x"
  shows "t2i_inv x" "headers_ok (segmented x)" "sm_invar (segmented x)"
  using assms by (simp_all add: receiver_inv_def t2i_inv_def)

lemma receiveChannel_headers:
  assumes "receiver_inv x" "receiveChannel G now mutex h data dev pub x = Inr x'"
  shows "headers_ok (segmented x')"
proof -
  note inv = receiver_invD [OF assms(1)]
  obtain sm r where dec: "findAndDecrement (segmented x) (messageHash h) = (sm, r)" by fastforce
  then have sm: "headers_ok sm" using headers_ok_findAndDecrement [OF inv(2,3), of "messageHash h"] by simp
  show ?thesis
  proof (cases r)
    case None
    show ?thesis
    proof (cases "loanChunk G h pub (x\<lparr>segmented := sm\<rparr>)")
      case None
      then show ?thesis using assms(2) dec sm \<open>r = None\<close> by (auto simp: receiveChannel_def)
    next
      case (Some l)
      obtain uh up x1 where l: "l = (uh, up, x1)" by (metis prod_cases3)
      have x1: "segmented x1 = sm" "uh = None \<or> uh = Some up"
        using Some by (auto simp: l loanChunk_eq split: if_splits prod.splits)
      then have "headers_ok (segmented (pushSegmented now mutex h n uh up pub x1))" for n
        by (intro headers_ok_pushSegmented) (simp_all add: sm)
      then show ?thesis
        using assms(2) dec sm Some \<open>r = None\<close> x1(1)
        by (auto simp: receiveChannel_def l result_simps split: if_splits
            dest!: fillChunk_segmented publishChunk_segmented)
    qed
  next
    case (Some a)
    then show ?thesis
      using assms(2) dec sm
      by (cases a) (auto simp: receiveChannel_def result_simps split: if_splits
          dest!: fillChunk_segmented publishChunk_segmented)
  qed
qed

lemma receiveChannel_inv:
  assumes "receiver_inv x" "loans_fresh G" "table_room x" "receiveChannel G now mutex h data dev pub x = Inr x'"
  shows "receiver_inv x'"
  using receiveChannel_safe [of x G h now mutex data dev pub] receiveChannel_headers [OF assms(1,4)] assms
  by (simp add: receiver_inv_def)

text \<open>A loaned buffer belongs to a chunk in use, and the loan always returns.\<close>

fun buffer_chunk :: "loaned_buffer \<Rightarrow> buffer_ptr" where
  "buffer_chunk (Header_Of p) = p"
| "buffer_chunk (Payload_Of p) = p"

lemma loanChannel_inv:
  assumes "receiver_inv x" "loans_fresh G" "table_room x"
  shows "\<exists>x' b. loanChannel G now mutex h pub (x, None) = Inr (x', b) \<and> receiver_inv x' \<and>
    (\<forall>p. map_option buffer_chunk b = Some p \<longrightarrow> p \<in> dom (chunks x'))"
proof -
  note inv = receiver_invD [OF assms(1)]
  note find = sm_find_eq [OF inv(3), of "messageHash h"]
  show ?thesis
  proof (cases "vm_lookup (segmented x) (messageHash h)")
    case (Some msg)
    then show ?thesis
      using find assms(1) t2i_inv_loaned [OF inv(1) Some] headers_ok_lookup [OF inv(2,3) Some]
      by (auto simp: loanChannel_def)
  next
    case None
    show ?thesis
    proof (cases "loan G (pub_ptr pub) (request_for G h) (chunks x)")
      case no: None
      then show ?thesis using None find assms(1) by (simp add: loanChannel_def loanChunk_eq)
    next
      case (Some pc)
      obtain p c where pc: "pc = (p, c)" by fastforce
      have fresh: "p \<notin> dom (chunks x)"
        using loan_fits [OF assms(2) Some [unfolded pc], of "replicate (unat (userPayloadSize h)) 0"
            "replicate (unat (userHeaderSize h)) 0"] by simp
      let ?uh = "if userHeaderSize h \<noteq> 0 then Some p else None"
      let ?x = "pushSegmented now mutex h (submessageCount h) ?uh p pub (x\<lparr>chunks := (chunks x)(p \<mapsto> c)\<rparr>)"
      have "t2i_inv ?x" by (rule t2i_inv_push [OF inv(1) None fresh assms(3)])
      moreover have "headers_ok (segmented ?x)" using inv(2) by (intro headers_ok_pushSegmented) simp_all
      moreover have "p \<in> dom (chunks ?x)"
        using pushSegmented_room [of "x\<lparr>chunks := (chunks x)(p \<mapsto> c)\<rparr>" h now mutex "submessageCount h" ?uh p pub]
          inv(3) None assms(3) by auto
      ultimately show ?thesis
        using None find Some by (auto simp: loanChannel_def loanChunk_eq pc receiver_inv_def)
    qed
  qed
qed

lemma releaseChannel_inv:
  assumes "receiver_inv x"
  shows "\<exists>x'. releaseChannel h shouldRelease dev pub x = Inr x' \<and> receiver_inv x'"
proof -
  note inv = receiver_invD [OF assms]
  obtain x' where x': "releaseChannel h shouldRelease dev pub x = Inr x'" "t2i_inv x'"
    using releaseChannel_safe [OF inv(1)] by blast
  have "headers_ok (segmented x')"
    using x'(1) headers_ok_remove [OF inv(2), of "messageHash h"] headers_ok_findAndDecrement [OF inv(2,3), of "messageHash h"]
    by (auto simp: releaseChannel_def sm_release_eq [OF inv(3)] split: if_splits option.splits prod.splits bool.splits
        dest!: publishChunk_segmented)
  then show ?thesis using x' by (simp add: receiver_inv_def)
qed

lemma checkTimeouts_receiver: "receiver_inv x \<Longrightarrow> receiver_inv (checkTimeouts now x)"
  using checkTimeouts_inv [of x now] headers_ok_keep [of "segmented x"]
  by (simp add: receiver_inv_def checkTimeouts_def checkSegmentedMessages_eq [of MAX_SEGMENTED_MESSAGE_COUNT] t2i_inv_def
      sm_invar_wf release_chunks_fields)

section \<open>Runs\<close>

text \<open>
  One step of the receiving gateway: a callback of a transport layer, a timeout check, or an update
  of the channels. The callbacks that may add a message to the table need room in it.
\<close>

inductive t2i_step ::
  "iox_env \<Rightarrow> pub_env \<Rightarrow> (publisher, t2i_state) gateway \<Rightarrow> (publisher, t2i_state) gateway \<Rightarrow> bool" for E G where
  step_receive: "table_room x \<Longrightarrow> receive E G now mutex bytes sz dev (m, x) = Inr x' \<Longrightarrow> t2i_step E G (m, x) (m, x')"
| step_loan: "table_room x \<Longrightarrow> loanBuffer E G now mutex bytes sz (m, x) = Inr (x', b) \<Longrightarrow> t2i_step E G (m, x) (m, x')"
| step_release: "releaseBuffer E bytes sz shouldRelease dev (m, x) = Inr x' \<Longrightarrow> t2i_step E G (m, x) (m, x')"
| step_timeouts: "t2i_step E G (m, x) (m, checkTimeouts now x)"
| step_channels: "t2i_updateChannels E G services (m, x) = Inr (m', x') \<Longrightarrow> t2i_step E G (m, x) (m', x')"

inductive_cases t2i_stepE: "t2i_step E G (m, x) (m', x')"

definition run_inv :: "(publisher, t2i_state) gateway \<Rightarrow> bool" where
  "run_inv = (\<lambda>(m, x). vm_wf MAX_TOPICS m \<and> receiver_inv x)"

lemma doForChannel_cases:
  assumes "vm_wf cap m" "doForChannel h f (m, x) = r"
  shows "r = Inr x \<or> (\<exists>e. r = f e x)"
  using assms by (auto simp: doForChannel_eq split: option.splits)

lemma receive_channel:
  assumes "vm_wf cap m" "receive E G now mutex bytes sz dev (m, x) = Inr x'"
  shows "x' = x \<or> (\<exists>h d pub. receiveChannel G now mutex h d dev pub x = Inr x')"
proof -
  obtain h n where "deserializeHeader E bytes sz = Inr (h, n)" using assms(2) by (auto simp: receive_def result_simps)
  then have "x' = x \<or> doForChannel (serviceHash h) (receiveChannel G now mutex h (drop n bytes) dev) (m, x) = Inr x'"
    using assms(2) by (auto simp: receive_def split: if_splits)
  then show ?thesis using doForChannel_cases [OF assms(1)] by (metis Inr_inject)
qed

lemma receive_outcome:
  assumes "receiver_inv x" "loans_fresh G" "table_room x" "vm_wf cap m" "sz \<le> length bytes"
  shows "receive E G now mutex bytes sz dev (m, x) \<noteq> Inl Use_After_Release \<and>
    (\<forall>x'. receive E G now mutex bytes sz dev (m, x) = Inr x' \<longrightarrow> receiver_inv x')"
proof (intro conjI allI impI)
  show "receive E G now mutex bytes sz dev (m, x) \<noteq> Inl Use_After_Release"
    using deserializeHeader_total [OF assms(5), of E] receiveChannel_safe [OF receiver_invD(1) [OF assms(1)] assms(2)] assms(3)
    by (auto simp: receive_def result_simps doForChannel_eq [OF assms(4)] split: if_splits option.splits)
  show "receiver_inv x'" if "receive E G now mutex bytes sz dev (m, x) = Inr x'" for x'
    using receive_channel [OF assms(4) that] receiveChannel_inv [OF assms(1-3)] assms(1) by blast
qed

lemma loanBuffer_inv:
  assumes "vm_wf cap m" "receiver_inv x" "loans_fresh G" "table_room x"
    and "loanBuffer E G now mutex bytes sz (m, x) = Inr (x', b)"
  shows "receiver_inv x' \<and> (\<forall>p. map_option buffer_chunk b = Some p \<longrightarrow> p \<in> dom (chunks x'))"
proof -
  obtain h n where "doForChannel (serviceHash h) (loanChannel G now mutex h) (m, (x, None)) = Inr (x', b)"
    using assms(5) by (auto simp: loanBuffer_def result_simps)
  then consider "x' = x" "b = None" | e where "loanChannel G now mutex h e (x, None) = Inr (x', b)"
    using doForChannel_cases [OF assms(1)] by (metis Inr_inject Pair_inject)
  then show ?thesis
  proof cases
    case (2 e)
    then show ?thesis using loanChannel_inv [OF assms(2-4), of now mutex h e] by auto
  qed (use assms(2) in simp)
qed

lemma releaseBuffer_inv:
  assumes "vm_wf cap m" "receiver_inv x" "releaseBuffer E bytes sz shouldRelease dev (m, x) = Inr x'"
  shows "receiver_inv x'"
proof -
  obtain h n where "doForChannel (serviceHash h) (releaseChannel h shouldRelease dev) (m, x) = Inr x'"
    using assms(3) by (auto simp: releaseBuffer_def result_simps)
  then consider "x' = x" | e where "releaseChannel h shouldRelease dev e x = Inr x'"
    using doForChannel_cases [OF assms(1)] by (metis Inr_inject)
  then show ?thesis
  proof cases
    case (2 e)
    then show ?thesis using releaseChannel_inv [OF assms(2), of h shouldRelease dev e] by auto
  qed (use assms(2) in simp)
qed

lemma t2i_close_receiver:
  assumes "receiver_inv x"
  shows "\<exists>x'. t2i_close pub x = Inr x' \<and> receiver_inv x'"
proof -
  obtain x' where "t2i_close pub x = Inr x'" "t2i_inv x'"
    "m_elems (segmented x') = filter (\<lambda>msg. sm_publisher msg \<noteq> pub_ptr pub) (m_elems (segmented x))"
    using t2i_close_ok [OF receiver_invD(1) [OF assms]] by blast
  then show ?thesis using receiver_invD(2) [OF assms] by (auto simp: receiver_inv_def headers_ok_def)
qed

lemma run_inv_setup: "run_inv st \<Longrightarrow> \<exists>st'. t2i_setupChannel E G s st = Inr st' \<and> run_inv st'"
proof -
  assume inv: "run_inv st"
  obtain m x where st: "st = (m, x)" by fastforce
  have wf: "vm_wf MAX_TOPICS m" using inv by (simp add: run_inv_def st)
  show ?thesis
  proof (cases "vm_size m < MAX_TOPICS")
    case True
    then show ?thesis
      using inv vm_emplace_wf [OF wf] unfolding t2i_setupChannel_def st
      by (auto simp: addChannel_room [OF wf True refl] run_inv_def receiver_inv_def t2i_inv_def)
  next
    case False
    then show ?thesis using inv unfolding t2i_setupChannel_def st by (auto simp: addChannel_full [OF wf False refl])
  qed
qed

lemma run_inv_delete: "run_inv st \<Longrightarrow> \<exists>st'. t2i_deleteChannel E s st = Inr st' \<and> run_inv st'"
proof -
  assume inv: "run_inv st"
  obtain m x where st: "st = (m, x)" by fastforce
  have wf: "vm_wf MAX_TOPICS m" and x: "receiver_inv x" using inv by (simp_all add: run_inv_def st)
  show ?thesis
    using inv vm_remove_wf [OF wf] t2i_close_receiver [OF x]
    by (cases "vm_lookup m (getClassHash E s)")
      (auto simp: t2i_deleteChannel_def discardChannel_eq [OF wf] st run_inv_def result_simps dest: spec)
qed

lemma t2i_step_inv:
  assumes "t2i_step E G st st'" "loans_fresh G" "run_inv st"
  shows "run_inv st'"
  using assms
proof cases
  case (step_receive x now mutex bytes sz dev m x')
  then show ?thesis
    using receive_channel [OF _ step_receive(4)] assms(2,3) by (auto simp: run_inv_def intro: receiveChannel_inv)
next
  case (step_loan x now mutex bytes sz m x' b)
  then show ?thesis using loanBuffer_inv [OF _ _ assms(2) step_loan(3,4)] assms(3) by (auto simp: run_inv_def)
next
  case (step_release bytes sz shouldRelease dev m x x')
  then show ?thesis using releaseBuffer_inv [OF _ _ step_release(3)] assms(3) by (auto simp: run_inv_def)
next
  case (step_timeouts m x now)
  then show ?thesis using assms(3) by (simp add: run_inv_def checkTimeouts_receiver)
next
  case (step_channels services m x m' x')
  have "\<exists>st'. t2i_updateChannels E G services (m, x) = Inr st' \<and> run_inv st'"
    unfolding t2i_updateChannels_def
    by (rule updateChannels_keeps [where Q = run_inv, OF run_inv_setup run_inv_delete]) (use assms(3) step_channels(1) in simp_all)
  then show ?thesis using step_channels by auto
qed

definition t2i_initial :: "forwarder \<Rightarrow> discovery \<Rightarrow> (publisher, t2i_state) gateway" where
  "t2i_initial fw d = (vm_empty, \<lparr>segmented = vm_empty, chunks = (\<lambda>_. None), iox_events = [], t2i_forwarder = fw, t2i_discovery = d\<rparr>)"

lemma run_inv_initial: "run_inv (t2i_initial fw d)"
  by (simp add: run_inv_def t2i_initial_def receiver_inv_def t2i_inv_def sm_invar_empty headers_ok_def)
    (simp add: vm_empty_def)

lemma run_inv_reachable:
  assumes "(t2i_step E G)\<^sup>*\<^sup>* (t2i_initial fw d) st" "loans_fresh G"
  shows "run_inv st"
  using assms(1) by induction (use run_inv_initial t2i_step_inv [OF _ assms(2)] in blast)+

section \<open>Properties\<close>

text \<open>
  C6. Chunks stay accounted for in every run: starting with no channel and no message, after any
  sequence of received datagrams, loans, releases, timeout checks and channel updates (the table
  of segmented messages never being full when a message is to be added), the loaned chunks are
  exactly those of the messages under construction, one for each, so none is leaked and none is in
  use by two messages.
\<close>

theorem chunks_accounted:
  assumes "(t2i_step E G)\<^sup>*\<^sup>* (t2i_initial fw d) (m, x)" "loans_fresh G"
  shows "dom (chunks x) = sm_userPayload ` set (m_elems (segmented x)) \<and>
    distinct (map sm_userPayload (m_elems (segmented x))) \<and> distinct (m_keys (segmented x)) \<and>
    finite (dom (chunks x)) \<and> card (dom (chunks x)) \<le> MAX_SEGMENTED_MESSAGE_COUNT"
proof -
  have inv: "t2i_inv x" using run_inv_reachable [OF assms] by (simp add: run_inv_def receiver_inv_def)
  then have "length (m_elems (segmented x)) \<le> MAX_SEGMENTED_MESSAGE_COUNT" "distinct (m_keys (segmented x))"
    by (simp_all add: t2i_inv_def sm_invar_def vm_invar_def vm_wf_def)
  moreover have "dom (chunks x) = set (sm_payloads (segmented x))" "distinct (sm_payloads (segmented x))"
    using inv by (simp_all add: t2i_inv_def)
  ultimately show ?thesis using card_length [of "sm_payloads (segmented x)"] by simp
qed

definition sample_receiver :: t2i_state where
  "sample_receiver = snd (t2i_initial (new_forwarder sample_env []) sample_discovery)"

theorem chunks_accounted_witness:
  "card (dom (chunks (checkTimeouts 5 sample_receiver))) \<le> MAX_SEGMENTED_MESSAGE_COUNT"
proof -
  have "t2i_step sample_env pool_env (t2i_initial (new_forwarder sample_env []) sample_discovery)
      (vm_empty, checkTimeouts 5 sample_receiver)"
    using step_timeouts [of sample_env pool_env vm_empty sample_receiver 5] by (simp add: sample_receiver_def t2i_initial_def)
  then show ?thesis
    using chunks_accounted [OF r_into_rtranclp pool_loans_fresh] by blast
qed

lemma sample_receiver_inv: "receiver_inv sample_receiver"
  using run_inv_initial [of "new_forwarder sample_env []" sample_discovery]
  by (simp add: sample_receiver_def run_inv_def case_prod_unfold)

lemma sample_receiver_room: "table_room sample_receiver"
  by (simp add: sample_receiver_def t2i_initial_def vm_size_def vm_empty_def MAX_SEGMENTED_MESSAGE_COUNT_def)



text \<open>
  A loan for a transport layer that writes into the chunk itself (\<^verbatim>\<open>bufferNeededCallback\<close>): with room
  in the table it always returns, the buffer it gives out belongs to a chunk that is in use, and
  the chunks stay accounted for.
\<close>

theorem loan_safe:
  assumes "receiver_inv x" "loans_fresh G" "table_room x" "vm_wf cap m"
    and "deserializeHeader E bytes sz = Inr (h, n)"
  shows "\<exists>x' b. loanBuffer E G now mutex bytes sz (m, x) = Inr (x', b) \<and> receiver_inv x' \<and>
    (\<forall>p. map_option buffer_chunk b = Some p \<longrightarrow> p \<in> dom (chunks x'))"
  using loanChannel_inv [OF assms(1-3)] assms(1,5)
  by (cases "vm_lookup m (serviceHash h)") (auto simp: loanBuffer_def doForChannel_eq [OF assms(4)])

theorem loan_safe_witness:
  "\<exists>bytes h n x' b. deserializeHeader sample_env bytes (length bytes) = Inr (h, n) \<and>
    loanBuffer sample_env pool_env 0 0 bytes (length bytes) (vm_empty, sample_receiver) = Inr (x', b) \<and> receiver_inv x'"
proof -
  let ?bytes = "replicate 50 (1 :: byte)"
  obtain h where h: "deserializeHeader sample_env ?bytes (length ?bytes) = Inr (h, 44)"
    using deserializeHeader_total [of "length ?bytes" ?bytes sample_env]
    by (auto simp: sample_env_def maxIoxChunkDatagramHeaderSerializationSize_def)
  from loan_safe [OF sample_receiver_inv pool_loans_fresh sample_receiver_room vm_empty_wf this, of 0 0] h
  show ?thesis by blast
qed


definition sample_publisher :: publisher where
  "sample_publisher = \<lparr>pub_ptr = 1, pub_uid = 1, pub_service = sample_service\<rparr>"

definition loaded_receiver :: t2i_state where
  "loaded_receiver = pushSegmented 0 0 sample_header 1 None 3 sample_publisher
     (sample_receiver\<lparr>chunks := (chunks sample_receiver)(3 \<mapsto> \<lparr>ck_userHeader = [], ck_userPayload = [1, 2, 3, 4, 5]\<rparr>)\<rparr>)"

lemma loaded_receiver_inv: "receiver_inv loaded_receiver"
proof -
  have "vm_lookup (segmented sample_receiver) (messageHash sample_header) = None" "3 \<notin> dom (chunks sample_receiver)"
    by (simp_all add: sample_receiver_def t2i_initial_def vm.lookup_empty)
  then show ?thesis
    using t2i_inv_push [OF receiver_invD(1) [OF sample_receiver_inv] _ _ sample_receiver_room]
      headers_ok_pushSegmented [of "sample_receiver\<lparr>chunks := H\<rparr>" for H] receiver_invD(2) [OF sample_receiver_inv]
    by (simp add: receiver_inv_def loaded_receiver_def)
qed

lemma loaded_receiver_fields:
  "\<exists>msg. vm_lookup (segmented loaded_receiver) 77 = Some msg \<and> remainingSegments msg = 1 \<and> sm_userPayload msg = 3"
  "chunks loaded_receiver 3 = Some \<lparr>ck_userHeader = [], ck_userPayload = [1, 2, 3, 4, 5]\<rparr>" "iox_events loaded_receiver = []"
proof -
  let ?x = "sample_receiver\<lparr>chunks := (chunks sample_receiver)(3 \<mapsto> \<lparr>ck_userHeader = [], ck_userPayload = [1, 2, 3, 4, 5]\<rparr>)\<rparr>"
  have "sm_invar (segmented ?x)" "vm_lookup (segmented ?x) (messageHash sample_header) = None"
    by (simp_all add: sample_receiver_def t2i_initial_def vm.lookup_empty sm_invar_empty)
  from pushSegmented_room [OF this, of 0 0 1 None 3 sample_publisher] sample_receiver_room
  obtain sm msg where eq: "loaded_receiver = ?x\<lparr>segmented := sm\<rparr>" and "vm_lookup sm 77 = Some msg"
    "remainingSegments msg = 1" "sm_userPayload msg = 3"
    by (auto simp: loaded_receiver_def sample_header_def)
  then show "\<exists>msg. vm_lookup (segmented loaded_receiver) 77 = Some msg \<and> remainingSegments msg = 1 \<and> sm_userPayload msg = 3"
    "chunks loaded_receiver 3 = Some \<lparr>ck_userHeader = [], ck_userPayload = [1, 2, 3, 4, 5]\<rparr>" "iox_events loaded_receiver = []"
    by (simp_all add: eq) (simp add: sample_receiver_def t2i_initial_def)
qed


text \<open>
  The periodic check drops exactly the messages whose deadline has passed: their chunks, which are
  loaned and distinct, are released once each, and everything else stays as it is.
\<close>

theorem timeouts_exact:
  fixes now :: time_point
  defines "expired \<equiv> \<lambda>x. filter (\<lambda>msg. deadline msg < now) (m_elems (segmented x))"
  assumes "receiver_inv x"
  shows "iox_events (checkTimeouts now x) = iox_events x @ map (\<lambda>msg. Released (sm_publisher msg) (sm_userPayload msg)) (expired x) \<and>
    distinct (map sm_userPayload (expired x)) \<and> set (map sm_userPayload (expired x)) \<subseteq> dom (chunks x) \<and>
    chunks (checkTimeouts now x) = chunks x |` (- set (map sm_userPayload (expired x))) \<and>
    m_elems (segmented (checkTimeouts now x)) = filter (\<lambda>msg. \<not> deadline msg < now) (m_elems (segmented x)) \<and>
    receiver_inv (checkTimeouts now x)"
proof -
  note inv = receiver_invD [OF assms(2)]
  have dist: "distinct (sm_payloads (segmented x))" and dom: "dom (chunks x) = set (sm_payloads (segmented x))"
    using inv(1) by (simp_all add: t2i_inv_def)
  have rs: "snd ` set (map release_of (expired x)) = set (map sm_userPayload (expired x))"
    by (force simp: release_of_def)
  have eq: "checkTimeouts now x = release_chunks (map release_of (expired x))
      (x\<lparr>segmented := vm_keep (\<lambda>msg. \<not> deadline msg < now) (segmented x)\<rparr>)"
    by (simp add: checkTimeouts_def checkSegmentedMessages_eq [OF sm_invar_wf [OF inv(3)]] expired_def)
  have "iox_events (checkTimeouts now x) = iox_events x @ map (\<lambda>msg. Released (sm_publisher msg) (sm_userPayload msg)) (expired x)"
    by (simp add: eq release_chunks_fields release_of_def comp_def)
  moreover have "chunks (checkTimeouts now x) = chunks x |` (- set (map sm_userPayload (expired x)))"
    using rs by (simp add: eq release_chunks_fields)
  moreover have "m_elems (segmented (checkTimeouts now x)) = filter (\<lambda>msg. \<not> deadline msg < now) (m_elems (segmented x))"
    by (simp add: eq release_chunks_fields vm_keep_elems)
  moreover have "distinct (map sm_userPayload (expired x))" "set (map sm_userPayload (expired x)) \<subseteq> dom (chunks x)"
    using dist dom by (auto simp: expired_def intro: distinct_map_filter)
  ultimately show ?thesis using checkTimeouts_receiver [OF assms(2), of now] by blast
qed

theorem timeouts_exact_witness:
  "\<exists>x'. checkTimeouts 5 loaded_receiver = x' \<and> receiver_inv x' \<and>
    m_elems (segmented x') = filter (\<lambda>msg. \<not> deadline msg < 5) (m_elems (segmented loaded_receiver))"
  using timeouts_exact [OF loaded_receiver_inv, of 5] by simp

text \<open>
  Closing a channel releases the chunks of all messages under construction for its publisher, each
  once, keeps those of the other publishers, and withdraws the publisher from the discovery system.
\<close>

theorem close_exact:
  assumes "receiver_inv x"
  shows "\<exists>x'. t2i_close pub x = Inr x' \<and> receiver_inv x' \<and>
    m_elems (segmented x') = filter (\<lambda>msg. sm_publisher msg \<noteq> pub_ptr pub) (m_elems (segmented x)) \<and>
    dom (chunks x') = sm_userPayload ` {msg \<in> set (m_elems (segmented x)). sm_publisher msg \<noteq> pub_ptr pub} \<and>
    (\<exists>rs. iox_events x' = iox_events x @ map (Released (pub_ptr pub)) rs \<and> distinct rs \<and>
      set rs = sm_userPayload ` {msg \<in> set (m_elems (segmented x)). sm_publisher msg = pub_ptr pub})"
proof -
  note inv = receiver_invD [OF assms]
  let ?mine = "rev (filter (\<lambda>msg. sm_publisher msg = pub_ptr pub) (m_elems (segmented x)))"
  obtain x' where x': "t2i_close pub x = Inr x'" "t2i_inv x'"
    "m_elems (segmented x') = filter (\<lambda>msg. sm_publisher msg \<noteq> pub_ptr pub) (m_elems (segmented x))"
    using t2i_close_ok [OF inv(1)] by blast
  have recv: "receiver_inv x'" using t2i_close_receiver [OF assms, of pub] x'(1) by simp
  have "iox_events x' = iox_events x @ map (Released (pub_ptr pub)) (map sm_userPayload ?mine)"
    using x'(1) releaseAll_eq [OF sm_invar_wf [OF inv(3)], of "pub_ptr pub"]
    by (auto simp: t2i_close_def release_chunks_fields release_of_def)
  moreover have "distinct (map sm_userPayload ?mine)"
    using inv(1) by (simp add: t2i_inv_def distinct_map_filter flip: rev_map)
  moreover have "dom (chunks x') = sm_userPayload ` {msg \<in> set (m_elems (segmented x)). sm_publisher msg \<noteq> pub_ptr pub}"
    using x'(2,3) by (simp add: t2i_inv_def)
  ultimately show ?thesis using x' recv by (intro exI [of _ x'] conjI exI [of _ "map sm_userPayload ?mine"]) auto
qed

theorem close_exact_witness: "\<exists>x'. t2i_close sample_publisher loaded_receiver = Inr x' \<and> receiver_inv x'"
  using close_exact [OF loaded_receiver_inv, of sample_publisher] by blast

text \<open>
  C37. With a full table the guarantee ends: the first datagram of a further segmented message loans a
  chunk, \<^verbatim>\<open>push\<close> releases it because it finds no room, and the datagram is then copied into the
  released chunk.
\<close>

theorem full_table_use_after_release:
  assumes "receiver_inv x" "loans_fresh G" "\<not> table_room x" "vm_wf cap m" "vm_lookup m (serviceHash g) = Some pub"
    and "wf_header E g" "unat (submessageSize g) = length d"
    and "maxIoxChunkDatagramHeaderSerializationSize E + length d < 2 ^ 32"
    and "vm_lookup (segmented x) (messageHash g) = None" "1 < submessageCount g"
    and "loan G (pub_ptr pub) (request_for G g) (chunks x) = Some (p, c)"
  shows "receive E G now mutex (datagram E (g, d)) (length (datagram E (g, d))) dev (m, x) = Inl Use_After_Release"
  using receive_datagram [OF assms(4-8)] receiveChannel_table_full [OF receiver_invD(1) [OF assms(1)] assms(9,2,3,10,11)] by simp

definition full_receiver :: t2i_state where
  "full_receiver = sample_receiver\<lparr>
     segmented := \<lparr>m_keys = map word_of_nat [0..<64], m_elems = map (\<lambda>p. \<lparr>remainingSegments = 1, sm_userHeader = None,
       sm_userPayload = p, sm_mutex = 0, sm_publisher = 1, deadline = 0\<rparr>) [0..<64]\<rparr>,
     chunks := (\<lambda>p. if p < 64 then Some \<lparr>ck_userHeader = [], ck_userPayload = []\<rparr> else None)\<rparr>"

definition wide_env :: pub_env where
  "wide_env = pool_env\<lparr>loan := (\<lambda>pub r H. map_option (\<lambda>p. (p, \<lparr>ck_userHeader = replicate (unat (lr_userHeaderSize r)) 0,
     ck_userPayload = replicate (unat (lr_userPayloadSize r)) 0\<rparr>)) (find (\<lambda>p. H p = None) [0..<65]))\<rparr>"

lemma wide_loans_fresh: "loans_fresh wide_env"
  by (auto simp: loans_fresh_def wide_env_def pool_env_def find_Some_iff)

lemma full_receiver_inv: "receiver_inv full_receiver \<and> \<not> table_room full_receiver \<and> vm_lookup (segmented full_receiver) 77 = None"
proof -
  have "inj_on (word_of_nat :: nat \<Rightarrow> u32) {0..<64}"
    by (rule inj_on_inverseI [of _ unat]) (simp add: unat_of_nat)
  then have keys: "distinct (map (word_of_nat :: nat \<Rightarrow> u32) [0..<64])" by (simp add: distinct_map)
  have "(77 :: u32) \<noteq> word_of_nat k" if "k < 64" for k
  proof
    assume "(77 :: u32) = word_of_nat k"
    then have "unat (77 :: u32) = unat (word_of_nat k :: u32)" by simp
    then show False using that by (simp add: unat_of_nat)
  qed
  then have absent: "(77 :: u32) \<notin> set (map word_of_nat [0..<64])" by auto
  have wf: "vm_wf MAX_SEGMENTED_MESSAGE_COUNT (segmented full_receiver)"
    by (simp add: full_receiver_def vm_wf_def MAX_SEGMENTED_MESSAGE_COUNT_def)
  have payloads: "sm_payloads (segmented full_receiver) = [0..<64]" by (simp add: full_receiver_def comp_def)
  have "dom (chunks full_receiver) = set [0..<64]" by (auto simp: full_receiver_def split: if_splits)
  then have "t2i_inv full_receiver"
    using wf keys unfolding t2i_inv_def payloads by (simp add: sm_invar_def vm_invar_def full_receiver_def del: upt_Suc)
  moreover have "headers_ok (segmented full_receiver)" by (simp add: headers_ok_def full_receiver_def)
  moreover have "vm_lookup (segmented full_receiver) 77 = None"
    using absent vm_lookup_None_iff [OF wf] by (simp add: full_receiver_def del: upt_Suc)
  ultimately show ?thesis by (simp add: receiver_inv_def full_receiver_def vm_size_def MAX_SEGMENTED_MESSAGE_COUNT_def)
qed

definition one_channel :: "publisher endpoints" where
  "one_channel = \<lparr>m_keys = [[1, 2, 3, 4]], m_elems = [sample_publisher]\<rparr>"

lemma one_channel_lookup: "vm_wf MAX_TOPICS one_channel" "vm_lookup one_channel [1, 2, 3, 4] = Some sample_publisher"
  by (simp_all add: one_channel_def vm_wf_def MAX_TOPICS_def vm_lookup_def vm_defs)

theorem full_table_use_after_release_witness:
  "receive sample_env wide_env 0 0 (datagram sample_env (sample_header, [1, 2, 3]))
     (length (datagram sample_env (sample_header, [1, 2, 3]))) \<lparr>di_type = UDP, di_device = 0\<rparr> (one_channel, full_receiver)
   = Inl Use_After_Release"
proof -
  have "find (\<lambda>p. chunks full_receiver p = None) [0..<65] = Some 64"
    by (auto simp: full_receiver_def find_Some_iff nth_append simp del: upt_Suc intro!: exI [of _ 64])
  then obtain c where "loan wide_env (pub_ptr sample_publisher) (request_for wide_env sample_header) (chunks full_receiver) = Some (64, c)"
    by (auto simp: wide_env_def pool_env_def simp del: upt_Suc)
  moreover have "vm_lookup (segmented full_receiver) (messageHash sample_header) = None" "1 < submessageCount sample_header"
    "wf_header sample_env sample_header" "unat (submessageSize sample_header) = length [1, 2, 3 :: byte]"
    "vm_lookup one_channel (serviceHash sample_header) = Some sample_publisher"
    "maxIoxChunkDatagramHeaderSerializationSize sample_env + length [1, 2, 3 :: byte] < 2 ^ 32"
    using full_receiver_inv one_channel_lookup
    by (simp_all add: sample_header_def wf_header_def sample_env_def maxIoxChunkDatagramHeaderSerializationSize_def)
  ultimately show ?thesis
    using full_table_use_after_release [OF _ wide_loans_fresh _ one_channel_lookup(1)] full_receiver_inv by blast
qed

text \<open>
  Segments are counted, not identified: if the network delivers the first datagram of a two-segment
  message twice, the chunk is published without the second segment, and the bytes that segment would
  have filled are what the loaned memory held before.
\<close>

theorem duplicate_publishes_early:
  assumes "sm_invar (segmented x)" "vm_lookup (segmented x) (messageHash h) = None" "table_room x" "loans_fresh G"
    and "loan G (pub_ptr pub) (request_for G h) (chunks x) = Some (p, c)"
    and "segment_of h [] ps s" "userHeaderSize h = 0" "unat (userPayloadSize h) = length ps" "submessageCount h = 2"
  shows "\<exists>x' c'. foldR (arrive G mutex pub) [(now1, dev1, s), (now2, dev2, s)] x = Inr x' \<and>
    iox_events x' = iox_events x @ [Published (pub_ptr pub) p c'] \<and>
    (\<forall>i < length ps. i < seg_offset s \<or> seg_offset s + length (snd s) \<le> i \<longrightarrow> ck_userPayload c' ! i = ck_userPayload c ! i)"
proof -
  have fits: "chunk_fits [] ps c"
    using loan_fits [OF assms(4,5), of ps "[]"] assms(7,8) by simp
  have uh: "userHeaderSize h = word_of_nat (length ([] :: byte list))" "length ([] :: byte list) < 2 ^ 32" using assms(7) by simp_all
  obtain c1 where c1: "fillAll 0 [s] c = Inr c1" "chunk_fits [] ps c1"
    and first: "1 < submessageCount h \<Longrightarrow> \<exists>sm msg. arrive G mutex pub (now1, dev1, s) x
         = Inr (x\<lparr>segmented := sm, chunks := (chunks x)(p \<mapsto> c1)\<rparr>) \<and> sm_invar sm \<and>
       vm_lookup sm = (vm_lookup (segmented x))(messageHash h \<mapsto> msg) \<and>
       remainingSegments msg = submessageCount h - 1 \<and> sm_userPayload msg = p \<and> sm_userHeader msg = None"
  proof (rule arrive_first [OF assms(1-3,5) fits assms(6) uh, of mutex now1 dev1], goal_cases)
    case (1 c1)
    then show ?case using that [of c1] by simp
  qed
  have "1 < submessageCount h" using assms(9) by (simp add: word_less_nat_alt)
  from first [OF this] obtain sm msg where
    step: "arrive G mutex pub (now1, dev1, s) x = Inr (x\<lparr>segmented := sm, chunks := (chunks x)(p \<mapsto> c1)\<rparr>)" "sm_invar sm"
    "vm_lookup sm = (vm_lookup (segmented x))(messageHash h \<mapsto> msg)" "remainingSegments msg = 1" "sm_userPayload msg = p"
    "sm_userHeader msg = None"
    using assms(9) by auto
  let ?x = "x\<lparr>segmented := sm, chunks := (chunks x)(p \<mapsto> c1)\<rparr>"
  obtain c2 sm2 where c2: "fillAll 0 [s] c1 = Inr c2"
    and second: "arrive G mutex pub (now2, dev2, s) ?x
      = publishChunk (fst s) dev2 pub p (?x\<lparr>segmented := sm2, chunks := (chunks ?x)(p \<mapsto> c2)\<rparr>)"
  proof (rule arrive_known [of ?x h msg "[]" ps s c1 G mutex pub now2 dev2], goal_cases)
    case (9 c2 sm2)
    then show ?case using that [of c2 sm2] step by simp
  qed (use step assms(6,7) c1(2) in simp_all)
  have pieces: "copy_pieces (ck_userPayload c) (payload_pieces 0 [s, s]) = Inr (ck_userPayload c2)"
    using fillAll_Cons [OF c1(1), of "[s]"] c2 by (auto simp: fillAll_def header_pieces_def result_simps)
  have slice: "slice_of ps (seg_offset s, snd s)" using assms(6) by (simp add: segment_of_def)
  then obtain buf where "copy_pieces (ck_userPayload c) (payload_pieces 0 [s, s]) = Inr buf"
    "\<forall>i < length ps. buf ! i = (if covers (payload_pieces 0 [s, s]) i then ps ! i else ck_userPayload c ! i)"
    using copy_pieces_slices [of "ck_userPayload c" ps "payload_pieces 0 [s, s]"] fits
    by (auto simp: payload_pieces_def chunk_fits_def)
  then have "\<forall>i < length ps. i < seg_offset s \<or> seg_offset s + length (snd s) \<le> i \<longrightarrow> ck_userPayload c2 ! i = ck_userPayload c ! i"
    using pieces by (auto simp: covers_def payload_pieces_def)
  then show ?thesis using step(1) second by (simp add: publishChunk_def)
qed

theorem duplicate_publishes_early_witness:
  "\<exists>x' c'. foldR (arrive pool_env 0 sample_publisher)
      [(0, \<lparr>di_type = UDP, di_device = 0\<rparr>, (sample_header, [1, 2, 3])), (1, \<lparr>di_type = UDP, di_device = 0\<rparr>, (sample_header, [1, 2, 3]))]
      sample_receiver = Inr x' \<and>
    iox_events x' = [Published 1 0 c'] \<and> ck_userPayload c' ! 4 = 0"
proof -
  let ?c = "\<lparr>ck_userHeader = [], ck_userPayload = replicate 5 0\<rparr>"
  have x: "segmented sample_receiver = vm_empty" "chunks sample_receiver = (\<lambda>_. None)" "iox_events sample_receiver = []"
    by (simp_all add: sample_receiver_def t2i_initial_def)
  have loan: "loan pool_env (pub_ptr sample_publisher) (request_for pool_env sample_header) (chunks sample_receiver) = Some (0, ?c)"
    by (simp add: pool_env_def pool_loan_def request_for_def sample_header_def x upt_rec)
  have "segment_of sample_header [] [1, 2, 3, 4, 5] (sample_header, [1, 2, 3])"
    by (simp add: segment_of_def sample_header_def slice_of_def)
  from duplicate_publishes_early [OF _ _ sample_receiver_room pool_loans_fresh loan this, where mutex = 0
      and ?now1.0 = 0 and ?now2.0 = 1 and ?dev1.0 = "\<lparr>di_type = UDP, di_device = 0\<rparr>" and ?dev2.0 = "\<lparr>di_type = UDP, di_device = 0\<rparr>"]
  obtain x' c' where "foldR (arrive pool_env 0 sample_publisher)
      [(0, \<lparr>di_type = UDP, di_device = 0\<rparr>, (sample_header, [1, 2, 3])), (1, \<lparr>di_type = UDP, di_device = 0\<rparr>, (sample_header, [1, 2, 3]))]
      sample_receiver = Inr x'" "iox_events x' = [Published 1 0 c']"
    "\<forall>i < 5. i < seg_offset (sample_header, [1, 2, 3]) \<or> seg_offset (sample_header, [1, 2, 3]) + 3 \<le> i \<longrightarrow> ck_userPayload c' ! i = replicate 5 0 ! i"
    by (auto simp: x sm_invar_empty vm.lookup_empty sample_header_def sample_publisher_def)
  then show ?thesis by (auto simp: sample_header_def)
qed

end
