(* ===== verification/TcpTransport.thy ===== *)
theory TcpTransport
  imports UdpTransport
begin

text \<open>
  The TCP transport layer: \<^verbatim>\<open>TCPTransport\<close> (\<^verbatim>\<open>source/tcp/tcp_transport.cpp\<close>) and its sessions
  (\<^verbatim>\<open>tcp_transport_session.cpp\<close>, \<^verbatim>\<open>tcp_client_transport_session.cpp\<close>,
  \<^verbatim>\<open>tcp_server_transport_session.cpp\<close>). The layer finds other gateways with a \<^verbatim>\<open>UDPBroadcast\<close> object of
  its own and keeps one session per remote address; a device index is a position in the vector of sessions.

  The socket library runs everything from one thread: it completes one asynchronous operation after
  the other and calls the handler that was passed with it. A session records the operations it has
  outstanding, and the model has one function per handler, which takes the outcome of the operation
  as arguments. Handlers capture the session's address; the operations of a session that
  has been destroyed are kept apart (\<open>ts_dangling\<close>), and completing one is a use after release.
\<close>

section \<open>Sessions\<close>

definition MAX_PACKET_SIZE :: nat where
  "MAX_PACKET_SIZE = 65535"

datatype session_role = Client_Session | Server_Session

text \<open>What a session waits for; a read of the message remembers the size of its buffer.\<close>

datatype async_op = Op_Connect | Op_Retry | Op_Read_Size | Op_Read_Message nat

text \<open>
  \<open>ts_ptr\<close> is the address of the object, \<open>ts_peer\<close> what \<^verbatim>\<open>remote_endpoint\<close> of its socket answers
  (nothing if it sets an error code). \<open>m_retriesLeft\<close> is used by client sessions only.
\<close>

record tcp_session =
  ts_ptr :: nat
  ts_role :: session_role
  ts_remoteEndpoint :: endpoint
  m_retriesLeft :: int
  m_readBufferSize :: u64
  ts_peer :: "endpoint option"
  ts_ops :: "async_op list"

definition newClientSession :: "nat \<Rightarrow> endpoint \<Rightarrow> tcp_session" where
  "newClientSession p remote_endpoint = \<lparr>ts_ptr = p, ts_role = Client_Session, ts_remoteEndpoint = remote_endpoint,
     m_retriesLeft = 3, m_readBufferSize = 0, ts_peer = None, ts_ops = []\<rparr>"

definition newServerSession :: "nat \<Rightarrow> tcp_session" where
  "newServerSession p = \<lparr>ts_ptr = p, ts_role = Server_Session, ts_remoteEndpoint = default_endpoint,
     m_retriesLeft = 0, m_readBufferSize = 0, ts_peer = None, ts_ops = []\<rparr>"

text \<open>The server session asks its socket as long as it does not know an address.\<close>

definition serverRemoteEndpoint :: "tcp_session \<Rightarrow> tcp_session \<times> endpoint" where
  "serverRemoteEndpoint s =
     (let s1 = (if address (ts_remoteEndpoint s) = 0
                then s\<lparr>ts_remoteEndpoint := (case ts_peer s of Some e \<Rightarrow> e | None \<Rightarrow> default_endpoint)\<rparr> else s)
      in (s1, ts_remoteEndpoint s1))"

definition remoteEndpoint :: "tcp_session \<Rightarrow> tcp_session \<times> endpoint" where
  "remoteEndpoint s = (case ts_role s of
     Client_Session \<Rightarrow> (s, ts_remoteEndpoint s)
   | Server_Session \<Rightarrow> serverRemoteEndpoint s)"

definition connectToEndpoint :: "tcp_session \<Rightarrow> tcp_session" where
  "connectToEndpoint s = s\<lparr>ts_ops := ts_ops s @ [Op_Connect]\<rparr>"

definition receiveTcpData :: "tcp_session \<Rightarrow> tcp_session" where
  "receiveTcpData s = s\<lparr>ts_ops := ts_ops s @ [Op_Read_Size]\<rparr>"

text \<open>\<open>noDelay\<close>: whether the socket option could be set; the server session reads only then.\<close>

definition serverStart :: "bool \<Rightarrow> tcp_session \<Rightarrow> tcp_session" where
  "serverStart noDelay s = (if noDelay then receiveTcpData s else s)"

definition startSession :: "bool \<Rightarrow> tcp_session \<Rightarrow> tcp_session" where
  "startSession noDelay s = (case ts_role s of
     Client_Session \<Rightarrow> connectToEndpoint s
   | Server_Session \<Rightarrow> serverStart noDelay s)"

text \<open>
  \<^verbatim>\<open>asio::write\<close> on the socket of a session: the connection afterwards, and the number of bytes
  written unless it throws.
\<close>

type_synonym 'c stream_write = "nat \<Rightarrow> byte list \<Rightarrow> 'c \<Rightarrow> 'c \<times> u64 option"

definition sessionSendData :: "'c stream_write \<Rightarrow> nat \<Rightarrow> byte list \<Rightarrow> byte list \<Rightarrow> 'c \<Rightarrow> (bool \<times> 'c) result" where
  "sessionSendData write p data1 data2 net =
     (let totalSize = word_of_nat (length data1) + word_of_nat (length data2) :: u64
      in case write p (nat_bytes 8 (unat totalSize)) net of
           (net1, None) \<Rightarrow> Inr (False, net1)
         | (net1, Some writtenSize) \<Rightarrow>
             bindR (expects (writtenSize = 8)) (\<lambda>_.
             case write p (data1 @ data2) net1 of
               (net2, None) \<Rightarrow> Inr (False, net2)
             | (net2, Some writtenData) \<Rightarrow>
                 bindR (expects (writtenData = totalSize)) (\<lambda>_. Inr (False, net2))))"

section \<open>The layer\<close>

record ('n, 'c) tcp_state =
  m_broadcast :: "'n udp_state"
  m_transportSessions :: "tcp_session list"
  m_infoToReport :: "(endpoint \<times> byte list) list"
  m_serverListeningSession :: "tcp_session option"
  ts_next :: nat
  ts_dangling :: "(nat \<times> async_op) list"
  tcp_net :: 'c

text \<open>What a handler passes to the callbacks that the gateway has registered.\<close>

datatype tcp_delivery = Discovery_Info "byte list" device_index | User_Data "byte list" device_index

definition updateSession :: "nat \<Rightarrow> (tcp_session \<Rightarrow> tcp_session) \<Rightarrow> ('n, 'c) tcp_state \<Rightarrow> ('n, 'c) tcp_state" where
  "updateSession p f st = st\<lparr>m_transportSessions := map (\<lambda>s. if ts_ptr s = p then f s else s) (m_transportSessions st)\<rparr>"

text \<open>A session object dies with the operations it has outstanding.\<close>

definition destroy :: "tcp_session \<Rightarrow> ('n, 'c) tcp_state \<Rightarrow> ('n, 'c) tcp_state" where
  "destroy s st = st\<lparr>ts_dangling := ts_dangling st @ map (Pair (ts_ptr s)) (ts_ops s)\<rparr>"

fun findSessionIn :: "u32 \<Rightarrow> tcp_session list \<Rightarrow> tcp_session list \<times> nat" where
  "findSessionIn addr [] = ([], 0)"
| "findSessionIn addr (s # ss) =
     (case remoteEndpoint s of (s', e) \<Rightarrow>
        if address e = addr then (s' # ss, 0)
        else case findSessionIn addr ss of (ss', n) \<Rightarrow> (s' # ss', Suc n))"

definition findSession :: "endpoint \<Rightarrow> ('n, 'c) tcp_state \<Rightarrow> ('n, 'c) tcp_state \<times> nat" where
  "findSession e st =
     (case findSessionIn (address e) (m_transportSessions st) of (ss, n) \<Rightarrow> (st\<lparr>m_transportSessions := ss\<rparr>, n))"

definition remoteDiscoveryHandler :: "byte list \<Rightarrow> nat \<Rightarrow> tcp_delivery" where
  "remoteDiscoveryHandler bytes device = Discovery_Info bytes \<lparr>di_type = TCP, di_device = word_of_nat device\<rparr>"

text \<open>Sessions that have come up report the discovery message that made the layer connect.\<close>

definition handleSessionOpen :: "nat \<Rightarrow> ('n, 'c) tcp_state \<Rightarrow> (('n, 'c) tcp_state \<times> tcp_delivery option) result" where
  "handleSessionOpen p st =
     (case find (\<lambda>s. ts_ptr s = p) (m_transportSessions st) of
        None \<Rightarrow> Inl Use_After_Release
      | Some s \<Rightarrow>
          let e = snd (remoteEndpoint s);
              st1 = updateSession p (fst \<circ> remoteEndpoint) st;
              it = find_if (\<lambda>i. address (fst i) = address e) (m_infoToReport st1)
          in if it \<noteq> length (m_infoToReport st1)
             then case findSession e st1 of (st2, deviceIdx) \<Rightarrow>
                    Inr (st2\<lparr>m_infoToReport := erase_at it (m_infoToReport st2)\<rparr>,
                         Some (remoteDiscoveryHandler (snd (m_infoToReport st1 ! it)) deviceIdx))
             else Inr (st1, None))"

definition startBack :: "bool \<Rightarrow> ('n, 'c) tcp_state \<Rightarrow> ('n, 'c) tcp_state result" where
  "startBack noDelay st =
     (if m_transportSessions st = [] then Inl Out_Of_Bounds
      else Inr (st\<lparr>m_transportSessions :=
             butlast (m_transportSessions st) @ [startSession noDelay (last (m_transportSessions st))]\<rparr>))"

text \<open>
  The two \<^verbatim>\<open>addSession\<close> overloads. A full vector takes no element, which the code does not check:
  it starts the last session, whichever that is.
\<close>

definition addClientSession :: "endpoint \<Rightarrow> bool \<Rightarrow> ('n, 'c) tcp_state \<Rightarrow> ('n, 'c) tcp_state result" where
  "addClientSession endpoint noDelay st =
     startBack noDelay (st\<lparr>ts_next := Suc (ts_next st), m_transportSessions :=
       fst (push_back MAX_DEVICE_COUNT (m_transportSessions st) (newClientSession (ts_next st) endpoint))\<rparr>)"

definition addServerSession :: "bool \<Rightarrow> ('n, 'c) tcp_state \<Rightarrow> (('n, 'c) tcp_state \<times> tcp_delivery option) result" where
  "addServerSession noDelay st =
     (case m_serverListeningSession st of
        None \<Rightarrow> Inl Null_Dereference
      | Some s \<Rightarrow>
          case push_back MAX_DEVICE_COUNT (m_transportSessions st) s of (ss, pushed) \<Rightarrow>
          bindR (startBack noDelay (st\<lparr>m_transportSessions := ss,
                   m_serverListeningSession := (if pushed then None else Some s)\<rparr>)) (\<lambda>st1.
          handleSessionOpen (ts_ptr (last (m_transportSessions st1))) st1))"

definition startAccept :: "('n, 'c) tcp_state \<Rightarrow> ('n, 'c) tcp_state" where
  "startAccept st =
     (let st1 = (case m_serverListeningSession st of None \<Rightarrow> st | Some s \<Rightarrow> destroy s st)
      in st1\<lparr>m_serverListeningSession := Some (newServerSession (ts_next st1)), ts_next := Suc (ts_next st1)\<rparr>)"

definition acceptHandler ::
  "bool \<Rightarrow> endpoint option \<Rightarrow> bool \<Rightarrow> transport_layer \<times> ('n, 'c) tcp_state
     \<Rightarrow> (transport_layer \<times> ('n, 'c) tcp_state \<times> tcp_delivery option) result" where
  "acceptHandler ec peer noDelay = (\<lambda>(t, st).
     if ec then Inr (setFailed t, st, None)
     else case m_serverListeningSession st of
       None \<Rightarrow> Inl Null_Dereference
     | Some s \<Rightarrow>
         case remoteEndpoint (s\<lparr>ts_peer := peer\<rparr>) of (s1, e) \<Rightarrow>
         case findSession e (st\<lparr>m_serverListeningSession := Some s1\<rparr>) of (st1, iter) \<Rightarrow>
         bindR (if iter = length (m_transportSessions st1) then addServerSession noDelay st1 else Inr (st1, None))
           (\<lambda>(st2, out). Inr (t, startAccept st2, out)))"

definition handleSessionClose :: "nat \<Rightarrow> ('n, 'c) tcp_state \<Rightarrow> ('n, 'c) tcp_state" where
  "handleSessionClose p st =
     (let it = find_if (\<lambda>s. ts_ptr s = p) (m_transportSessions st)
      in if it \<noteq> length (m_transportSessions st)
         then destroy (m_transportSessions st ! it)
                (st\<lparr>m_transportSessions := erase_at it (m_transportSessions st)\<rparr>)
         else st)"

definition sessionClosedHandler :: "nat \<Rightarrow> ('n, 'c) tcp_state \<Rightarrow> ('n, 'c) tcp_state" where
  "sessionClosedHandler p st = handleSessionClose p (updateSession p (\<lambda>s. s\<lparr>ts_peer := None\<rparr>) st)"

text \<open>
  A discovery message. From an address without a session it is kept for later and a connection is
  started; the vector it is copied to has room for a discovery message of maximal size.
\<close>

definition udpDiscoveryCallback ::
  "iox_env \<Rightarrow> bool \<Rightarrow> byte list \<Rightarrow> device_index \<Rightarrow> ('n, 'c) tcp_state
     \<Rightarrow> (('n, 'c) tcp_state \<times> tcp_delivery option) result" where
  "udpDiscoveryCallback E noDelay bytes deviceIndex st =
     (case getEndpoint (di_device deviceIndex) (m_broadcast st) of (b, endpoint) \<Rightarrow>
      let tcpEndpoint = \<lparr>address = address endpoint, port = DATA_PORT\<rparr>
      in case findSession tcpEndpoint (st\<lparr>m_broadcast := b\<rparr>) of (st1, iter) \<Rightarrow>
         if iter = length (m_transportSessions st1)
         then if maxPubSubInfoSerializationSize E < length bytes then Inl Out_Of_Bounds
              else bindR (addClientSession tcpEndpoint noDelay
                     (st1\<lparr>m_infoToReport := fst (push_back MAX_DEVICE_COUNT (m_infoToReport st1) (tcpEndpoint, bytes))\<rparr>))
                     (\<lambda>st2. Inr (st2, None))
         else Inr (st1, Some (remoteDiscoveryHandler bytes iter)))"

definition handleUserDataCallback :: "byte list \<Rightarrow> endpoint \<Rightarrow> ('n, 'c) tcp_state \<Rightarrow> tcp_delivery option" where
  "handleUserDataCallback bytes e st =
     (case getIndex (address e) (m_broadcast st) of
        Some i \<Rightarrow> Some (User_Data bytes \<lparr>di_type = TCP, di_device = i\<rparr>)
      | None \<Rightarrow> None)"

definition tcpSendBroadcast :: "'n send_to \<Rightarrow> transport_layer \<Rightarrow> byte list \<Rightarrow> ('n, 'c) tcp_state \<Rightarrow> transport_layer \<times> ('n, 'c) tcp_state" where
  "tcpSendBroadcast send t bytes st =
     (t, st\<lparr>m_broadcast := sendBroadcastLoop send bytes (m_broadcastEndpoints (m_broadcast st)) (m_broadcast st)\<rparr>)"

definition tcpSendUserData ::
  "'c stream_write \<Rightarrow> transport_layer \<Rightarrow> byte list \<Rightarrow> byte list \<Rightarrow> u32 \<Rightarrow> ('n, 'c) tcp_state
     \<Rightarrow> (transport_layer \<times> bool \<times> ('n, 'c) tcp_state) result" where
  "tcpSendUserData write t data1 data2 deviceIndex st =
     (let ss = m_transportSessions st; i = unat deviceIndex
      in if length ss \<le> i then Inr (t, False, st)
         else bindR (sessionSendData write (ts_ptr (ss ! i)) data1 data2 (tcp_net st)) (\<lambda>(pending, net).
              Inr (t, pending, st\<lparr>m_transportSessions := ss[i := fst (remoteEndpoint (ss ! i))], tcp_net := net\<rparr>)))"

text \<open>The methods of the layer; \<^verbatim>\<open>willBePending\<close> is inherited and returns false.\<close>

definition tcp_ops :: "'c stream_write \<Rightarrow> ('n, 'c) tcp_state layer_ops" where
  "tcp_ops write = \<lparr>sendUserData = tcpSendUserData write, willBePending = (\<lambda>_ _. False),
     maxMessageSize = (\<lambda>_. MAX_PACKET_SIZE)\<rparr>"

section \<open>Completion of the sessions' operations\<close>

text \<open>An operation of the session at address \<open>p\<close> completes: its handler uses the session.\<close>

definition completes ::
  "nat \<Rightarrow> async_op \<Rightarrow> (tcp_session \<Rightarrow> ('n, 'c) tcp_state \<Rightarrow> 'a result) \<Rightarrow> ('n, 'c) tcp_state \<Rightarrow> 'a result" where
  "completes p oper handler st =
     (case find (\<lambda>s. ts_ptr s = p) (m_transportSessions st) of
        None \<Rightarrow> Inl Use_After_Release
      | Some s \<Rightarrow> handler s (updateSession p (\<lambda>s. s\<lparr>ts_ops := remove1 oper (ts_ops s)\<rparr>) st))"

definition connectionFailedHandler :: "tcp_session \<Rightarrow> ('n, 'c) tcp_state \<Rightarrow> ('n, 'c) tcp_state" where
  "connectionFailedHandler s st =
     (let st1 = updateSession (ts_ptr s) (\<lambda>s. s\<lparr>ts_peer := None\<rparr>) st
      in if 0 < m_retriesLeft s
         then updateSession (ts_ptr s) (\<lambda>s. s\<lparr>m_retriesLeft := m_retriesLeft s - 1, ts_ops := ts_ops s @ [Op_Retry]\<rparr>) st1
         else sessionClosedHandler (ts_ptr s) st1)"

definition connectHandler :: "nat \<Rightarrow> bool \<Rightarrow> ('n, 'c) tcp_state \<Rightarrow> (('n, 'c) tcp_state \<times> tcp_delivery option) result" where
  "connectHandler p ec = completes p Op_Connect (\<lambda>s st.
     if ec then Inr (connectionFailedHandler s st, None)
     else bindR (handleSessionOpen p (updateSession p (\<lambda>s. s\<lparr>ts_peer := Some (ts_remoteEndpoint s)\<rparr>) st)) (\<lambda>(st1, out).
          Inr (updateSession p receiveTcpData st1, out)))"

definition retryHandler :: "nat \<Rightarrow> bool \<Rightarrow> ('n, 'c) tcp_state \<Rightarrow> (('n, 'c) tcp_state \<times> tcp_delivery option) result" where
  "retryHandler p ec = completes p Op_Retry (\<lambda>s st.
     Inr (if ec then sessionClosedHandler p st else updateSession p connectToEndpoint st, None))"

text \<open>\<^verbatim>\<open>asio::buffer (m_readBuffer, m_readBufferSize)\<close> is never longer than the array.\<close>

definition readOuter :: "nat \<Rightarrow> bool \<Rightarrow> byte list \<Rightarrow> ('n, 'c) tcp_state \<Rightarrow> (('n, 'c) tcp_state \<times> tcp_delivery option) result" where
  "readOuter p ec bytes = completes p Op_Read_Size (\<lambda>s st.
     Inr (if ec then sessionClosedHandler p st
          else updateSession p (\<lambda>s. let sz = word_of_nat (bytes_nat bytes) in s\<lparr>m_readBufferSize := sz,
                 ts_ops := ts_ops s @ [Op_Read_Message (min MAX_PACKET_SIZE (unat sz))]\<rparr>) st, None))"

definition readInner :: "nat \<Rightarrow> nat \<Rightarrow> bool \<Rightarrow> byte list \<Rightarrow> ('n, 'c) tcp_state \<Rightarrow> (('n, 'c) tcp_state \<times> tcp_delivery option) result" where
  "readInner p n ec bytes = completes p (Op_Read_Message n) (\<lambda>s st.
     if ec then Inr (sessionClosedHandler p st, None)
     else Inr (updateSession p (receiveTcpData \<circ> fst \<circ> remoteEndpoint) st,
               handleUserDataCallback bytes (snd (remoteEndpoint s)) st))"

section \<open>Events\<close>

text \<open>The constructor: the acceptor may fail to open; otherwise the layer starts to accept.\<close>

definition newTcpTransport :: "bool \<Rightarrow> 'n udp_state \<Rightarrow> 'c \<Rightarrow> transport_layer \<times> ('n, 'c) tcp_state" where
  "newTcpTransport opened b net =
     (let t = \<lparr>getType = TCP, m_status = GOOD\<rparr>;
          st = \<lparr>m_broadcast = b, m_transportSessions = [], m_infoToReport = [], m_serverListeningSession = None,
                ts_next = 0, ts_dangling = [], tcp_net = net\<rparr>
      in if opened then (t, startAccept st) else (setFailed t, st))"

datatype tcp_event =
    Accepted bool "endpoint option" bool
  | Discovered bool "byte list" endpoint bool bool
  | Completed nat async_op bool "byte list"

text \<open>
  What the socket library calls: the accept handler, the broadcast object's handler, which passes a
  message on to \<^verbatim>\<open>udpDiscoveryCallback\<close>, and the handler of a session's operation.
\<close>

fun tcp_handle ::
  "iox_env \<Rightarrow> tcp_event \<Rightarrow> transport_layer \<times> ('n, 'c) tcp_state
     \<Rightarrow> (transport_layer \<times> ('n, 'c) tcp_state \<times> tcp_delivery option) result" where
  "tcp_handle E (Accepted ec peer noDelay) (t, st) = acceptHandler ec peer noDelay (t, st)"
| "tcp_handle E (Discovered ec bytes sender rearmed noDelay) (t, st) =
     (case discoverySocketCallback ec bytes sender rearmed (m_broadcast st) of
        (b, None) \<Rightarrow> Inr (t, st\<lparr>m_broadcast := b\<rparr>, None)
      | (b, Some (bytes', i)) \<Rightarrow>
          bindR (udpDiscoveryCallback E noDelay bytes' i (st\<lparr>m_broadcast := b\<rparr>)) (\<lambda>(st', out). Inr (t, st', out)))"
| "tcp_handle E (Completed p oper ec bytes) (t, st) =
     bindR (case oper of
        Op_Connect \<Rightarrow> connectHandler p ec st
      | Op_Retry \<Rightarrow> retryHandler p ec st
      | Op_Read_Size \<Rightarrow> readOuter p ec bytes st
      | Op_Read_Message n \<Rightarrow> readInner p n ec bytes st) (\<lambda>(st', out). Inr (t, st', out))"

end
