(* ===== verification/GatewayApp.thy ===== *)
theory GatewayApp
  imports Config ReceiverRuns TcpTransport
begin

text \<open>
  \<^verbatim>\<open>main\<close>, \<^verbatim>\<open>GatewayApp::run\<close> (\<^verbatim>\<open>source/p3com/gateway/main.cpp\<close>, \<^verbatim>\<open>source/p3com/gateway/gateway_app.cpp\<close>) and
  how they wire the components: the two gateways, the discovery system, the UDP layer and the TCP layer share
  one world, and the update callback of the discovery system changes the channels of both
  gateways. The main loop is a list of turns, each at a point in time. The theory discharges
  the contract that \<open>Discovery\<close> assumes of its environment for this wiring, with no
  assumption about the network or the middleware.
\<close>

section \<open>The composed world\<close>

record ('n, 'c) gw_world =
  gw_publishers :: "publisher endpoints"
  gw_t2i :: t2i_state
  gw_subscribers :: "subscriber endpoints"
  gw_i2t :: i2t_state
  gw_udp :: "'n udp_state"
  gw_tcp :: "('n, 'c) tcp_state"
  gw_random :: "nat \<Rightarrow> hash"
  gw_drawn :: nat

text \<open>The callback passed to \<^verbatim>\<open>discovery->initialize\<close>.\<close>

definition gw_updateCallback ::
  "iox_env \<Rightarrow> pub_env \<Rightarrow> sub_env \<Rightarrow> service_description list \<Rightarrow> discovery \<times> ('n, 'c) gw_world
     \<Rightarrow> (discovery \<times> ('n, 'c) gw_world) result" where
  "gw_updateCallback E G S neededChannels = (\<lambda>(d, w).
     bindR (t2i_updateChannels E G neededChannels (gw_publishers w, (gw_t2i w)\<lparr>t2i_discovery := d\<rparr>)) (\<lambda>(m1, x1).
     bindR (i2t_updateChannels E S neededChannels (gw_subscribers w, gw_i2t w)) (\<lambda>(m2, x2).
     Inr (t2i_discovery x1, w\<lparr>gw_publishers := m1, gw_t2i := x1, gw_subscribers := m2, gw_i2t := x2\<rparr>))))"

text \<open>The broadcast of a layer: the TCP layer announces over a broadcast object of its own.\<close>

definition gw_sendBroadcast ::
  "'n send_to \<Rightarrow> transport_layer \<Rightarrow> byte list \<Rightarrow> ('n, 'c) gw_world \<Rightarrow> transport_layer \<times> ('n, 'c) gw_world" where
  "gw_sendBroadcast send t bytes w =
     (if getType t = TCP
      then case tcpSendBroadcast send t bytes (gw_tcp w) of (t', u) \<Rightarrow> (t', w\<lparr>gw_tcp := u\<rparr>)
      else case udpSendBroadcast send t bytes (gw_udp w) of (t', u) \<Rightarrow> (t', w\<lparr>gw_udp := u\<rparr>))"

definition gw_env :: "iox_env \<Rightarrow> pub_env \<Rightarrow> sub_env \<Rightarrow> 'n send_to \<Rightarrow> ('n, 'c) gw_world disc_env" where
  "gw_env E G S send =
     \<lparr>iox = E, sendBroadcast = gw_sendBroadcast send,
      generateHash = (\<lambda>w. (gw_random w (gw_drawn w), w\<lparr>gw_drawn := Suc (gw_drawn w)\<rparr>)),
      updateCallback = gw_updateCallback E G S\<rparr>"

section \<open>The run\<close>

definition LOSSY_TRANSPORT_DISCOVERY_PERIOD :: time_point where
  "LOSSY_TRANSPORT_DISCOVERY_PERIOD = 500 * 1000000"

type_synonym ('n, 'c) app_state = "(transport_info \<times> (discovery \<times> ('n, 'c) gw_world)) \<times> time_point"

text \<open>One turn of the main loop at time \<open>now\<close>; the state ends with \<^verbatim>\<open>lastLossyDiscovery\<close>.\<close>

definition mainLoopTurn ::
  "('n, 'c) gw_world disc_env \<Rightarrow> time_point \<Rightarrow> ('n, 'c) app_state \<Rightarrow> ('n, 'c) app_state result" where
  "mainLoopTurn D now = (\<lambda>((ti, (d, w)), last).
     let w1 = w\<lparr>gw_t2i := checkTimeouts now (gw_t2i w)\<rparr>
     in if last + LOSSY_TRANSPORT_DISCOVERY_PERIOD < now
        then bindR (foldR (resendDiscoveryInfoToTransport D) LOSSY_TRANSPORT_TYPES (ti, (d, w1)))
               (\<lambda>s. Inr (s, now))
        else Inr ((ti, (d, w1)), last))"

text \<open>
  The whole run: the manager starts with the gateway hash \<open>h\<close> and the preferred transport, the
  loop starts at the time \<open>start\<close> and turns at the times \<open>turns\<close>; after \<^verbatim>\<open>deinitialize\<close> the layers are
  destroyed.
\<close>

definition gw_run ::
  "('n, 'c) gw_world disc_env \<Rightarrow> hash \<Rightarrow> gateway_config \<Rightarrow> time_point \<Rightarrow> time_point list \<Rightarrow> transport_info
     \<Rightarrow> ('n, 'c) gw_world \<Rightarrow> (transport_info \<times> (discovery \<times> ('n, 'c) gw_world)) result" where
  "gw_run D h config start turns ti w =
     bindR (initialize D (ti, (new_discovery h (preferredTransport config), w))) (\<lambda>s.
     bindR (foldR (mainLoopTurn D) turns (s, start)) (\<lambda>(s1, _).
     bindR (deinitialize D s1) (\<lambda>(ti2, s2).
     Inr (terminate_transports ti2, s2))))"

text \<open>
  \<^verbatim>\<open>main\<close>: the options that \<^verbatim>\<open>getopt_long\<close> returns, the configuration files by their path and the outcome of the
  layers' constructors are arguments. The result is \<open>None\<close> when the command line asks for nothing to be run.
\<close>

definition gateway_main ::
  "('n, 'c) gw_world disc_env \<Rightarrow> nat \<Rightarrow> build \<Rightarrow> (transport_type \<Rightarrow> transport_status) \<Rightarrow> (char \<times> string) list \<Rightarrow> (string \<Rightarrow> toml option)
     \<Rightarrow> hash \<Rightarrow> time_point \<Rightarrow> time_point list \<Rightarrow> ('n, 'c) gw_world
     \<Rightarrow> (transport_info \<times> (discovery \<times> ('n, 'c) gw_world)) option result" where
  "gateway_main D cap B ctor opts files h start turns w =
     (let cmdLineArgs = parseCmdLine cap opts
      in if cl_run cmdLineArgs
         then bindR (parseConfig (iox D) (files (configFile cmdLineArgs))) (\<lambda>gwConfig.
              case newGatewayApp B ctor cmdLineArgs gwConfig initial_transport_info of (gwConfig', ti) \<Rightarrow>
                bindR (gw_run D h gwConfig' start turns ti w) (\<lambda>s. Inr (Some s)))
         else Inr None)"

section \<open>The contract of the discovery environment holds\<close>

text \<open>Publishers: the chunks stay accounted for, the manager only gains and loses publisher ids.\<close>

definition t2i_keeps :: "discovery \<Rightarrow> (publisher, t2i_state) gateway \<Rightarrow> bool" where
  "t2i_keeps d = (\<lambda>(m, x). vm_wf MAX_TOPICS m \<and> receiver_inv x \<and> (\<exists>uids. t2i_discovery x = d\<lparr>m_gatewayPublisherUids := uids\<rparr>))"

lemma receiver_inv_discovery [simp]: "receiver_inv (x\<lparr>t2i_discovery := d\<rparr>) = receiver_inv x"
  by (simp add: receiver_inv_def t2i_inv_def)

lemma t2i_discovery_release_chunks [simp]: "t2i_discovery (release_chunks rs x) = t2i_discovery x"
  unfolding release_chunks_def by (induction rs arbitrary: x) (simp_all add: release_chunk_def)

lemma t2i_setup_keeps:
  assumes "t2i_keeps d (m, x)"
  shows "\<exists>st'. t2i_setupChannel E G s (m, x) = Inr st' \<and> t2i_keeps d st'"
proof -
  have wf: "vm_wf MAX_TOPICS m" using assms by (simp add: t2i_keeps_def)
  let ?f = "\<lambda>pub x. Inr (x\<lparr>t2i_discovery := addGatewayPublisher E (pub_uid pub) (t2i_discovery x)\<rparr>)"
  show ?thesis
  proof (cases "vm_size m < MAX_TOPICS")
    case True
    show ?thesis
      using assms vm_emplace_wf [OF wf] unfolding t2i_setupChannel_def
      by (auto simp: addChannel_room [OF wf True refl] t2i_keeps_def addGatewayPublisher_def)
  next
    case False
    show ?thesis
      using assms unfolding t2i_setupChannel_def by (auto simp: addChannel_full [OF wf False refl])
  qed
qed

lemma t2i_delete_keeps:
  assumes "t2i_keeps d (m, x)"
  shows "\<exists>st'. t2i_deleteChannel E s (m, x) = Inr st' \<and> t2i_keeps d st'"
proof (cases "vm_lookup m (getClassHash E s)")
  case None
  then show ?thesis using assms discardChannel_eq [of MAX_TOPICS m E t2i_close s x]
    by (simp add: t2i_keeps_def t2i_deleteChannel_def)
next
  case (Some e)
  have wf: "vm_wf MAX_TOPICS m" using assms by (simp add: t2i_keeps_def)
  obtain x' where x': "t2i_close e x = Inr x'" "receiver_inv x'" using t2i_close_receiver assms by (fastforce simp: t2i_keeps_def)
  then have "\<exists>uids. t2i_discovery x' = d\<lparr>m_gatewayPublisherUids := uids\<rparr>"
    using assms by (auto simp: t2i_keeps_def t2i_close_def discardGatewayPublisher_def split: prod.splits)
  then show ?thesis
    using x' Some wf vm_remove_wf [OF wf] by (simp add: t2i_deleteChannel_def discardChannel_eq [OF wf] t2i_keeps_def)
qed

text \<open>Subscribers: the wait for pending messages always ends.\<close>

definition i2t_keeps :: "(subscriber, i2t_state) gateway \<Rightarrow> bool" where
  "i2t_keeps = (\<lambda>(m, x). vm_wf MAX_TOPICS m \<and> completions_come x)"

lemma i2t_setup_keeps:
  assumes "i2t_keeps (m, x)"
  shows "\<exists>st'. i2t_setupChannel E S s (m, x) = Inr st' \<and> i2t_keeps st'"
proof -
  have wf: "vm_wf MAX_TOPICS m" using assms by (simp add: i2t_keeps_def)
  show ?thesis
  proof (cases "vm_size m < MAX_TOPICS")
    case True
    show ?thesis
      using assms vm_emplace_wf [OF wf] unfolding i2t_setupChannel_def
      by (auto simp: addChannel_room [OF wf True refl] i2t_keeps_def i2t_attach_def completions_come_def)
  next
    case False
    show ?thesis
      using assms unfolding i2t_setupChannel_def by (auto simp: addChannel_full [OF wf False refl])
  qed
qed

lemma i2t_delete_keeps:
  assumes "i2t_keeps (m, x)"
  shows "\<exists>st'. i2t_deleteChannel E s (m, x) = Inr st' \<and> i2t_keeps st'"
proof (cases "vm_lookup m (getClassHash E s)")
  case None
  then show ?thesis using assms discardChannel_eq [of MAX_TOPICS m E i2t_detach s x]
    by (simp add: i2t_keeps_def i2t_deleteChannel_def)
next
  case (Some e)
  have wf: "vm_wf MAX_TOPICS m" using assms by (simp add: i2t_keeps_def)
  obtain x' where "i2t_detach e x = Inr x'" "completions_come x'"
    using i2t_detach_ok assms by (fastforce simp: i2t_keeps_def)
  then show ?thesis
    using Some vm_remove_wf [OF wf] by (simp add: i2t_deleteChannel_def discardChannel_eq [OF wf] i2t_keeps_def)
qed

definition gw_inv :: "('n, 'c) gw_world \<Rightarrow> bool" where
  "gw_inv w \<longleftrightarrow> vm_wf MAX_TOPICS (gw_publishers w) \<and> receiver_inv (gw_t2i w) \<and> i2t_keeps (gw_subscribers w, gw_i2t w)"

lemma gw_updateCallback_ok:
  assumes "gw_inv w"
  shows "\<exists>uids w'. gw_updateCallback E G S ss (d, w) = Inr (d\<lparr>m_gatewayPublisherUids := uids\<rparr>, w') \<and> gw_inv w'"
proof -
  let ?x = "(gw_t2i w)\<lparr>t2i_discovery := d\<rparr>"
  have "t2i_keeps d (gw_publishers w, ?x)"
    using assms by (auto simp: gw_inv_def t2i_keeps_def intro: exI [of _ "m_gatewayPublisherUids d"])
  then obtain m1 x1 where 1: "t2i_updateChannels E G ss (gw_publishers w, ?x) = Inr (m1, x1)" "t2i_keeps d (m1, x1)"
    using updateChannels_keeps [of "t2i_keeps d" "t2i_setupChannel E G" "t2i_deleteChannel E" "gw_publishers w" ?x E pub_service ss]
      t2i_setup_keeps t2i_delete_keeps by (fastforce simp: t2i_updateChannels_def)
  obtain m2 x2 where 2: "i2t_updateChannels E S ss (gw_subscribers w, gw_i2t w) = Inr (m2, x2)" "i2t_keeps (m2, x2)"
    using updateChannels_keeps [of i2t_keeps "i2t_setupChannel E S" "i2t_deleteChannel E" "gw_subscribers w" "gw_i2t w" E sub_service ss]
      i2t_setup_keeps i2t_delete_keeps assms by (fastforce simp: i2t_updateChannels_def gw_inv_def)
  obtain uids where "t2i_discovery x1 = d\<lparr>m_gatewayPublisherUids := uids\<rparr>" using 1(2) by (auto simp: t2i_keeps_def)
  then show ?thesis
    using 1 2 by (auto simp: gw_updateCallback_def gw_inv_def t2i_keeps_def)
qed

interpretation gw: discovery_env "gw_env E G S send" gw_inv for E G S send
proof
  show "\<exists>uids w'. updateCallback (gw_env E G S send) ss (d, w) = Inr (d\<lparr>m_gatewayPublisherUids := uids\<rparr>, w') \<and> gw_inv w'"
    if "gw_inv w" for w d ss
    using gw_updateCallback_ok [OF that] by (simp add: gw_env_def)
qed (auto simp: gw_env_def gw_sendBroadcast_def udpSendBroadcast_def tcpSendBroadcast_def gw_inv_def isGood_def split: if_splits)

section \<open>The run returns\<close>

lemma iox_gw_env [simp]: "iox (gw_env E G S send) = E"
  by (simp add: gw_env_def)

definition app_ok :: "iox_env \<Rightarrow> transport_info \<times> (discovery \<times> ('n, 'c) gw_world) \<Rightarrow> bool" where
  "app_ok E = (\<lambda>(ti, (d, w)). ti_wf ti \<and> wf_local E d \<and> gw_inv w)"

lemma resend_keeps:
  assumes "index type < TRANSPORT_TYPE_COUNT" "app_ok E s"
  shows "\<exists>s'. resendDiscoveryInfoToTransport (gw_env E G S send) type s = Inr s' \<and> app_ok E s'"
proof -
  obtain ti d w where s: "s = (ti, (d, w))" by (metis prod_cases3)
  have "wf_local (iox (gw_env E G S send)) d" "ti_wf ti" "gw_inv w" using assms(2) by (simp_all add: app_ok_def s)
  from gw.resend_total [OF this(2,1,3) assms(1)] show ?thesis
    using assms(2) by (force simp: app_ok_def s)
qed

lemma mainLoopTurn_keeps:
  assumes "app_ok E (fst st)"
  shows "\<exists>st'. mainLoopTurn (gw_env E G S send) now st = Inr st' \<and> app_ok E (fst st')"
proof -
  obtain ti d w last where st: "st = ((ti, (d, w)), last)" by (metis prod.collapse)
  let ?s = "(ti, (d, w\<lparr>gw_t2i := checkTimeouts now (gw_t2i w)\<rparr>))"
  have ok: "app_ok E ?s" using assms by (simp add: st app_ok_def gw_inv_def checkTimeouts_receiver)
  obtain s1 where "resendDiscoveryInfoToTransport (gw_env E G S send) UDP ?s = Inr s1" "app_ok E s1"
    using resend_keeps [OF _ ok, of UDP G S send] by (auto simp: TRANSPORT_TYPE_COUNT_def)
  moreover obtain s2 where "resendDiscoveryInfoToTransport (gw_env E G S send) TCP s1 = Inr s2" "app_ok E s2"
    using resend_keeps [OF _ \<open>app_ok E s1\<close>, of TCP G S send] by (auto simp: TRANSPORT_TYPE_COUNT_def)
  ultimately show ?thesis
    using ok by (cases s2) (simp add: st mainLoopTurn_def LOSSY_TRANSPORT_TYPES_def)
qed

lemma wf_local_cong: "m_localState d' = m_localState d \<Longrightarrow> wf_local E d' = wf_local E d"
  by (simp add: wf_local_def)

lemma initialize_keeps:
  assumes "app_ok E s"
  shows "\<exists>s'. initialize (gw_env E G S send) s = Inr s' \<and> app_ok E s'"
proof -
  obtain ti d w where s: "s = (ti, (d, w))" by (metis prod_cases3)
  let ?d = "d\<lparr>m_updateCallback := Callback_Gateway\<rparr>"
  have "wf_local (iox (gw_env E G S send)) ?d" "ti_wf ti" "gw_inv w"
    using assms wf_local_cong [of ?d d E] by (simp_all add: app_ok_def s)
  from gw.announce_total [OF this(2,1,3)] show ?thesis
    using \<open>wf_local _ ?d\<close> by (force simp: app_ok_def s initialize_def)
qed

lemma deinitialize_keeps:
  assumes "app_ok E s"
  shows "\<exists>s'. deinitialize (gw_env E G S send) s = Inr s' \<and> app_ok E s'"
proof -
  obtain ti d w where s: "s = (ti, (d, w))" by (metis prod_cases3)
  let ?d = "d\<lparr>m_terminateFlag := True, m_updateCallback := Callback_Ignore\<rparr>"
  have ok: "wf_local (iox (gw_env E G S send)) ?d" "ti_wf ti" "gw_inv w"
    using assms wf_local_cong [of ?d d E] by (simp_all add: app_ok_def s)
  obtain info w' where info: "generateDiscoveryInfo (gw_env E G S send) ti (?d, w) = (info, w')" by fastforce
  have "wf_info (iox (gw_env E G S send)) (info\<lparr>isTermination := True\<rparr>)"
    using generateDiscoveryInfo_wf [OF ok(1) info] by (simp add: wf_info_def)
  from gw.send_total [OF ok(2,1) this gw.generateDiscoveryInfo_world [OF info ok(3)]] show ?thesis
    using info ok(1) by (force simp: app_ok_def s deinitialize_def)
qed

lemma gw_run_returns:
  assumes "ti_wf ti" "gw_inv w"
  shows "\<exists>ti' d w'. gw_run (gw_env E G S send) h config start turns ti w = Inr (ti', (d, w')) \<and> gw_inv w' \<and>
    (\<forall>t \<in> set (s_transports ti'). t = None)"
proof -
  let ?D = "gw_env E G S send"
  have "app_ok E (ti, (new_discovery h (preferredTransport config), w))"
    using assms by (simp add: app_ok_def wf_local_def new_discovery_def)
  then obtain s where init: "initialize ?D (ti, (new_discovery h (preferredTransport config), w)) = Inr s" "app_ok E s"
    using initialize_keeps by blast
  obtain st where loop: "foldR (mainLoopTurn ?D) turns (s, start) = Inr st" "app_ok E (fst st)"
    using foldR_keeps [where Q = "\<lambda>st. app_ok E (fst st)" and f = "mainLoopTurn ?D" and st = "(s, start)" and ss = turns,
        OF mainLoopTurn_keeps] init(2) by auto
  obtain s' where "deinitialize ?D (fst st) = Inr s'" "app_ok E s'" using deinitialize_keeps [OF loop(2)] by blast
  then show ?thesis
    using init(1) loop(1) by (cases st; cases s') (auto simp: gw_run_def app_ok_def terminate_transports_def)
qed

section \<open>Properties\<close>

text \<open>
  A run of the gateway ends without a fault: whatever the network does and whenever the main
  loop turns, initialisation, every turn (timeout check and periodic announcement) and the
  shutdown return, and at the end every transport layer is destroyed and all chunks are
  accounted for.
\<close>

theorem gateway_run_ends:
  assumes "ti_wf ti" "gw_inv w"
  shows "\<exists>ti' d w'. gw_run (gw_env E G S send) h config start turns ti w = Inr (ti', (d, w')) \<and> gw_inv w' \<and>
    (\<forall>t \<in> set (s_transports ti'). t = None)"
  by (rule gw_run_returns [OF assms])

text \<open>A file that the parser accepts: a known name of a transport, if any, and services with all three of their names.\<close>

definition config_ok :: "toml option \<Rightarrow> bool" where
  "config_ok doc = (case doc of None \<Rightarrow> True | Some t \<Rightarrow>
     toml_preferred t \<in> {None, Some ''PCIE'', Some ''UDP'', Some ''TCP''} \<and>
     list_all (\<lambda>s. toml_service s \<noteq> None \<and> toml_instance s \<noteq> None \<and> toml_event s \<noteq> None) (toml_forwarded t))"

lemma parseServices_ok:
  "list_all (\<lambda>s. toml_service s \<noteq> None \<and> toml_instance s \<noteq> None \<and> toml_event s \<noteq> None) ts \<Longrightarrow> \<exists>ss'. parseServices cap ts ss = Inr ss'"
  by (induction ts arbitrary: ss) (auto simp: parseService_def)

lemma parseConfig_ok:
  assumes "config_ok doc"
  shows "\<exists>config. parseConfig E doc = Inr config"
proof (cases doc)
  case None
  then show ?thesis by (simp add: parseConfig_def)
next
  case (Some t)
  then obtain ss where "parseServices (idCapacity E) (toml_forwarded t) [] = Inr ss"
    using parseServices_ok [of "toml_forwarded t"] assms by (auto simp: config_ok_def)
  moreover have "\<exists>config. parsePreferred (toml_preferred t) default_config = Inr config"
    using assms Some by (auto simp: config_ok_def parsePreferred_def TRANSPORT_TYPE_NAMES_def)
  ultimately show ?thesis using Some by (auto simp: parseConfig_def)
qed


definition sample_world :: "((byte list \<times> endpoint) list, unit) gw_world" where
  "sample_world = \<lparr>gw_publishers = vm_empty, gw_t2i = sample_receiver, gw_subscribers = vm_empty,
     gw_i2t = \<lparr>i2t_waitset = [], i2t_unsubscribed = [], i2t_pending = vm_empty, i2t_completions = [], i2t_released = []\<rparr>,
     gw_udp = sample_udp, gw_tcp = snd (newTcpTransport True sample_udp ()), gw_random = (\<lambda>n. word_of_nat n), gw_drawn = 0\<rparr>"

lemma sample_world_inv: "gw_inv sample_world"
  using sample_receiver_inv
  by (simp add: gw_inv_def sample_world_def i2t_keeps_def completions_come_def pm_invar_empty)
    (simp add: pm_abs_def vm.lookup_empty fun_eq_iff)

abbreviation sample_gw_env :: "((byte list \<times> endpoint) list, unit) gw_world disc_env" where
  "sample_gw_env \<equiv> gw_env sample_env pool_env numbered_subscribers ideal_send"


text \<open>
  C18. A discovery message from another gateway is always absorbed: reception returns, the registry and the
  gateways keep their invariants, the records stay bounded with one record for each gateway, and
  the cache of device indices is emptied, hence coherent, unless the message says goodbye, in
  which case only the record of that gateway goes.
\<close>

theorem discovery_message_absorbed:
  assumes "ti_wf ti" "wf_local E d" "gw_inv w" "disc_inv d" "deserializeInfo E bytes sz = Inr (info, n)"
  shows "\<exists>ti' d' w'. receiveRemoteDiscoveryInfo (gw_env E G S send) bytes sz dev (ti, (d, w)) = Inr (ti', (d', w')) \<and>
    ti_wf ti' \<and> gw_inv w' \<and> disc_inv d' \<and> m_localState d' = m_localState d \<and>
    (if isTermination info
     then records (m_remoteState d') = filter (\<lambda>r. gatewayHash (dr_info r) \<noteq> gatewayHash info) (records (m_remoteState d))
     else records (m_remoteState d') = storeRecord info dev (records (m_remoteState d)) \<and> cache_coherent E ti' d')"
proof (cases "isTermination info")
  case True
  have rec: "distinct (record_hashes (records (m_remoteState d)))" using assms(4) by (simp add: disc_inv_def wf_records_def)
  obtain d' where d': "receiveRemoteDiscoveryInfo (gw_env E G S send) bytes sz dev (ti, (d, w)) = Inr (ti, (d', w))"
    "records (m_remoteState d') = filter (\<lambda>r. gatewayHash (dr_info r) \<noteq> gatewayHash info) (records (m_remoteState d))"
    "d' = set_records (records (m_remoteState d')) d"
    using receive_termination [of "gw_env E G S send" bytes sz info n dev ti d w] assms(5) True erase_record [OF rec] by auto
  have "m_localState d' = m_localState d" "deviceIndicesCache (m_remoteState d') = deviceIndicesCache (m_remoteState d)"
    by (subst d'(3), simp add: set_records_def)+
  moreover have "disc_inv d'"
    using assms(4) d'(2) calculation(2) by (auto simp: disc_inv_def wf_records_def distinct_map_filter
        intro: order.trans [OF length_filter_le])
  ultimately show ?thesis using d' True assms(1,3) by auto
next
  case False
  have wf: "wf_local (iox (gw_env E G S send)) d" and des: "deserializeInfo (iox (gw_env E G S send)) bytes sz = Inr (info, n)"
    using assms(2,5) by simp_all
  obtain ti' d' w' where r: "receiveRemoteDiscoveryInfo (gw_env E G S send) bytes sz dev (ti, (d, w)) = Inr (ti', (d', w'))"
    "ti_wf ti'" "gw_inv w'" "records (m_remoteState d') = storeRecord info dev (records (m_remoteState d))"
    "deviceIndicesCache (m_remoteState d') = vm_empty" "m_localState d' = m_localState d"
    using gw.receive_ok [OF assms(1) wf assms(3) des False, of dev] by blast
  have "disc_inv d'" "cache_coherent E ti' d'"
    using assms(4) r(4,5) storeRecord_wf by (simp_all add: disc_inv_def vm.invar_empty cache_coherent_def vm.lookup_empty)
  then show ?thesis using r False by auto
qed

theorem discovery_message_absorbed_witness:
  "\<exists>bytes ti' d' w'. receiveRemoteDiscoveryInfo sample_gw_env bytes (length bytes) \<lparr>di_type = UDP, di_device = 0\<rparr>
      (sample_registry, (new_discovery 1 NONE, sample_world)) = Inr (ti', (d', w')) \<and>
    records (m_remoteState d') = [\<lparr>dr_info = sample_info, dr_deviceIndices = [\<lparr>di_type = UDP, di_device = 0\<rparr>]\<rparr>]"
proof -
  let ?d = "new_discovery 1 NONE" and ?i = "\<lparr>di_type = UDP, di_device = 0\<rparr>"
  have wf: "wf_info sample_env sample_info"
    by (simp add: wf_info_def wf_service_def wf_id_def sample_env_def sample_info_def MAX_TOPICS_def)
  obtain bytes where ser: "serializeInfo sample_env sample_info = Inr bytes" using serializeInfo_ok [OF wf] by blast
  have bytes: "deserializeInfo sample_env bytes (length bytes) = Inr (sample_info, length bytes)"
    using deserialize_serialize_info [OF sample_env_assigns wf ser, of "length bytes" "[]"] by simp
  have local: "wf_local sample_env ?d" and inv: "disc_inv ?d"
    using new_discovery_inv by (auto simp: wf_local_def new_discovery_def)
  obtain ti' d' w' where r: "receiveRemoteDiscoveryInfo sample_gw_env bytes (length bytes) ?i (sample_registry, (?d, sample_world)) = Inr (ti', (d', w'))"
    "records (m_remoteState d') = storeRecord sample_info ?i (records (m_remoteState ?d))"
    using discovery_message_absorbed [OF sample_registry_wf local sample_world_inv inv bytes, of pool_env numbered_subscribers ideal_send ?i]
    by (auto simp: sample_info_def)
  then show ?thesis
    using storeRecord_new [of sample_info "[]" ?i]
    by (intro exI [of _ bytes] exI [of _ ti'] exI [of _ d'] exI [of _ w']) (simp add: new_discovery_def MAX_DEVICE_COUNT_def)
qed

text \<open>
  Reading the port introspection always returns: the local state becomes exactly what the sample
  says, with the gateway's own ports and those of RouDi left out and at most \<^verbatim>\<open>MAX_TOPICS\<close> of
  each kind, the invariants are kept and the remote records are untouched. When no sample could be
  taken, the local state becomes empty.
\<close>

theorem port_sample_read:
  assumes "ti_wf ti" "gw_inv w" "new = (case sample of None \<Rightarrow> empty_local | Some s \<Rightarrow> readSample s)"
    and "\<forall>s \<in> set (ls_userSubscribers new). wf_service E s"
  shows "\<exists>ti' d' w'. readPortSubscriber (gw_env E G S send) sample (ti, (d, w)) = Inr (ti', (d', w')) \<and> ti_wf ti' \<and> gw_inv w' \<and>
    m_localState d' = new \<and> records (m_remoteState d') = records (m_remoteState d) \<and>
    (\<forall>s. sample = Some s \<longrightarrow> ls_userSubscribers new = take MAX_TOPICS (map m_service (filter is_user_port (m_subscriberList s))) \<and>
      userPublisherPorts new = take MAX_TOPICS (map m_portID (filter is_user_port (m_publisherList s))))"
proof -
  have wf: "\<forall>s \<in> set (ls_userSubscribers new). wf_service (iox (gw_env E G S send)) s" using assms(4) by simp
  obtain ti' d' w' where "readPortSubscriber (gw_env E G S send) sample (ti, (d, w)) = Inr (ti', (d', w'))" "ti_wf ti'" "gw_inv w'"
    "m_localState d' = new" "records (m_remoteState d') = records (m_remoteState d)"
    using gw.read_ok [OF assms(1,2,3) wf, of d] by blast
  then show ?thesis using assms(3) by (auto simp: readSample_def push_all_take)
qed

definition sample_ports :: port_sample where
  "sample_ports = \<lparr>m_publisherList = [\<lparr>m_node = IOX_GW_NODE_NAME, m_service = sample_service, m_portID = 1\<rparr>],
     m_subscriberList = [\<lparr>m_node = [97], m_service = sample_service, m_portID = 2\<rparr>]\<rparr>"

theorem port_sample_read_witness:
  "\<exists>ti' d' w'. readPortSubscriber sample_gw_env (Some sample_ports) (sample_registry, (new_discovery 1 NONE, sample_world))
      = Inr (ti', (d', w')) \<and> ls_userSubscribers (m_localState d') = [sample_service] \<and> userPublisherPorts (m_localState d') = []"
proof -
  have ports: "ls_userSubscribers (readSample sample_ports) = [sample_service]" "userPublisherPorts (readSample sample_ports) = []"
    by (simp_all add: readSample_def sample_ports_def is_user_port_def sample_service_def IOX_GW_NODE_NAME_def RouDi_ID_def
        bytes_of_def push_all_take MAX_TOPICS_def)
  have "\<forall>s \<in> set (ls_userSubscribers (readSample sample_ports)). wf_service sample_env s"
    by (simp add: ports wf_service_def wf_id_def sample_service_def sample_env_def)
  from port_sample_read [OF sample_registry_wf sample_world_inv _ this, where sample = "Some sample_ports"
      and d = "new_discovery 1 NONE" and G = pool_env and S = numbered_subscribers and send = ideal_send]
  show ?thesis using ports by auto
qed

text \<open>
  C16. The channels follow the discovery state: the callback that the manager calls with the needed
  services leaves both gateways with a channel for each of these services and no other (the class
  hash being injective on the services involved and the endpoint constructors keeping the service),
  with all invariants kept; of the manager only the list of gateway publishers changes.
\<close>

theorem channels_follow_discovery:
  assumes "publisher_factory G" "subscriber_factory S" "gw_inv w"
    and "ep_inv E pub_service (gw_publishers w)" "ep_inv E sub_service (gw_subscribers w)"
    and "inj_on (getClassHash E) (set (updateNeededChannels d) \<union> endpoint_services pub_service (gw_publishers w)
       \<union> endpoint_services sub_service (gw_subscribers w))"
  shows "\<exists>uids w'. gw_updateCallback E G S (updateNeededChannels d) (d, w) = Inr (d\<lparr>m_gatewayPublisherUids := uids\<rparr>, w') \<and> gw_inv w' \<and>
    ep_inv E pub_service (gw_publishers w') \<and> endpoint_services pub_service (gw_publishers w') = set (updateNeededChannels d) \<and>
    ep_inv E sub_service (gw_subscribers w') \<and> endpoint_services sub_service (gw_subscribers w') = set (updateNeededChannels d)"
proof -
  let ?ss = "updateNeededChannels d" and ?x = "(gw_t2i w)\<lparr>t2i_discovery := d\<rparr>"
  have ss: "distinct ?ss" "length ?ss \<le> MAX_TOPICS"
    by (simp_all add: updateNeededChannels_eq pushUnique_distinct pushUnique_bounded)
  have inj: "inj_on (getClassHash E) (set ?ss \<union> endpoint_services pub_service (gw_publishers w))"
    "inj_on (getClassHash E) (set ?ss \<union> endpoint_services sub_service (gw_subscribers w))"
    using assms(6) by (auto intro: inj_on_subset)
  have x: "t2i_inv ?x" "completions_come (gw_i2t w)" using assms(3) receiver_invD(1) [of ?x] by (simp_all add: gw_inv_def i2t_keeps_def)
  obtain m1 x1 where 1: "t2i_updateChannels E G ?ss (gw_publishers w, ?x) = Inr (m1, x1)"
    "ep_inv E pub_service m1" "endpoint_services pub_service m1 = set ?ss"
    using publisher_factory.t2i_channels [OF assms(1) x(1) assms(4) ss inj(1)] by blast
  obtain m2 x2 where 2: "i2t_updateChannels E S ?ss (gw_subscribers w, gw_i2t w) = Inr (m2, x2)"
    "ep_inv E sub_service m2" "endpoint_services sub_service m2 = set ?ss"
    using subscriber_factory.i2t_channels [OF assms(2) x(2) assms(5) ss inj(2)] by blast
  obtain uids w' where "gw_updateCallback E G S ?ss (d, w) = Inr (d\<lparr>m_gatewayPublisherUids := uids\<rparr>, w')" "gw_inv w'"
    using gw_updateCallback_ok [OF assms(3)] by blast
  moreover from this(1) 1(1) 2(1) have "gw_publishers w' = m1" "gw_subscribers w' = m2"
    by (auto simp: gw_updateCallback_def)
  ultimately show ?thesis using 1 2 by blast
qed

lemma ep_inv_empty: "ep_inv E gsd vm_empty" "ran (vm_lookup vm_empty) = {}"
  by (simp_all add: ep_inv_def vm.invar_empty vm.lookup_empty) (simp add: ran_def vm.lookup_empty)

theorem channels_follow_discovery_witness:
  "\<exists>uids w'. gw_updateCallback sample_env pool_env numbered_subscribers (updateNeededChannels sample_discovery) (sample_discovery, sample_world)
      = Inr (sample_discovery\<lparr>m_gatewayPublisherUids := uids\<rparr>, w') \<and>
    endpoint_services pub_service (gw_publishers w') = {sample_service}"
proof -
  have needed: "updateNeededChannels sample_discovery = [sample_service]"
    by (simp add: updateNeededChannels_def sample_discovery_def sample_record_def sample_info_def sample_service_def
        push_back_def MAX_TOPICS_def)
  have fields: "gw_publishers sample_world = vm_empty" "gw_subscribers sample_world = vm_empty" by (simp_all add: sample_world_def)
  show ?thesis
    using channels_follow_discovery [OF pool.publisher_factory_axioms numbered.subscriber_factory_axioms sample_world_inv,
        of sample_env sample_discovery] by (auto simp: needed fields ep_inv_empty)
qed

end
