(* ===== verification/Introspection.thy ===== *)
theory Introspection
  imports GatewayApp
begin

text \<open>
  Gateway introspection: the handler of the discovery manager's waitset thread, which publishes what the
  gateway has registered after each local discovery event (\<^verbatim>\<open>DiscoveryManager::waitsetLoop\<close>), and the functions
  that applications ask and wait for a registration with (\<^verbatim>\<open>source/p3com/introspection/gw_introspection.cpp\<close>).

  The functions read an iceoryx subscriber and a waitset, which answer as the rest of the system
  goes on; a record lists the answers in the order in which they are given. Loops that
  poll take answers until one ends them, and wait forever if none does.
\<close>

section \<open>The publishing side\<close>

text \<open>One notification of the waitset; \<open>loaned\<close> says whether a sample could be loaned.\<close>

definition discoveryNotification ::
  "'w disc_env \<Rightarrow> bool \<Rightarrow> port_sample option \<Rightarrow> bool \<Rightarrow> transport_info \<times> (discovery \<times> 'w)
     \<Rightarrow> ((transport_info \<times> (discovery \<times> 'w)) \<times> gw_registered_data option) result" where
  "discoveryNotification D fromPortSubscriber sample loaned x =
     bindR (expects fromPortSubscriber) (\<lambda>_.
     bindR (readPortSubscriber D sample x) (\<lambda>(ti, (d, w)).
     Inr ((ti, (d, w)), if loaned then Some (gwIntrospectionSample d) else None)))"

text \<open>
  \<^verbatim>\<open>DiscoveryManager::waitsetLoop\<close>, each turn with the terminate flag it reads and the notifications of its \<^verbatim>\<open>timedWait\<close>;
  the samples that are published are collected in order.
\<close>

type_synonym disc_notice = "bool \<times> port_sample option \<times> bool"

definition discoveryNotice ::
  "'w disc_env \<Rightarrow> disc_notice \<Rightarrow> (transport_info \<times> (discovery \<times> 'w)) \<times> gw_registered_data list
     \<Rightarrow> ((transport_info \<times> (discovery \<times> 'w)) \<times> gw_registered_data list) result" where
  "discoveryNotice D = (\<lambda>(fromPortSubscriber, sample, loaned) (x, published).
     bindR (discoveryNotification D fromPortSubscriber sample loaned x) (\<lambda>(x', out).
     Inr (x', published @ (case out of None \<Rightarrow> [] | Some data \<Rightarrow> [data]))))"

fun disc_waitsetLoop ::
  "'w disc_env \<Rightarrow> (bool \<times> disc_notice list) list \<Rightarrow> (transport_info \<times> (discovery \<times> 'w)) \<times> gw_registered_data list
     \<Rightarrow> ((transport_info \<times> (discovery \<times> 'w)) \<times> gw_registered_data list) result" where
  "disc_waitsetLoop D [] y = Inl Waits_Forever"
| "disc_waitsetLoop D ((terminateFlag, notices) # turns) y =
     (if terminateFlag then Inr y else bindR (foldR (discoveryNotice D) notices y) (disc_waitsetLoop D turns))"

lemma disc_waitsetLoop_eq:
  "disc_waitsetLoop D (map (Pair False) nss @ (True, ns) # turns) y = foldR (discoveryNotice D) (concat nss) y"
  by (induction nss arbitrary: y) (simp_all add: foldR_append cong: bindR_cong)

section \<open>The asking side\<close>

datatype subscribe_state = NOT_SUBSCRIBED | SUBSCRIBE_REQUESTED | SUBSCRIBED | UNSUBSCRIBE_REQUESTED | WAIT_FOR_OFFER

text \<open>
  The answers: the subscription states that the two polling loops read, what the first \<^verbatim>\<open>take\<close> gives (and
  \<^verbatim>\<open>hasData\<close> announces), whether the waitset could be attached, the time, and for each \<^verbatim>\<open>timedWait\<close> its
  notifications, each with its origin and what \<^verbatim>\<open>take\<close> then gives, and the time after it.
\<close>

record intro_answers =
  subscribing :: "subscribe_state list"
  firstTake :: "gw_registered_data option"
  waitsetAttached :: bool
  startTime :: time_point
  waits :: "((bool \<times> gw_registered_data option) list \<times> time_point) list"
  unsubscribing :: "subscribe_state list"

fun pollUntil :: "subscribe_state \<Rightarrow> subscribe_state list \<Rightarrow> unit result" where
  "pollUntil goal [] = Inl Waits_Forever"
| "pollUntil goal (s # ss) = (if s = goal then Inr () else pollUntil goal ss)"

text \<open>\<^verbatim>\<open>and_then\<close> runs its argument on a sample that could be taken.\<close>

fun takeLambda :: "(gw_registered_data \<Rightarrow> bool) \<Rightarrow> gw_registered_data option \<Rightarrow> bool \<Rightarrow> bool" where
  "takeLambda test None hasRegistered = hasRegistered"
| "takeLambda test (Some data) hasRegistered = test data"

definition askOnce :: "(gw_registered_data \<Rightarrow> bool) \<Rightarrow> intro_answers \<Rightarrow> bool result" where
  "askOnce test A =
     bindR (pollUntil SUBSCRIBED (subscribing A)) (\<lambda>_.
     let hasRegistered = takeLambda test (firstTake A) False
     in bindR (pollUntil NOT_SUBSCRIBED (unsubscribing A)) (\<lambda>_. Inr hasRegistered))"

fun takeNotified :: "(gw_registered_data \<Rightarrow> bool) \<Rightarrow> (bool \<times> gw_registered_data option) list \<Rightarrow> bool \<Rightarrow> bool" where
  "takeNotified test [] hasRegistered = hasRegistered"
| "takeNotified test ((fromSub, sample) # ns) hasRegistered =
     (if fromSub
      then let r = takeLambda test sample hasRegistered in if r then r else takeNotified test ns r
      else takeNotified test ns hasRegistered)"

fun waitLoop ::
  "(gw_registered_data \<Rightarrow> bool) \<Rightarrow> time_point \<Rightarrow> time_point
     \<Rightarrow> ((bool \<times> gw_registered_data option) list \<times> time_point) list \<Rightarrow> bool \<Rightarrow> bool result" where
  "waitLoop test end_time now [] hasRegistered =
     (if \<not> hasRegistered \<and> now < end_time then Inl Waits_Forever else Inr hasRegistered)"
| "waitLoop test end_time now ((notifications, now') # ws) hasRegistered =
     (if \<not> hasRegistered \<and> now < end_time
      then if notifications = [] then Inr hasRegistered
           else waitLoop test end_time now' ws (takeNotified test notifications hasRegistered)
      else Inr hasRegistered)"

text \<open>
  \<open>timeoutNs\<close> is what \<^verbatim>\<open>timeout.toNanoseconds()\<close> returns, an unsigned 64-bit number, which
  \<^verbatim>\<open>std::chrono::nanoseconds\<close> takes as a signed one. If the waitset cannot be attached the
  function returns without waiting for the unsubscription.
\<close>

definition askAndWait :: "(gw_registered_data \<Rightarrow> bool) \<Rightarrow> u64 \<Rightarrow> intro_answers \<Rightarrow> bool result" where
  "askAndWait test timeoutNs A =
     bindR (pollUntil SUBSCRIBED (subscribing A)) (\<lambda>_.
     let hasRegistered = takeLambda test (firstTake A) False
     in if \<not> hasRegistered \<and> \<not> waitsetAttached A then Inr False
        else bindR (if \<not> hasRegistered
                    then waitLoop test (startTime A + sint timeoutNs) (startTime A) (waits A) hasRegistered
                    else Inr hasRegistered) (\<lambda>r.
             bindR (pollUntil NOT_SUBSCRIBED (unsubscribing A)) (\<lambda>_. Inr r)))"

definition isGwRunning :: "service_description list \<Rightarrow> bool" where
  "isGwRunning found = fold (\<lambda>_ _. True) found False"

definition hasGwRegistered :: "u64 \<Rightarrow> intro_answers \<Rightarrow> bool result" where
  "hasGwRegistered publisherUid = askOnce (\<lambda>data. containsElement (publisherUids data) publisherUid)"

definition waitForGwRegistration :: "u64 \<Rightarrow> u64 \<Rightarrow> intro_answers \<Rightarrow> bool result" where
  "waitForGwRegistration publisherUid = askAndWait (\<lambda>data. containsElement (publisherUids data) publisherUid)"

definition hasServiceRegistered :: "service_description \<Rightarrow> intro_answers \<Rightarrow> bool result" where
  "hasServiceRegistered service = askOnce (\<lambda>data. containsElement (subscriberServices data) service)"

definition waitForServiceRegistration :: "service_description \<Rightarrow> u64 \<Rightarrow> intro_answers \<Rightarrow> bool result" where
  "waitForServiceRegistration service = askAndWait (\<lambda>data. containsElement (subscriberServices data) service)"

section \<open>Waiting\<close>

text \<open>The samples that the subscriber gives up to the deadline.\<close>

fun seen :: "time_point \<Rightarrow> time_point \<Rightarrow> ((bool \<times> gw_registered_data option) list \<times> time_point) list \<Rightarrow> gw_registered_data set" where
  "seen end_time now [] = {}"
| "seen end_time now ((ns, now') # ws) =
     (if now < end_time \<and> ns \<noteq> [] then {d. (True, Some d) \<in> set ns} \<union> seen end_time now' ws else {})"

text \<open>The clock passes the deadline, or a wait times out.\<close>

fun waits_end :: "time_point \<Rightarrow> time_point \<Rightarrow> ((bool \<times> gw_registered_data option) list \<times> time_point) list \<Rightarrow> bool" where
  "waits_end end_time now [] \<longleftrightarrow> end_time \<le> now"
| "waits_end end_time now ((ns, now') # ws) \<longleftrightarrow> end_time \<le> now \<or> ns = [] \<or> waits_end end_time now' ws"

lemma pollUntil_ok: "pollUntil goal ss = (if goal \<in> set ss then Inr () else Inl Waits_Forever)"
  by (induction ss) auto

lemma takeNotified_ex:
  "takeNotified test ns False \<longleftrightarrow> (\<exists>d. (True, Some d) \<in> set ns \<and> test d)"
proof (induction ns)
  case (Cons n ns)
  obtain fromSub sample where n: "n = (fromSub, sample)" by fastforce
  then show ?case using Cons.IH by (cases fromSub; cases sample) auto
qed simp

lemma waitLoop_True: "waitLoop test end_time now ws True = Inr True"
  by (cases ws) auto

lemma waitLoop_seen:
  assumes "waits_end end_time now ws"
  shows "waitLoop test end_time now ws False = Inr (\<exists>d \<in> seen end_time now ws. test d)"
  using assms
proof (induction ws arbitrary: now)
  case (Cons w ws)
  obtain ns now' where w: "w = (ns, now')" by fastforce
  show ?case
  proof (cases "now < end_time \<and> ns \<noteq> []")
    case True
    then have "waits_end end_time now' ws" using Cons.prems w by auto
    then have "waitLoop test end_time now' ws (takeNotified test ns False)
        = Inr (takeNotified test ns False \<or> (\<exists>d \<in> seen end_time now' ws. test d))"
      using Cons.IH by (cases "takeNotified test ns False") (simp_all add: waitLoop_True)
    then show ?thesis using True w by (auto simp: takeNotified_ex)
  next
    case False
    then show ?thesis using w by auto
  qed
qed simp

lemma askAndWait_seen:
  assumes "SUBSCRIBED \<in> set (subscribing A)" "NOT_SUBSCRIBED \<in> set (unsubscribing A)" "waitsetAttached A"
    and "waits_end (startTime A + sint timeoutNs) (startTime A) (waits A)"
  shows "askAndWait test timeoutNs A
    = Inr (\<exists>d \<in> set_option (firstTake A) \<union> seen (startTime A + sint timeoutNs) (startTime A) (waits A). test d)"
  using assms waitLoop_seen [OF assms(4), of test] by (cases "firstTake A") (auto simp: askAndWait_def pollUntil_ok)


lemma sint_negative:
  assumes "2 ^ 63 \<le> unat (w :: u64)"
  shows "sint w < 0"
proof -
  have "(2 ^ 63 :: int) \<le> uint w" using assms zle_int [of "2 ^ 63" "unat w"] by simp
  moreover have "uint w = sint w" if "0 \<le> sint w"
    using uint_sint [of w] sint_lt [of w] that by (simp add: take_bit_int_eq_self)
  moreover have "sint w < 2 ^ 63" using sint_lt [of w] by simp
  ultimately show ?thesis by linarith
qed

text \<open>
  A timeout of \<open>2 ^ 63\<close> nanoseconds or more is no timeout at all: taken as a signed number it is
  negative, so the deadline lies before the start, and unless the first sample has the registration the
  functions return false at once, whatever the gateway publishes later. The default timeout,
  the longest duration there is, is such a one.
\<close>

theorem long_timeout_returns_at_once:
  assumes "2 ^ 63 \<le> unat timeoutNs" "SUBSCRIBED \<in> set (subscribing A)" "NOT_SUBSCRIBED \<in> set (unsubscribing A)" "waitsetAttached A"
    and "\<forall>d. firstTake A = Some d \<longrightarrow> uid \<notin> set (publisherUids d)"
  shows "waitForGwRegistration uid timeoutNs (A\<lparr>waits := ws\<rparr>) = Inr False"
proof -
  have "waits_end (startTime A + sint timeoutNs) (startTime A) ws" using sint_negative [OF assms(1)] by (cases ws) auto
  moreover have "seen (startTime A + sint timeoutNs) (startTime A) ws = {}" using sint_negative [OF assms(1)] by (cases ws) auto
  ultimately show ?thesis
    using askAndWait_seen [of "A\<lparr>waits := ws\<rparr>" timeoutNs] assms(2-5)
    by (cases "firstTake A") (simp_all add: waitForGwRegistration_def)
qed

definition patient_answers :: intro_answers where
  "patient_answers = \<lparr>subscribing = [SUBSCRIBE_REQUESTED, SUBSCRIBED], firstTake = None, waitsetAttached = True, startTime = 10,
     waits = [([(True, Some \<lparr>publisherUids = [4], subscriberServices = []\<rparr>)], 15),
              ([(True, Some \<lparr>publisherUids = [4, 7], subscriberServices = []\<rparr>)], 40)], unsubscribing = [NOT_SUBSCRIBED]\<rparr>"


theorem long_timeout_returns_at_once_witness:
  "waitForGwRegistration 7 0xFFFFFFFFFFFFFFFF patient_answers = Inr False"
proof -
  have "patient_answers = patient_answers\<lparr>waits := waits patient_answers\<rparr>" by simp
  then show ?thesis
    using long_timeout_returns_at_once [of "0xFFFFFFFFFFFFFFFF" patient_answers 7 "waits patient_answers"] by (simp add: patient_answers_def)
qed

section \<open>What the gateway says about itself\<close>

subsection \<open>The publishing loop\<close>

definition notice_ok :: "iox_env \<Rightarrow> disc_notice \<Rightarrow> bool" where
  "notice_ok E = (\<lambda>(fromPortSubscriber, sample, loaned). fromPortSubscriber \<and> loaned \<and>
     list_all (wf_service E) (ls_userSubscribers (case sample of None \<Rightarrow> empty_local | Some p \<Rightarrow> readSample p)))"

text \<open>The loop returns once the flag is set, and the sample published last says what the manager knows.\<close>

lemma discovery_loop_current:
  assumes "list_all (notice_ok E) (concat nss)" "ti_wf ti" "gw_inv w" "published = [] \<or> last published = gwIntrospectionSample d"
  shows "\<exists>ti' d' w' published'. disc_waitsetLoop (gw_env E G S send) (map (Pair False) nss @ (True, ns) # turns) ((ti, (d, w)), published)
      = Inr ((ti', (d', w')), published') \<and> ti_wf ti' \<and> gw_inv w' \<and> length published' = length published + length (concat nss) \<and>
    (published' = [] \<or> last published' = gwIntrospectionSample d')"
  unfolding disc_waitsetLoop_eq using assms
proof (induction "concat nss" arbitrary: nss ti d w published)
  case Nil
  then show ?case by (simp flip: Nil.hyps)
next
  case (Cons n rest)
  obtain sample where n: "n = (True, sample, True)"
    and ok: "\<forall>s \<in> set (ls_userSubscribers (case sample of None \<Rightarrow> empty_local | Some p \<Rightarrow> readSample p)). wf_service E s"
    using Cons.prems(1) Cons.hyps(2) [symmetric] by (cases n) (auto simp: notice_ok_def list_all_iff)
  from ok have wf: "\<forall>s \<in> set (ls_userSubscribers (case sample of None \<Rightarrow> empty_local | Some p \<Rightarrow> readSample p)).
      wf_service (iox (gw_env E G S send)) s" by simp
  obtain ti1 d1 w1 where r: "readPortSubscriber (gw_env E G S send) sample (ti, (d, w)) = Inr (ti1, (d1, w1))" "ti_wf ti1" "gw_inv w1"
    using gw.read_ok [OF Cons.prems(2,3) refl wf, of d] by blast
  have "discoveryNotice (gw_env E G S send) n ((ti, (d, w)), published) = Inr ((ti1, (d1, w1)), published @ [gwIntrospectionSample d1])"
    using r(1) by (simp add: discoveryNotice_def discoveryNotification_def n expects_def)
  then show ?case
    using Cons.hyps(1) [of "[rest]" ti1 w1 "published @ [gwIntrospectionSample d1]" d1] Cons.prems(1) r(2,3)
    by (auto simp: Cons.hyps(2) [symmetric])
qed



end
