(* ===== verification/TcpSessions.thy ===== *)
theory TcpSessions
  imports TcpTransport
begin

text \<open>
  The life of the sessions of the TCP layer: the invariant that makes the asynchronous handlers
  safe (every session has at most one operation outstanding, so none is outstanding when the session
  is destroyed), one session per remote address, the limit on connection attempts, and what goes
  wrong when the vector of sessions is full or a device index outlives a session.
\<close>

section \<open>The invariant\<close>

definition remoteAddress :: "tcp_session \<Rightarrow> u32" where
  "remoteAddress s = address (snd (remoteEndpoint s))"

text \<open>What the invariant speaks about; asking a session for its remote endpoint does not change it.\<close>

definition session_key :: "tcp_session \<Rightarrow> nat \<times> u32 \<times> session_role \<times> async_op list" where
  "session_key s = (ts_ptr s, remoteAddress s, ts_role s, ts_ops s)"

definition session_ok :: "nat \<Rightarrow> tcp_session \<Rightarrow> bool" where
  "session_ok n s \<longleftrightarrow> ts_ptr s < n \<and> length (ts_ops s) \<le> 1 \<and>
     (Op_Connect \<in> set (ts_ops s) \<or> Op_Retry \<in> set (ts_ops s) \<longrightarrow> ts_role s = Client_Session)"

definition tcp_inv :: "('n, 'c) tcp_state \<Rightarrow> bool" where
  "tcp_inv st \<longleftrightarrow> distinct (map ts_ptr (m_transportSessions st)) \<and> distinct (map remoteAddress (m_transportSessions st)) \<and>
     length (m_transportSessions st) \<le> MAX_DEVICE_COUNT \<and> (\<forall>s \<in> set (m_transportSessions st). session_ok (ts_next st) s) \<and>
     ts_dangling st = [] \<and>
     (\<forall>s. m_serverListeningSession st = Some s \<longrightarrow>
        ts_role s = Server_Session \<and> ts_ops s = [] \<and> ts_ptr s < ts_next st \<and> ts_ptr s \<notin> ts_ptr ` set (m_transportSessions st))"

lemma remoteEndpoint_simps [simp]:
  "ts_ptr (fst (remoteEndpoint s)) = ts_ptr s" "ts_ops (fst (remoteEndpoint s)) = ts_ops s"
  "ts_role (fst (remoteEndpoint s)) = ts_role s" "m_retriesLeft (fst (remoteEndpoint s)) = m_retriesLeft s"
  "snd (remoteEndpoint (fst (remoteEndpoint s))) = snd (remoteEndpoint s)"
  by (auto simp: remoteEndpoint_def serverRemoteEndpoint_def split: session_role.splits)

lemma session_key_remoteEndpoint [simp]: "session_key (fst (remoteEndpoint s)) = session_key s"
  by (simp add: session_key_def remoteAddress_def)

lemma findSessionIn_spec:
  "findSessionIn addr ss = (ss', n) \<Longrightarrow>
     map session_key ss' = map session_key ss \<and> n = find_if (\<lambda>s. remoteAddress s = addr) ss"
proof (induction ss arbitrary: ss' n)
  case (Cons s ss)
  obtain s' e where s: "remoteEndpoint s = (s', e)" by fastforce
  then have "session_key s' = session_key s" "address e = remoteAddress s"
    using session_key_remoteEndpoint [of s] by (simp_all add: remoteAddress_def)
  moreover obtain ss1 n1 where "findSessionIn addr ss = (ss1, n1)" by fastforce
  ultimately show ?case using Cons s by (auto split: if_splits)
qed simp

lemma findSession_spec:
  assumes "findSession e st = (st', n)"
  shows "n = find_if (\<lambda>s. remoteAddress s = address e) (m_transportSessions st)"
    and "map session_key (m_transportSessions st') = map session_key (m_transportSessions st)"
    and "\<exists>ss. st' = st\<lparr>m_transportSessions := ss\<rparr>"
  using assms findSessionIn_spec [of "address e" "m_transportSessions st"]
  by (auto simp: findSession_def split: prod.splits)

lemma keys_same:
  assumes "map session_key ss = map session_key ss'"
  shows "map ts_ptr ss = map ts_ptr ss'" "map remoteAddress ss = map remoteAddress ss'" "length ss = length ss'"
    and "(\<forall>s \<in> set ss. session_ok n s) \<longleftrightarrow> (\<forall>s \<in> set ss'. session_ok n s)"
proof -
  show "map ts_ptr ss = map ts_ptr ss'" "map remoteAddress ss = map remoteAddress ss'"
    using arg_cong [OF assms, of "map fst"] arg_cong [OF assms, of "map (fst \<circ> snd)"] by (simp_all add: session_key_def comp_def)
  show "length ss = length ss'" by (rule map_eq_imp_length_eq [OF assms])
  let ?P = "\<lambda>(p, a, r, ops). p < n \<and> length ops \<le> 1 \<and> (Op_Connect \<in> set ops \<or> Op_Retry \<in> set ops \<longrightarrow> r = Client_Session)"
  have "(\<forall>s \<in> set xs. session_ok n s) \<longleftrightarrow> list_all ?P (map session_key xs)" for xs
    by (simp add: session_ok_def session_key_def list_all_iff)
  then show "(\<forall>s \<in> set ss. session_ok n s) \<longleftrightarrow> (\<forall>s \<in> set ss'. session_ok n s)" using assms by simp
qed

lemma tcp_inv_cong:
  assumes "map session_key ss = map session_key (m_transportSessions st)"
  shows "tcp_inv (st\<lparr>m_transportSessions := ss\<rparr>) = tcp_inv st"
proof -
  have "ts_ptr ` set ss = ts_ptr ` set (m_transportSessions st)" using keys_same(1) [OF assms] by (metis list.set_map)
  then show ?thesis using keys_same [OF assms] by (simp add: tcp_inv_def)
qed

lemma findSession_inv:
  assumes "findSession e st = (st', n)"
  shows "tcp_inv st' = tcp_inv st"
proof -
  obtain ss where "st' = st\<lparr>m_transportSessions := ss\<rparr>" using findSession_spec(3) [OF assms] by blast
  then show ?thesis using findSession_spec(2) [OF assms] tcp_inv_cong [of ss st] by simp
qed

lemma tcp_inv_session: "tcp_inv st \<Longrightarrow> s \<in> set (m_transportSessions st) \<Longrightarrow> session_ok (ts_next st) s"
  by (simp add: tcp_inv_def)

lemma tcp_inv_ptr:
  "tcp_inv st \<Longrightarrow> s \<in> set (m_transportSessions st) \<Longrightarrow> s' \<in> set (m_transportSessions st) \<Longrightarrow> ts_ptr s = ts_ptr s' \<Longrightarrow> s = s'"
  by (auto simp: tcp_inv_def distinct_map inj_on_def)

lemma find_ptr:
  assumes "tcp_inv st" "s \<in> set (m_transportSessions st)"
  shows "find (\<lambda>x. ts_ptr x = ts_ptr s) (m_transportSessions st) = Some s"
proof (cases "find (\<lambda>x. ts_ptr x = ts_ptr s) (m_transportSessions st)")
  case None
  then show ?thesis using assms(2) by (auto simp: find_None_iff)
next
  case (Some s')
  then have "s' \<in> set (m_transportSessions st)" "ts_ptr s' = ts_ptr s" by (auto simp: find_Some_iff)
  then show ?thesis using tcp_inv_ptr [OF assms(1)] assms(2) Some by blast
qed

section \<open>Updates of a session\<close>

lemma updateSession_simps [simp]:
  "ts_next (updateSession p f st) = ts_next st" "ts_dangling (updateSession p f st) = ts_dangling st"
  "m_serverListeningSession (updateSession p f st) = m_serverListeningSession st"
  "m_infoToReport (updateSession p f st) = m_infoToReport st" "m_broadcast (updateSession p f st) = m_broadcast st"
  "length (m_transportSessions (updateSession p f st)) = length (m_transportSessions st)"
  "(updateSession p f st)\<lparr>m_transportSessions := ss\<rparr> = st\<lparr>m_transportSessions := ss\<rparr>"
  by (simp_all add: updateSession_def)

lemma updateSession_mem:
  "s \<in> set (m_transportSessions (updateSession p f st)) \<longleftrightarrow>
     (\<exists>s0 \<in> set (m_transportSessions st). s = (if ts_ptr s0 = p then f s0 else s0))"
  unfolding updateSession_def by (simp add: image_iff del: if_image_distrib)

definition keeps_session :: "nat \<Rightarrow> (tcp_session \<Rightarrow> tcp_session) \<Rightarrow> tcp_session \<Rightarrow> bool" where
  "keeps_session n f s \<longleftrightarrow> ts_ptr (f s) = ts_ptr s \<and> remoteAddress (f s) = remoteAddress s \<and> session_ok n (f s)"

lemma updateSession_inv:
  assumes "tcp_inv st" "\<And>s. s \<in> set (m_transportSessions st) \<Longrightarrow> ts_ptr s = p \<Longrightarrow> keeps_session (ts_next st) f s"
  shows "tcp_inv (updateSession p f st)"
proof -
  let ?ss = "m_transportSessions st" and ?g = "\<lambda>s. if ts_ptr s = p then f s else s"
  have eq: "map ts_ptr (map ?g ?ss) = map ts_ptr ?ss" "map remoteAddress (map ?g ?ss) = map remoteAddress ?ss"
    using assms(2) by (auto simp: keeps_session_def)
  then have img: "ts_ptr ` set (map ?g ?ss) = ts_ptr ` set ?ss" by (metis list.set_map)
  have ok: "\<forall>s \<in> set (map ?g ?ss). session_ok (ts_next st) s"
    using assms(2) tcp_inv_session [OF assms(1)] by (auto simp: keeps_session_def)
  have st: "m_transportSessions (updateSession p f st) = map ?g ?ss" by (simp add: updateSession_def)
  show ?thesis
    using assms(1) ok unfolding tcp_inv_def st eq img updateSession_simps length_map by blast
qed

section \<open>Completing an operation\<close>

text \<open>Between the completion of its only operation and what the handler starts next, a session is idle.\<close>

definition idle :: "nat \<Rightarrow> ('n, 'c) tcp_state \<Rightarrow> bool" where
  "idle p st \<longleftrightarrow> (\<forall>s \<in> set (m_transportSessions st). ts_ptr s = p \<longrightarrow> ts_ops s = [])"

lemma remoteAddress_update [simp]:
  "remoteAddress (s\<lparr>ts_ops := ops\<rparr>) = remoteAddress s" "remoteAddress (s\<lparr>m_readBufferSize := n\<rparr>) = remoteAddress s"
  "remoteAddress (s\<lparr>m_retriesLeft := r\<rparr>) = remoteAddress s"
  by (simp_all add: remoteAddress_def remoteEndpoint_def serverRemoteEndpoint_def split: session_role.splits)

lemma remoteAddress_client: "ts_role s = Client_Session \<Longrightarrow> remoteAddress s = address (ts_remoteEndpoint s)"
  by (simp add: remoteAddress_def remoteEndpoint_def)

lemma remoteAddress_fst [simp]: "remoteAddress (fst (remoteEndpoint s)) = remoteAddress s"
  by (simp add: remoteAddress_def)

lemma session_only_op:
  assumes "session_ok n s" "oper \<in> set (ts_ops s)"
  shows "ts_ops s = [oper]"
  using assms by (cases "ts_ops s") (auto simp: session_ok_def)

lemma completes_live:
  assumes "tcp_inv st" "s \<in> set (m_transportSessions st)" "ts_ptr s = p" "oper \<in> set (ts_ops s)"
  defines "st1 \<equiv> updateSession p (\<lambda>s. s\<lparr>ts_ops := remove1 oper (ts_ops s)\<rparr>) st"
  shows "completes p oper handler st = handler s st1" "tcp_inv st1" "idle p st1"
    and "s\<lparr>ts_ops := []\<rparr> \<in> set (m_transportSessions st1)"
proof -
  have only: "x = s \<and> ts_ops x = [oper]" if "x \<in> set (m_transportSessions st)" "ts_ptr x = p" for x
    using tcp_inv_ptr [OF assms(1) that(1) assms(2)] that(2) assms(3,4) session_only_op [OF tcp_inv_session [OF assms(1,2)]] by simp
  show "completes p oper handler st = handler s st1"
    using find_ptr [OF assms(1,2)] assms(3) by (simp add: completes_def st1_def)
  show "tcp_inv st1" unfolding st1_def
    by (rule updateSession_inv [OF assms(1)])
      (use tcp_inv_session [OF assms(1)] only in \<open>force simp: keeps_session_def session_ok_def\<close>)
  show "idle p st1" unfolding idle_def st1_def
  proof (intro ballI impI)
    fix x assume "x \<in> set (m_transportSessions (updateSession p (\<lambda>s. s\<lparr>ts_ops := remove1 oper (ts_ops s)\<rparr>) st))" and p: "ts_ptr x = p"
    then obtain s0 where s0: "s0 \<in> set (m_transportSessions st)" "x = (if ts_ptr s0 = p then s0\<lparr>ts_ops := remove1 oper (ts_ops s0)\<rparr> else s0)"
      unfolding updateSession_mem by blast
    then show "ts_ops x = []" using only [OF s0(1)] p by (auto split: if_splits)
  qed
  show "s\<lparr>ts_ops := []\<rparr> \<in> set (m_transportSessions st1)"
    unfolding st1_def updateSession_mem using assms(2,3) only [OF assms(2,3)] by (intro bexI [of _ s]) auto
qed

text \<open>An idle session may start one operation, and may be closed.\<close>

lemma idle_update_inv:
  assumes "tcp_inv st" "idle p st"
    and "\<And>s. s \<in> set (m_transportSessions st) \<Longrightarrow> ts_ptr s = p \<Longrightarrow> ts_ptr (f s) = p \<and> remoteAddress (f s) = remoteAddress s \<and>
       ts_role (f s) = ts_role s \<and> length (ts_ops (f s)) \<le> 1 \<and>
       (Op_Connect \<in> set (ts_ops (f s)) \<or> Op_Retry \<in> set (ts_ops (f s)) \<longrightarrow> ts_role s = Client_Session)"
  shows "tcp_inv (updateSession p f st)"
  by (rule updateSession_inv [OF assms(1)])
    (use assms(3) tcp_inv_session [OF assms(1)] in \<open>auto simp: keeps_session_def session_ok_def\<close>)

lemma handleSessionClose_filter:
  assumes "distinct (map ts_ptr ss)" "find_if (\<lambda>s. ts_ptr s = p) ss \<noteq> length ss"
  shows "erase_at (find_if (\<lambda>s. ts_ptr s = p) ss) ss = filter (\<lambda>s. ts_ptr s \<noteq> p) ss"
  using assms
proof (induction ss)
  case (Cons s ss)
  from Cons.prems(1) have "\<forall>x \<in> set ss. ts_ptr x \<noteq> ts_ptr s" by (simp add: image_iff) metis
  then have "filter (\<lambda>x. ts_ptr x \<noteq> ts_ptr s) ss = ss" by (simp add: filter_id_conv)
  then show ?case using Cons by auto
qed simp

lemma handleSessionClose_idle:
  assumes "distinct (map ts_ptr (m_transportSessions st))" "idle p st"
  shows "handleSessionClose p st = st\<lparr>m_transportSessions := filter (\<lambda>s. ts_ptr s \<noteq> p) (m_transportSessions st)\<rparr>"
proof (cases "find_if (\<lambda>s. ts_ptr s = p) (m_transportSessions st) = length (m_transportSessions st)")
  case True
  then have "filter (\<lambda>s. ts_ptr s \<noteq> p) (m_transportSessions st) = m_transportSessions st"
    by (auto simp: find_if_end filter_id_conv)
  then show ?thesis using True by (simp add: handleSessionClose_def)
next
  case False
  let ?it = "find_if (\<lambda>s. ts_ptr s = p) (m_transportSessions st)"
  have "?it < length (m_transportSessions st)" using False find_if_le le_neq_implies_less by blast
  then have "ts_ops (m_transportSessions st ! ?it) = []"
    using find_if_nth [of "\<lambda>s. ts_ptr s = p"] assms(2) nth_mem unfolding idle_def by blast
  then show ?thesis
    using False handleSessionClose_filter [OF assms(1)] by (simp add: handleSessionClose_def destroy_def)
qed

lemma filter_inv: "tcp_inv st \<Longrightarrow> tcp_inv (st\<lparr>m_transportSessions := filter P (m_transportSessions st)\<rparr>)"
  by (auto simp: tcp_inv_def distinct_map_filter intro: le_trans [OF length_filter_le])

lemma sessionClosedHandler_idle:
  assumes "tcp_inv st" "idle p st"
  shows "sessionClosedHandler p st = st\<lparr>m_transportSessions := filter (\<lambda>s. ts_ptr s \<noteq> p) (m_transportSessions st)\<rparr>"
    and "tcp_inv (sessionClosedHandler p st)"
proof -
  let ?g = "\<lambda>s. if ts_ptr s = p then s\<lparr>ts_peer := None\<rparr> else s" and ?st = "updateSession p (\<lambda>s. s\<lparr>ts_peer := None\<rparr>) st"
  have ss: "m_transportSessions ?st = map ?g (m_transportSessions st)" by (simp add: updateSession_def)
  have ptr: "ts_ptr (?g s) = ts_ptr s" and ops: "ts_ops (?g s) = ts_ops s" for s by simp_all
  have "map ts_ptr (m_transportSessions ?st) = map ts_ptr (m_transportSessions st)" unfolding ss by simp
  then have d: "distinct (map ts_ptr (m_transportSessions ?st))" using assms(1) by (simp add: tcp_inv_def)
  have i: "idle p ?st" using assms(2) unfolding idle_def ss set_map ball_simps ptr ops .
  have f: "filter (\<lambda>s. ts_ptr s \<noteq> p) (map ?g xs) = filter (\<lambda>s. ts_ptr s \<noteq> p) xs" for xs by (induction xs) auto
  show eq: "sessionClosedHandler p st = st\<lparr>m_transportSessions := filter (\<lambda>s. ts_ptr s \<noteq> p) (m_transportSessions st)\<rparr>"
    unfolding sessionClosedHandler_def handleSessionClose_idle [OF d i] ss f by (simp add: updateSession_def)
  show "tcp_inv (sessionClosedHandler p st)" unfolding eq by (rule filter_inv [OF assms(1)])
qed

section \<open>Every handler keeps the invariant\<close>

lemma handleSessionOpen_ok:
  assumes "tcp_inv st" "s \<in> set (m_transportSessions st)" "ts_ptr s = p"
  shows "\<exists>st' out. handleSessionOpen p st = Inr (st', out) \<and> tcp_inv st' \<and>
    map session_key (m_transportSessions st') = map session_key (m_transportSessions st) \<and>
    m_broadcast st' = m_broadcast st \<and> ts_next st' = ts_next st \<and> m_serverListeningSession st' = m_serverListeningSession st"
proof -
  let ?st1 = "updateSession p (fst \<circ> remoteEndpoint) st" and ?e = "snd (remoteEndpoint s)"
  have key: "map session_key (m_transportSessions ?st1) = map session_key (m_transportSessions st)"
    by (simp add: updateSession_def)
  have st1: "?st1 = st\<lparr>m_transportSessions := m_transportSessions ?st1\<rparr>" by (simp add: updateSession_def)
  have inv1: "tcp_inv ?st1" using tcp_inv_cong [OF key] assms(1) st1 by metis
  obtain st2 n where f: "findSession ?e ?st1 = (st2, n)" by fastforce
  have "tcp_inv (st2\<lparr>m_infoToReport := is\<rparr>)" for "is"
    using findSession_inv [OF f] inv1 by (simp add: tcp_inv_def)
  moreover obtain ss where "st2 = ?st1\<lparr>m_transportSessions := ss\<rparr>" using findSession_spec(3) [OF f] by blast
  ultimately show ?thesis
    using find_ptr [OF assms(1,2)] assms(3) f inv1 key findSession_spec(2) [OF f]
    by (auto simp: handleSessionOpen_def)
qed

text \<open>
  A new session that has started: appended, with its one operation. The last session in the
  vector is the one that \<^verbatim>\<open>back\<close> refers to as long as there was room.
\<close>

lemma startSession_simps [simp]:
  "ts_ptr (startSession nd s) = ts_ptr s" "ts_role (startSession nd s) = ts_role s"
  "remoteAddress (startSession nd s) = remoteAddress s"
  by (simp_all add: startSession_def serverStart_def connectToEndpoint_def receiveTcpData_def split: session_role.splits)

lemma startSession_ok:
  "ts_ops s = [] \<Longrightarrow> ts_ptr s < n \<Longrightarrow> session_ok n (startSession nd s)"
  by (auto simp: session_ok_def startSession_def serverStart_def connectToEndpoint_def receiveTcpData_def split: session_role.splits)

lemma append_session_inv:
  assumes "tcp_inv st" "length (m_transportSessions st) < MAX_DEVICE_COUNT" "session_ok n s" "ts_next st \<le> n"
    and "ts_ptr s \<notin> ts_ptr ` set (m_transportSessions st)" "\<forall>x \<in> set (m_transportSessions st). remoteAddress x \<noteq> remoteAddress s"
    and "\<And>x. l = Some x \<Longrightarrow> ts_role x = Server_Session \<and> ts_ops x = [] \<and> ts_ptr x < n \<and> ts_ptr x \<notin> insert (ts_ptr s) (ts_ptr ` set (m_transportSessions st))"
  shows "tcp_inv (st\<lparr>m_transportSessions := m_transportSessions st @ [s], ts_next := n, m_serverListeningSession := l\<rparr>)"
proof -
  have "\<forall>x \<in> set (m_transportSessions st @ [s]). session_ok n x"
    using tcp_inv_session [OF assms(1)] assms(3,4) by (auto simp: session_ok_def intro: less_le_trans)
  moreover have "distinct (map remoteAddress (m_transportSessions st @ [s]))"
    using assms(1,6) unfolding tcp_inv_def by (simp add: image_iff) metis
  moreover have "distinct (map ts_ptr (m_transportSessions st @ [s]))" using assms(1,5) by (simp add: tcp_inv_def)
  moreover have "length (m_transportSessions st @ [s]) \<le> MAX_DEVICE_COUNT" "ts_dangling st = []"
    using assms(1,2) by (simp_all add: tcp_inv_def)
  ultimately show ?thesis unfolding tcp_inv_def using assms(7) by simp
qed

lemma findSession_end:
  assumes "findSession e st = (st', n)" "n = length (m_transportSessions st')"
  shows "\<forall>x \<in> set (m_transportSessions st'). remoteAddress x \<noteq> address e"
proof -
  note spec = findSession_spec [OF assms(1)]
  have "length (m_transportSessions st') = length (m_transportSessions st)" using spec(2) by (rule map_eq_imp_length_eq)
  then have "\<forall>x \<in> set (m_transportSessions st). remoteAddress x \<noteq> address e" using assms(2) spec(1) by (simp add: find_if_end)
  then show ?thesis using keys_same(2) [OF spec(2)] by (metis (no_types, lifting) in_set_conv_nth length_map nth_map)
qed

lemma udpDiscoveryCallback_ok:
  assumes "tcp_inv st" "length (m_transportSessions st) < MAX_DEVICE_COUNT" "length bytes \<le> maxPubSubInfoSerializationSize E"
  shows "\<exists>st' out. udpDiscoveryCallback E nd bytes i st = Inr (st', out) \<and> tcp_inv st'"
proof -
  obtain b e where e: "getEndpoint (di_device i) (m_broadcast st) = (b, e)" by fastforce
  let ?e = "\<lparr>address = address e, port = DATA_PORT\<rparr>"
  obtain st1 it where f: "findSession ?e (st\<lparr>m_broadcast := b\<rparr>) = (st1, it)" by fastforce
  have inv: "tcp_inv st1" using findSession_inv [OF f] assms(1) by (simp add: tcp_inv_def)
  have len: "length (m_transportSessions st1) < MAX_DEVICE_COUNT"
    using assms(2) map_eq_imp_length_eq [OF findSession_spec(2) [OF f]] by simp
  show ?thesis
  proof (cases "it = length (m_transportSessions st1)")
    case True
    let ?s = "startSession nd (newClientSession (ts_next st1) ?e)"
      and ?infos = "fst (push_back MAX_DEVICE_COUNT (m_infoToReport st1) (?e, bytes))"
    have "tcp_inv (st1\<lparr>m_transportSessions := m_transportSessions st1 @ [?s], ts_next := Suc (ts_next st1), m_serverListeningSession := m_serverListeningSession st1\<rparr>)"
    proof (rule append_session_inv [OF inv len])
      show "session_ok (Suc (ts_next st1)) ?s" by (rule startSession_ok) (simp_all add: newClientSession_def)
      show "ts_ptr ?s \<notin> ts_ptr ` set (m_transportSessions st1)"
        using tcp_inv_session [OF inv] by (force simp: newClientSession_def session_ok_def)
      show "\<forall>x \<in> set (m_transportSessions st1). remoteAddress x \<noteq> remoteAddress ?s"
        using findSession_end [OF f True] by (simp add: newClientSession_def remoteAddress_client)
    qed (use inv in \<open>auto simp: tcp_inv_def newClientSession_def\<close>)
    then have "tcp_inv (st1\<lparr>m_infoToReport := ?infos, ts_next := Suc (ts_next st1), m_transportSessions := m_transportSessions st1 @ [?s]\<rparr>)"
      by (simp add: tcp_inv_def)
    then show ?thesis
      using e f True assms(3) len by (simp add: udpDiscoveryCallback_def addClientSession_def startBack_def push_back_simps)
  next
    case False
    then show ?thesis using e f inv by (simp add: udpDiscoveryCallback_def)
  qed
qed

lemma startAccept_inv:
  assumes "tcp_inv st"
  shows "tcp_inv (startAccept st)"
proof (cases "m_serverListeningSession st")
  case None
  then show ?thesis using assms by (auto simp: startAccept_def tcp_inv_def newServerSession_def session_ok_def)
next
  case (Some s)
  then have "ts_ops s = []" using assms by (simp add: tcp_inv_def)
  then show ?thesis
    using assms Some by (auto simp: startAccept_def destroy_def tcp_inv_def newServerSession_def session_ok_def)
qed

lemma addServerSession_ok:
  assumes "tcp_inv st" "length (m_transportSessions st) < MAX_DEVICE_COUNT" "m_serverListeningSession st = Some s"
    and "\<forall>x \<in> set (m_transportSessions st). remoteAddress x \<noteq> remoteAddress s"
  shows "\<exists>st' out. addServerSession nd st = Inr (st', out) \<and> tcp_inv st'"
proof -
  let ?s = "startSession nd s"
  let ?st = "st\<lparr>m_serverListeningSession := None, m_transportSessions := m_transportSessions st @ [?s]\<rparr>"
  have s: "ts_ops s = []" "ts_ptr s < ts_next st" "ts_ptr s \<notin> ts_ptr ` set (m_transportSessions st)"
    using assms(1,3) by (simp_all add: tcp_inv_def)
  have "tcp_inv (st\<lparr>m_transportSessions := m_transportSessions st @ [?s], ts_next := ts_next st, m_serverListeningSession := None\<rparr>)"
    by (rule append_session_inv [OF assms(1,2)]) (use s assms(4) in \<open>simp_all add: startSession_ok\<close>)
  then have inv: "tcp_inv ?st" by (simp add: tcp_inv_def)
  have mem: "?s \<in> set (m_transportSessions ?st)" by simp
  obtain st' out where "handleSessionOpen (ts_ptr ?s) ?st = Inr (st', out)" "tcp_inv st'"
    using handleSessionOpen_ok [OF inv mem refl] by blast
  then show ?thesis
    using assms(2,3) by (simp add: addServerSession_def push_back_simps startBack_def)
qed

lemma acceptHandler_ok:
  assumes "tcp_inv st" "length (m_transportSessions st) < MAX_DEVICE_COUNT" "m_serverListeningSession st \<noteq> None"
  shows "\<exists>t' st' out. acceptHandler ec peer nd (t, st) = Inr (t', st', out) \<and> tcp_inv st' \<and> (t' = t \<or> t' = setFailed t)"
proof (cases ec)
  case True
  then show ?thesis using assms(1) by (simp add: acceptHandler_def)
next
  case False
  obtain s where s: "m_serverListeningSession st = Some s" using assms(3) by blast
  obtain s1 e where e: "remoteEndpoint (s\<lparr>ts_peer := peer\<rparr>) = (s1, e)" by fastforce
  have s1: "ts_ptr s1 = ts_ptr s" "ts_ops s1 = ts_ops s" "ts_role s1 = ts_role s" "remoteAddress s1 = address e"
    using remoteEndpoint_simps [of "s\<lparr>ts_peer := peer\<rparr>"] unfolding remoteAddress_def e by simp_all
  obtain st1 it where f: "findSession e (st\<lparr>m_serverListeningSession := Some s1\<rparr>) = (st1, it)" by fastforce
  have inv: "tcp_inv st1" using findSession_inv [OF f] assms(1) s s1 by (simp add: tcp_inv_def)
  have len: "length (m_transportSessions st1) < MAX_DEVICE_COUNT"
    using assms(2) map_eq_imp_length_eq [OF findSession_spec(2) [OF f]] by simp
  have l: "m_serverListeningSession st1 = Some s1" using findSession_spec(3) [OF f] by auto
  have "\<exists>st2 out. (if it = length (m_transportSessions st1) then addServerSession nd st1 else Inr (st1, None)) = Inr (st2, out) \<and> tcp_inv st2"
    using addServerSession_ok [OF inv len l] findSession_end [OF f] inv s1(4) by auto
  then obtain st2 out where "(if it = length (m_transportSessions st1) then addServerSession nd st1 else Inr (st1, None)) = Inr (st2, out)" "tcp_inv st2"
    by blast
  then show ?thesis using False s e f startAccept_inv by (simp add: acceptHandler_def)
qed

text \<open>Updates of an idle session in sequence.\<close>

lemma idle_update:
  assumes "\<And>s. s \<in> set (m_transportSessions st) \<Longrightarrow> ts_ptr s = p \<Longrightarrow> ts_ops (f s) = []"
  shows "idle p (updateSession p f st)"
  unfolding idle_def
proof (intro ballI impI)
  fix x assume "x \<in> set (m_transportSessions (updateSession p f st))" and x: "ts_ptr x = p"
  then obtain s0 where "s0 \<in> set (m_transportSessions st)" "x = (if ts_ptr s0 = p then f s0 else s0)"
    unfolding updateSession_mem by blast
  then show "ts_ops x = []" using assms x by (auto split: if_splits)
qed

definition client_ptr :: "nat \<Rightarrow> ('n, 'c) tcp_state \<Rightarrow> bool" where
  "client_ptr p st \<longleftrightarrow> (\<forall>s \<in> set (m_transportSessions st). ts_ptr s = p \<longrightarrow> ts_role s = Client_Session)"

lemma client_ptr_update:
  assumes "client_ptr p st" "\<And>s. ts_role (f s) = ts_role s"
  shows "client_ptr p (updateSession p f st)"
  unfolding client_ptr_def
proof (intro ballI impI)
  fix x assume "x \<in> set (m_transportSessions (updateSession p f st))" and x: "ts_ptr x = p"
  then obtain s0 where "s0 \<in> set (m_transportSessions st)" "x = (if ts_ptr s0 = p then f s0 else s0)"
    unfolding updateSession_mem by blast
  then show "ts_role x = Client_Session" using assms x by (auto simp: client_ptr_def split: if_splits)
qed

lemma set_peer_inv:
  assumes "tcp_inv st" "idle p st" "client_ptr p st"
  shows "tcp_inv (updateSession p (\<lambda>s. s\<lparr>ts_peer := q s\<rparr>) st)" "idle p (updateSession p (\<lambda>s. s\<lparr>ts_peer := q s\<rparr>) st)"
    and "client_ptr p (updateSession p (\<lambda>s. s\<lparr>ts_peer := q s\<rparr>) st)"
proof -
  show "tcp_inv (updateSession p (\<lambda>s. s\<lparr>ts_peer := q s\<rparr>) st)"
    using assms(2,3) by (intro idle_update_inv [OF assms(1,2)]) (simp add: idle_def client_ptr_def remoteAddress_client)
  show "idle p (updateSession p (\<lambda>s. s\<lparr>ts_peer := q s\<rparr>) st)"
    using assms(2) by (intro idle_update) (simp add: idle_def)
  show "client_ptr p (updateSession p (\<lambda>s. s\<lparr>ts_peer := q s\<rparr>) st)" by (rule client_ptr_update [OF assms(3)]) simp
qed

lemma connectionFailed_inv:
  assumes "tcp_inv st" "idle (ts_ptr s) st" "client_ptr (ts_ptr s) st"
  shows "tcp_inv (connectionFailedHandler s st)"
proof -
  note peer = set_peer_inv [OF assms, of "\<lambda>_. None"]
  show ?thesis
  proof (cases "0 < m_retriesLeft s")
    case True
    then show ?thesis unfolding connectionFailedHandler_def Let_def
      using idle_update_inv [OF peer(1,2), of "\<lambda>s. s\<lparr>m_retriesLeft := m_retriesLeft s - 1, ts_ops := ts_ops s @ [Op_Retry]\<rparr>"] peer(2,3)
      by (simp add: idle_def client_ptr_def)
  next
    case False
    then show ?thesis using sessionClosedHandler_idle(2) [OF peer(1,2)] by (simp add: connectionFailedHandler_def)
  qed
qed

lemma idle_key:
  fixes st st' :: "('n, 'c) tcp_state"
  assumes "map session_key (m_transportSessions st') = map session_key (m_transportSessions st)" "idle p st"
  shows "idle p st'"
proof -
  have eq: "idle p x \<longleftrightarrow> list_all (\<lambda>(q, a, r, ops). q = p \<longrightarrow> ops = []) (map session_key (m_transportSessions x))" for x :: "('n, 'c) tcp_state"
    by (simp add: idle_def session_key_def list_all_iff)
  show ?thesis using assms(2) unfolding eq assms(1) .
qed

lemma receiveTcpData_inv: "tcp_inv st \<Longrightarrow> idle p st \<Longrightarrow> tcp_inv (updateSession p (receiveTcpData \<circ> fst \<circ> remoteEndpoint) st)"
  "tcp_inv st \<Longrightarrow> idle p st \<Longrightarrow> tcp_inv (updateSession p receiveTcpData st)"
  by (erule idle_update_inv, assumption, simp add: idle_def receiveTcpData_def)+

lemma connected_ok:
  assumes "tcp_inv st" "idle p st" "client_ptr p st" "s \<in> set (m_transportSessions st)" "ts_ptr s = p"
  shows "\<exists>st' out. handleSessionOpen p (updateSession p (\<lambda>s. s\<lparr>ts_peer := Some (ts_remoteEndpoint s)\<rparr>) st) = Inr (st', out) \<and>
    tcp_inv (updateSession p receiveTcpData st')"
proof -
  let ?f = "\<lambda>s. s\<lparr>ts_peer := Some (ts_remoteEndpoint s)\<rparr>"
  note peer = set_peer_inv [OF assms(1-3), of "\<lambda>s. Some (ts_remoteEndpoint s)"]
  have "?f s \<in> set (m_transportSessions (updateSession p ?f st))"
    unfolding updateSession_mem using assms(4,5) by (intro bexI [of _ s]) auto
  then obtain st' out where st': "handleSessionOpen p (updateSession p ?f st) = Inr (st', out)" "tcp_inv st'"
    "map session_key (m_transportSessions st') = map session_key (m_transportSessions (updateSession p ?f st))"
    using handleSessionOpen_ok [OF peer(1), of "?f s" p] assms(5) by auto
  then show ?thesis using receiveTcpData_inv(2) [OF st'(2) idle_key [OF st'(3) peer(2)]] by blast
qed

lemma completed_ok:
  assumes "tcp_inv st" "s \<in> set (m_transportSessions st)" "ts_ptr s = p" "oper \<in> set (ts_ops s)"
  shows "\<exists>st' out. tcp_handle E (Completed p oper ec bytes) (t, st) = Inr (t, st', out) \<and> tcp_inv st'"
proof -
  let ?st1 = "updateSession p (\<lambda>s. s\<lparr>ts_ops := remove1 oper (ts_ops s)\<rparr>) st"
  note live = completes_live [OF assms]
  note closed = sessionClosedHandler_idle(2) [OF live(2,3)]
  have "ts_role s = Client_Session" if "oper = Op_Connect \<or> oper = Op_Retry"
    using tcp_inv_session [OF assms(1,2)] assms(4) that by (auto simp: session_ok_def)
  then have client: "client_ptr p ?st1" if "oper = Op_Connect \<or> oper = Op_Retry"
    using tcp_inv_ptr [OF live(2) _ live(4)] assms(3) that by (fastforce simp: client_ptr_def)
  show ?thesis
  proof (cases oper)
    case Op_Connect
    have c: "client_ptr p ?st1" using client Op_Connect by blast
    obtain st' out where "handleSessionOpen p (updateSession p (\<lambda>s. s\<lparr>ts_peer := Some (ts_remoteEndpoint s)\<rparr>) ?st1) = Inr (st', out)"
      "tcp_inv (updateSession p receiveTcpData st')"
      using connected_ok [OF live(2,3) c live(4)] assms(3) by auto
    moreover have "tcp_inv (connectionFailedHandler s ?st1)" using connectionFailed_inv [of ?st1 s] live(2,3) c assms(3) by simp
    ultimately show ?thesis using Op_Connect by (cases ec) (simp_all add: connectHandler_def live(1) [unfolded Op_Connect])
  next
    case Op_Retry
    then have "tcp_inv (updateSession p connectToEndpoint ?st1)"
      using idle_update_inv [OF live(2,3), of connectToEndpoint] live(3) client
      by (simp add: connectToEndpoint_def idle_def client_ptr_def)
    then show ?thesis using Op_Retry closed by (cases ec) (simp_all add: retryHandler_def live(1) [unfolded Op_Retry])
  next
    case Op_Read_Size
    have "tcp_inv (updateSession p (\<lambda>s. s\<lparr>m_readBufferSize := sz, ts_ops := ts_ops s @ [Op_Read_Message n]\<rparr>) ?st1)" for sz n
      using live(3) by (intro idle_update_inv [OF live(2,3)]) (simp add: idle_def)
    then show ?thesis using Op_Read_Size closed by (cases ec) (simp_all add: readOuter_def live(1) [unfolded Op_Read_Size])
  next
    case (Op_Read_Message n)
    then show ?thesis using closed receiveTcpData_inv(1) [OF live(2,3)] by (cases ec) (simp_all add: readInner_def live(1) [unfolded Op_Read_Message])
  qed
qed

section \<open>Runs of the layer\<close>

text \<open>
  What can happen next. The operations of destroyed sessions are outstanding too: the socket library
  completes them with an error and calls their handlers.
\<close>

fun tcp_enabled :: "tcp_event \<Rightarrow> ('n, 'c) tcp_state \<Rightarrow> bool" where
  "tcp_enabled (Accepted ec peer noDelay) st \<longleftrightarrow> m_serverListeningSession st \<noteq> None"
| "tcp_enabled (Discovered ec bytes sender rearmed noDelay) st \<longleftrightarrow> True"
| "tcp_enabled (Completed p oper ec bytes) st \<longleftrightarrow>
     (\<exists>s \<in> set (m_transportSessions st). ts_ptr s = p \<and> oper \<in> set (ts_ops s)) \<or> (p, oper) \<in> set (ts_dangling st)"

text \<open>The vector of sessions takes another one, and a discovery message fits its buffer.\<close>

fun tcp_room :: "iox_env \<Rightarrow> tcp_event \<Rightarrow> ('n, 'c) tcp_state \<Rightarrow> bool" where
  "tcp_room E (Accepted ec peer noDelay) st \<longleftrightarrow> length (m_transportSessions st) < MAX_DEVICE_COUNT"
| "tcp_room E (Discovered ec bytes sender rearmed noDelay) st \<longleftrightarrow>
     length (m_transportSessions st) < MAX_DEVICE_COUNT \<and> length bytes \<le> maxPubSubInfoSerializationSize E"
| "tcp_room E (Completed p oper ec bytes) st \<longleftrightarrow> True"

inductive tcp_step ::
  "iox_env \<Rightarrow> 'n send_to \<Rightarrow> 'c stream_write \<Rightarrow> transport_layer \<times> ('n, 'c) tcp_state \<Rightarrow> transport_layer \<times> ('n, 'c) tcp_state \<Rightarrow> bool"
  for E :: iox_env and send :: "'n send_to" and wr :: "'c stream_write" where
  handles: "tcp_enabled ev st \<Longrightarrow> tcp_room E ev st \<Longrightarrow> tcp_handle E ev (t, st) = Inr (t', st', out) \<Longrightarrow>
    tcp_step E send wr (t, st) (t', st')"
| sends: "tcpSendUserData wr t data1 data2 dev st = Inr (t', pending, st') \<Longrightarrow> tcp_step E send wr (t, st) (t', st')"
| broadcasts: "tcpSendBroadcast send t bytes st = (t', st') \<Longrightarrow> tcp_step E send wr (t, st) (t', st')"

inductive_cases tcp_stepE: "tcp_step E send wr (t, st) x"

lemma newTcpTransport_inv: "tcp_inv (snd (newTcpTransport opened b net))"
  by (simp add: newTcpTransport_def startAccept_def tcp_inv_def newServerSession_def)

lemma tcp_handle_ok:
  assumes "tcp_inv st" "tcp_enabled ev st" "tcp_room E ev st"
  shows "\<exists>t' st' out. tcp_handle E ev (t, st) = Inr (t', st', out) \<and> tcp_inv st'"
proof (cases ev)
  case (Accepted ec peer noDelay)
  then show ?thesis using acceptHandler_ok [OF assms(1), of ec peer noDelay t] assms(2,3) by auto
next
  case (Discovered ec bytes sender rearmed noDelay)
  obtain b out where b: "discoverySocketCallback ec bytes sender rearmed (m_broadcast st) = (b, out)" by fastforce
  have inv: "tcp_inv (st\<lparr>m_broadcast := b\<rparr>)" using assms(1) by (simp add: tcp_inv_def)
  show ?thesis
  proof (cases out)
    case None
    then show ?thesis using Discovered b inv by simp
  next
    case (Some d)
    obtain bytes' i where d: "d = (bytes', i)" by fastforce
    then have "bytes' = bytes" using b Some by (auto simp: discoverySocketCallback_def split: if_splits prod.splits)
    then obtain st' o' where "udpDiscoveryCallback E noDelay bytes' i (st\<lparr>m_broadcast := b\<rparr>) = Inr (st', o')" "tcp_inv st'"
      using udpDiscoveryCallback_ok [OF inv, of bytes E noDelay i] assms(3) Discovered by auto
    then show ?thesis using Discovered b Some d by simp
  qed
next
  case (Completed p oper ec bytes)
  have "ts_dangling st = []" using assms(1) by (simp add: tcp_inv_def)
  then obtain s where "s \<in> set (m_transportSessions st)" "ts_ptr s = p" "oper \<in> set (ts_ops s)"
    using assms(2) Completed by auto
  then show ?thesis using completed_ok [OF assms(1)] Completed by blast
qed

lemma tcp_send_inv:
  assumes "tcp_inv st" "tcpSendUserData wr t data1 data2 dev st = Inr (t', pending, st')"
  shows "tcp_inv st'"
proof (cases "length (m_transportSessions st) \<le> unat dev")
  case True
  then show ?thesis using assms by (simp add: tcpSendUserData_def)
next
  case False
  let ?ss = "m_transportSessions st"
  let ?ss' = "?ss[unat dev := fst (remoteEndpoint (?ss ! unat dev))]"
  have "map session_key ?ss' = map session_key ?ss" by (simp add: map_update) (metis list_update_id nth_map not_le False)
  then have inv: "tcp_inv (st\<lparr>m_transportSessions := ?ss'\<rparr>)" using tcp_inv_cong assms(1) by blast
  obtain net where "st' = st\<lparr>m_transportSessions := ?ss', tcp_net := net\<rparr>"
    using assms(2) False by (auto simp: tcpSendUserData_def result_simps)
  then show ?thesis using inv by (simp add: tcp_inv_def)
qed

lemma tcp_step_inv: "tcp_step E send wr x y \<Longrightarrow> tcp_inv (snd x) \<Longrightarrow> tcp_inv (snd y)"
proof (induction rule: tcp_step.induct)
  case (handles ev st t t' st' out)
  then show ?case using tcp_handle_ok [of st ev E t] by auto
next
  case (sends t data1 data2 dev st t' pending st')
  then show ?case using tcp_send_inv by auto
next
  case (broadcasts t bytes st t' st')
  then show ?case by (auto simp: tcpSendBroadcast_def tcp_inv_def)
qed

text \<open>
  C10. The asynchronous handlers of the TCP layer are safe. In every state the layer can reach, as long as the
  vector of sessions had room for each new peer and each discovery message for the buffer it is copied
  to: there is one session per remote address, each session has at most one operation
  outstanding, no handler of a destroyed session is outstanding, and whichever outstanding operation
  completes next, its handler returns.
\<close>

theorem tcp_sessions_safe:
  assumes "(tcp_step E send wr)\<^sup>*\<^sup>* (newTcpTransport opened b net) (t, st)" "tcp_enabled ev st" "tcp_room E ev st"
  shows "distinct (map remoteAddress (m_transportSessions st)) \<and> (\<forall>s \<in> set (m_transportSessions st). length (ts_ops s) \<le> 1) \<and>
    ts_dangling st = [] \<and> (\<exists>t' st' out. tcp_handle E ev (t, st) = Inr (t', st', out))"
proof -
  have "tcp_inv (snd (t, st))" using assms(1)
    by (induction rule: rtranclp_induct) (auto intro: tcp_step_inv newTcpTransport_inv)
  then have inv: "tcp_inv st" by simp
  then show ?thesis using tcp_handle_ok [OF inv assms(2,3), of t] by (auto simp: tcp_inv_def session_ok_def)
qed

definition sample_tcp :: "transport_layer \<times> ((byte list \<times> endpoint) list, unit) tcp_state" where
  "sample_tcp = newTcpTransport True sample_udp ()"

definition accepted_tcp :: "((byte list \<times> endpoint) list, unit) tcp_state" where
  "accepted_tcp = (snd sample_tcp)\<lparr>m_transportSessions := [\<lparr>ts_ptr = 0, ts_role = Server_Session,
     ts_remoteEndpoint = \<lparr>address = 5, port = 1\<rparr>, m_retriesLeft = 0, m_readBufferSize = 0,
     ts_peer = Some \<lparr>address = 5, port = 1\<rparr>, ts_ops = [Op_Read_Size]\<rparr>],
     m_serverListeningSession := Some (newServerSession 1), ts_next := 2\<rparr>"

lemma accepted_tcp_step:
  "tcp_handle sample_env (Accepted False (Some \<lparr>address = 5, port = 1\<rparr>) True) sample_tcp
     = Inr (\<lparr>getType = TCP, m_status = GOOD\<rparr>, accepted_tcp, None)"
  by (simp add: accepted_tcp_def sample_tcp_def newTcpTransport_def startAccept_def acceptHandler_def remoteEndpoint_def serverRemoteEndpoint_def
      newServerSession_def default_endpoint_def findSession_def addServerSession_def push_back_def MAX_DEVICE_COUNT_def
      startBack_def startSession_def serverStart_def receiveTcpData_def handleSessionOpen_def updateSession_def)

theorem tcp_sessions_safe_witness:
  "ts_dangling accepted_tcp = [] \<and>
   (\<exists>t' st' out. tcp_handle sample_env (Completed 0 Op_Read_Size True []) (\<lparr>getType = TCP, m_status = GOOD\<rparr>, accepted_tcp) = Inr (t', st', out))"
proof -
  let ?t = "\<lparr>getType = TCP, m_status = GOOD\<rparr>"
  have start: "sample_tcp = (?t, snd sample_tcp)" by (simp add: sample_tcp_def newTcpTransport_def)
  have "tcp_step sample_env ideal_send (\<lambda>_ _ n. (n, None)) (?t, snd sample_tcp) (?t, accepted_tcp)"
  proof (rule tcp_step.handles)
    show "tcp_handle sample_env (Accepted False (Some \<lparr>address = 5, port = 1\<rparr>) True) (?t, snd sample_tcp) = Inr (?t, accepted_tcp, None)"
      using accepted_tcp_step start by simp
  qed (simp_all add: sample_tcp_def newTcpTransport_def startAccept_def MAX_DEVICE_COUNT_def)
  then have "(tcp_step sample_env ideal_send (\<lambda>_ _ n. (n, None)))\<^sup>*\<^sup>* (newTcpTransport True sample_udp ()) (?t, accepted_tcp)"
    unfolding sample_tcp_def [symmetric] using start by auto
  then show ?thesis
    using tcp_sessions_safe [of sample_env ideal_send "\<lambda>_ _ n. (n, None)" True sample_udp "()" ?t accepted_tcp
        "Completed 0 Op_Read_Size True []"] by (simp add: accepted_tcp_def)
qed

section \<open>Giving up\<close>

text \<open>
  A peer that never answers: each connection attempt fails, and as long as attempts are left the
  session waits for its timer and tries again.
\<close>

fun failing_attempts :: "nat \<Rightarrow> nat \<Rightarrow> tcp_event list" where
  "failing_attempts p 0 = [Completed p Op_Connect True []]"
| "failing_attempts p (Suc n) = Completed p Op_Connect True [] # Completed p Op_Retry False [] # failing_attempts p n"

definition tcp_run :: "iox_env \<Rightarrow> tcp_event list \<Rightarrow> transport_layer \<times> ('n, 'c) tcp_state \<Rightarrow> (transport_layer \<times> ('n, 'c) tcp_state) result" where
  "tcp_run E = foldR (\<lambda>ev x. bindR (tcp_handle E ev x) (\<lambda>(t', st', _). Inr (t', st')))"

lemma tcp_run_Cons:
  "tcp_run E (ev # evs) (t, st) = bindR (tcp_handle E ev (t, st)) (\<lambda>(t', st', _). tcp_run E evs (t', st'))"
  by (cases "tcp_handle E ev (t, st)") (auto simp: tcp_run_def split: prod.splits)

lemma updateSession_own:
  assumes "tcp_inv st" "s \<in> set (m_transportSessions st)" "ts_ptr s = p"
  shows "updateSession p f st = updateSession p (\<lambda>_. f s) st"
  using tcp_inv_ptr [OF assms(1,2)] assms(3) by (auto simp: updateSession_def)

lemma updateSession_merge:
  "ts_ptr s' = p \<Longrightarrow> updateSession p f (updateSession p (\<lambda>_. s') st) = updateSession p (\<lambda>_. f s') st"
  by (simp add: updateSession_def)

text \<open>The session at an address is replaced by another one with the same address.\<close>

abbreviation replaceSession :: "tcp_session \<Rightarrow> ('n, 'c) tcp_state \<Rightarrow> ('n, 'c) tcp_state" where
  "replaceSession s st \<equiv> updateSession (ts_ptr s) (\<lambda>_. s) st"

lemma replaceSession_filter [simp]:
  "filter (\<lambda>x. ts_ptr x \<noteq> ts_ptr s) (m_transportSessions (replaceSession s st)) = filter (\<lambda>x. ts_ptr x \<noteq> ts_ptr s) (m_transportSessions st)"
proof -
  have "filter (\<lambda>x. ts_ptr x \<noteq> ts_ptr s) (map (\<lambda>x. if ts_ptr x = ts_ptr s then s else x) xs) = filter (\<lambda>x. ts_ptr x \<noteq> ts_ptr s) xs" for xs
    by (induction xs) auto
  then show "filter (\<lambda>x. ts_ptr x \<noteq> ts_ptr s) (m_transportSessions (replaceSession s st)) = filter (\<lambda>x. ts_ptr x \<noteq> ts_ptr s) (m_transportSessions st)"
    by (simp add: updateSession_def)
qed

lemma replaceSession_inv:
  assumes "tcp_inv st" "s \<in> set (m_transportSessions st)"
    and "ts_ptr s' = ts_ptr s" "remoteAddress s' = remoteAddress s" "session_ok (ts_next st) s'"
  shows "tcp_inv (replaceSession s' st)"
proof (rule updateSession_inv [OF assms(1)])
  fix x assume "x \<in> set (m_transportSessions st)" "ts_ptr x = ts_ptr s'"
  then have "x = s" using tcp_inv_ptr [OF assms(1) _ assms(2)] assms(3) by simp
  then show "keeps_session (ts_next st) (\<lambda>_. s') x" using assms(3-5) by (simp add: keeps_session_def)
qed

lemma replaceSession_mem: "s \<in> set (m_transportSessions st) \<Longrightarrow> ts_ptr s' = ts_ptr s \<Longrightarrow> s' \<in> set (m_transportSessions (replaceSession s' st))"
  unfolding updateSession_mem by (intro bexI [of _ s]) auto

text \<open>The only operation of a session completes.\<close>

lemma completes_only:
  assumes "tcp_inv st" "s \<in> set (m_transportSessions st)" "ts_ops s = [oper]"
  shows "completes (ts_ptr s) oper handler st = handler s (updateSession (ts_ptr s) (\<lambda>_. s\<lparr>ts_ops := []\<rparr>) st)"
proof -
  have "oper \<in> set (ts_ops s)" using assms(3) by simp
  moreover have "updateSession (ts_ptr s) (\<lambda>s. s\<lparr>ts_ops := remove1 oper (ts_ops s)\<rparr>) st = updateSession (ts_ptr s) (\<lambda>_. s\<lparr>ts_ops := []\<rparr>) st"
    using updateSession_own [OF assms(1,2) refl, of "\<lambda>s. s\<lparr>ts_ops := remove1 oper (ts_ops s)\<rparr>"] assms(3) by simp
  ultimately show ?thesis using completes_live(1) [OF assms(1,2) refl, of oper handler] by simp
qed

lemma update_idle [simp]:
  "updateSession (ts_ptr s) f (updateSession (ts_ptr s) (\<lambda>_. s\<lparr>ts_ops := []\<rparr>) st) = updateSession (ts_ptr s) (\<lambda>_. f (s\<lparr>ts_ops := []\<rparr>)) st"
  by (rule updateSession_merge) simp

lemma close_idle:
  assumes "tcp_inv st" "s \<in> set (m_transportSessions st)" "ts_ptr s' = ts_ptr s" "remoteAddress s' = remoteAddress s" "ts_ops s' = []"
  shows "sessionClosedHandler (ts_ptr s) (updateSession (ts_ptr s) (\<lambda>_. s') st)
    = st\<lparr>m_transportSessions := filter (\<lambda>x. ts_ptr x \<noteq> ts_ptr s) (m_transportSessions st)\<rparr>"
proof -
  have "session_ok (ts_next st) s'" using tcp_inv_session [OF assms(1,2)] assms(3,5) by (simp add: session_ok_def)
  then have inv: "tcp_inv (replaceSession s' st)" by (rule replaceSession_inv [OF assms(1-4)])
  have "idle (ts_ptr s) (replaceSession s' st)" using idle_update [of st "ts_ptr s" "\<lambda>_. s'"] assms(3,5) by simp
  from sessionClosedHandler_idle(1) [OF inv this] show ?thesis using replaceSession_filter [of s' st] assms(3) by simp
qed

lemma completed_connect_fails:
  assumes "tcp_inv st" "s \<in> set (m_transportSessions st)" "ts_ops s = [Op_Connect]"
  shows "tcp_handle E (Completed (ts_ptr s) Op_Connect True bytes) (t, st) = Inr (t,
    if 0 < m_retriesLeft s then replaceSession (s\<lparr>ts_peer := None, m_retriesLeft := m_retriesLeft s - 1, ts_ops := [Op_Retry]\<rparr>) st
    else st\<lparr>m_transportSessions := filter (\<lambda>x. ts_ptr x \<noteq> ts_ptr s) (m_transportSessions st)\<rparr>, None)"
proof -
  have "ts_role s = Client_Session" using tcp_inv_session [OF assms(1,2)] assms(3) by (simp add: session_ok_def)
  then have closed: "sessionClosedHandler (ts_ptr s) (updateSession (ts_ptr s) (\<lambda>_. s\<lparr>ts_peer := None, ts_ops := []\<rparr>) st)
      = st\<lparr>m_transportSessions := filter (\<lambda>x. ts_ptr x \<noteq> ts_ptr s) (m_transportSessions st)\<rparr>"
    by (intro close_idle [OF assms(1,2)]) (simp_all add: remoteAddress_client)
  have swap: "s\<lparr>ts_ops := [], ts_peer := None\<rparr> = s\<lparr>ts_peer := None, ts_ops := []\<rparr>" by simp
  have retry: "updateSession (ts_ptr s) (\<lambda>s. s\<lparr>m_retriesLeft := m_retriesLeft s - 1, ts_ops := ts_ops s @ [Op_Retry]\<rparr>)
        (updateSession (ts_ptr s) (\<lambda>_. s\<lparr>ts_peer := None, ts_ops := []\<rparr>) st)
      = updateSession (ts_ptr s) (\<lambda>_. s\<lparr>ts_peer := None, m_retriesLeft := m_retriesLeft s - 1, ts_ops := [Op_Retry]\<rparr>) st"
    by (subst updateSession_merge) simp_all
  show ?thesis
    by (simp add: connectHandler_def completes_only [OF assms] connectionFailedHandler_def swap retry closed)
qed

lemma completed_retry:
  assumes "tcp_inv st" "s \<in> set (m_transportSessions st)" "ts_ops s = [Op_Retry]"
  shows "tcp_handle E (Completed (ts_ptr s) Op_Retry False bytes) (t, st) = Inr (t, replaceSession (s\<lparr>ts_ops := [Op_Connect]\<rparr>) st, None)"
  by (simp add: retryHandler_def completes_only [OF assms] connectToEndpoint_def)

text \<open>
  C34. Connecting gives up: a client session with \<open>n\<close> attempts left whose peer never answers is removed after
  its timer has fired \<open>n\<close> times and the attempt after that has failed as well, and nothing else of
  the layer changes.
\<close>

theorem tcp_gives_up:
  assumes "tcp_inv st" "s \<in> set (m_transportSessions st)" "ts_ops s = [Op_Connect]" "m_retriesLeft s = int n"
  shows "tcp_run E (failing_attempts (ts_ptr s) n) (t, st)
    = Inr (t, st\<lparr>m_transportSessions := filter (\<lambda>x. ts_ptr x \<noteq> ts_ptr s) (m_transportSessions st)\<rparr>)"
  using assms
proof (induction n arbitrary: st s)
  case 0
  then show ?case using completed_connect_fails [OF 0(1-3)] by (simp add: tcp_run_Cons) (simp add: tcp_run_def)
next
  case (Suc n)
  let ?s1 = "s\<lparr>ts_peer := None, m_retriesLeft := int n, ts_ops := [Op_Retry]\<rparr>"
  let ?s2 = "?s1\<lparr>ts_ops := [Op_Connect]\<rparr>"
  let ?st1 = "replaceSession ?s1 st" and ?st2 = "replaceSession ?s2 (replaceSession ?s1 st)"
  have role: "ts_role s = Client_Session" and ok: "session_ok (ts_next st) s"
    using tcp_inv_session [OF Suc.prems(1,2)] Suc.prems(3) by (simp_all add: session_ok_def)
  have inv1: "tcp_inv ?st1"
    using role ok by (intro replaceSession_inv [OF Suc.prems(1,2)]) (simp_all add: session_ok_def remoteAddress_client)
  have mem1: "?s1 \<in> set (m_transportSessions ?st1)" using replaceSession_mem [OF Suc.prems(2), of ?s1] by simp
  have inv2: "tcp_inv ?st2"
    using role ok by (intro replaceSession_inv [OF inv1 mem1]) (simp_all add: session_ok_def)
  have mem2: "?s2 \<in> set (m_transportSessions ?st2)" using replaceSession_mem [OF mem1, of ?s2] by simp
  have 1: "tcp_handle E (Completed (ts_ptr s) Op_Connect True []) (t, st) = Inr (t, ?st1, None)"
    using completed_connect_fails [OF Suc.prems(1-3), of E "[]" t] Suc.prems(4) by simp
  have 2: "tcp_handle E (Completed (ts_ptr s) Op_Retry False []) (t, ?st1) = Inr (t, ?st2, None)"
    using completed_retry [OF inv1 mem1, of E "[]" t] by simp
  have "tcp_run E (failing_attempts (ts_ptr s) (Suc n)) (t, st) = tcp_run E (failing_attempts (ts_ptr ?s2) n) (t, ?st2)"
    unfolding failing_attempts.simps tcp_run_Cons 1 bindR.simps prod.case 2 by simp
  also have "\<dots> = Inr (t, ?st2\<lparr>m_transportSessions := filter (\<lambda>x. ts_ptr x \<noteq> ts_ptr ?s2) (m_transportSessions ?st2)\<rparr>)"
    by (rule Suc.IH [OF inv2 mem2]) simp_all
  also have "\<dots> = Inr (t, st\<lparr>m_transportSessions := filter (\<lambda>x. ts_ptr x \<noteq> ts_ptr s) (m_transportSessions st)\<rparr>)"
    using replaceSession_filter [of ?s2 ?st1] replaceSession_filter [of ?s1 st] by simp
  finally show ?case .
qed

definition connecting_tcp :: "((byte list \<times> endpoint) list, unit) tcp_state" where
  "connecting_tcp = (snd sample_tcp)\<lparr>m_transportSessions :=
     [connectToEndpoint (newClientSession 1 \<lparr>address = 7, port = DATA_PORT\<rparr>)], ts_next := 2\<rparr>"

lemma connecting_tcp_inv: "tcp_inv connecting_tcp"
  by (simp add: connecting_tcp_def sample_tcp_def newTcpTransport_def startAccept_def newServerSession_def newClientSession_def
      connectToEndpoint_def tcp_inv_def session_ok_def MAX_DEVICE_COUNT_def)

theorem tcp_gives_up_witness:
  "\<exists>st'. tcp_run sample_env (failing_attempts 1 3) (fst sample_tcp, connecting_tcp) = Inr (fst sample_tcp, st') \<and> m_transportSessions st' = []"
  using tcp_gives_up [OF connecting_tcp_inv, of "connectToEndpoint (newClientSession 1 \<lparr>address = 7, port = DATA_PORT\<rparr>)" 3 sample_env "fst sample_tcp"]
  by (simp add: connecting_tcp_def connectToEndpoint_def newClientSession_def)

section \<open>Where the layer goes wrong\<close>

lemma find_if_distinct:
  assumes "distinct (map f xs)" "k < length xs"
  shows "find_if (\<lambda>x. f x = f (xs ! k)) xs = k"
proof -
  let ?i = "find_if (\<lambda>x. f x = f (xs ! k)) xs"
  have "?i < length xs" using assms(2) by (auto simp: find_if_less)
  then have "f (xs ! ?i) = f (xs ! k)" by (rule find_if_nth)
  then show ?thesis using nth_eq_iff_index_eq [OF assms(1), of ?i k] \<open>?i < length xs\<close> assms(2) by simp
qed

lemma nth_erase_at: "k \<le> j \<Longrightarrow> Suc j < length xs \<Longrightarrow> erase_at k xs ! j = xs ! Suc j"
  by (simp add: erase_at_def nth_append)

lemma completed_read_error:
  assumes "tcp_inv st" "s \<in> set (m_transportSessions st)" "ts_ops s = [Op_Read_Size]"
  shows "tcp_handle E (Completed (ts_ptr s) Op_Read_Size True bytes) (t, st)
    = Inr (t, st\<lparr>m_transportSessions := filter (\<lambda>x. ts_ptr x \<noteq> ts_ptr s) (m_transportSessions st)\<rparr>, None)"
  using close_idle [OF assms(1,2), of "s\<lparr>ts_ops := []\<rparr>"] by (simp add: readOuter_def completes_only [OF assms])

text \<open>
  A device index is a position in the vector of sessions, and closing a session moves the later ones: after
  the peer at position \<open>k\<close> has closed its connection, what the gateway sends to a device index from
  \<open>k\<close> on goes to the session after the one that the index was reported for, which belongs to
  another address.
\<close>

theorem tcp_index_shifts:
  assumes "tcp_inv st" "k \<le> j" "Suc j < length (m_transportSessions st)" "ts_ops (m_transportSessions st ! k) = [Op_Read_Size]"
    and "sessionSendData write (ts_ptr (m_transportSessions st ! Suc j)) data1 data2 (tcp_net st) = Inr (pending, net)"
  shows "remoteAddress (m_transportSessions st ! Suc j) \<noteq> remoteAddress (m_transportSessions st ! j) \<and>
    (\<exists>st' st''. tcp_handle E (Completed (ts_ptr (m_transportSessions st ! k)) Op_Read_Size True bytes) (t, st) = Inr (t, st', None) \<and>
      tcpSendUserData write t data1 data2 (word_of_nat j) st' = Inr (t, pending, st'') \<and> tcp_net st'' = net)"
proof -
  let ?ss = "m_transportSessions st" and ?p = "ts_ptr (m_transportSessions st ! k)"
  have dist: "distinct (map ts_ptr ?ss)" "distinct (map remoteAddress ?ss)" "length ?ss \<le> 10"
    using assms(1) by (simp_all add: tcp_inv_def MAX_DEVICE_COUNT_def)
  have k: "k < length ?ss" using assms(2,3) by simp
  have it: "find_if (\<lambda>s. ts_ptr s = ?p) ?ss = k" by (rule find_if_distinct [OF dist(1) k])
  then have "find_if (\<lambda>s. ts_ptr s = ?p) ?ss \<noteq> length ?ss" using k by simp
  from handleSessionClose_filter [OF dist(1) this]
  have filt: "filter (\<lambda>s. ts_ptr s \<noteq> ?p) ?ss = erase_at k ?ss" by (simp add: it)
  let ?st = "st\<lparr>m_transportSessions := erase_at k ?ss\<rparr>"
  have h: "tcp_handle E (Completed ?p Op_Read_Size True bytes) (t, st) = Inr (t, ?st, None)"
    using completed_read_error [OF assms(1) nth_mem [OF k] assms(4), of E bytes t] filt by simp
  have j: "unat (word_of_nat j :: u32) = j" using assms(3) dist(3) by (simp add: unat_of_nat take_bit_nat_eq_self)
  have len: "j < length (erase_at k ?ss)" using assms(2,3) by (simp add: length_erase_at)
  have "\<exists>st''. tcpSendUserData write t data1 data2 (word_of_nat j) ?st = Inr (t, pending, st'') \<and> tcp_net st'' = net"
    using assms(5) len nth_erase_at [OF assms(2,3)] by (simp add: tcpSendUserData_def j)
  moreover have "remoteAddress (?ss ! Suc j) \<noteq> remoteAddress (?ss ! j)"
    using nth_eq_iff_index_eq [OF dist(2), of "Suc j" j] assms(3) by simp
  ultimately show ?thesis using h by blast
qed

definition two_sessions :: "((byte list \<times> endpoint) list, unit) tcp_state" where
  "two_sessions = (snd sample_tcp)\<lparr>m_transportSessions :=
     [receiveTcpData (newClientSession 1 \<lparr>address = 7, port = DATA_PORT\<rparr>),
      receiveTcpData (newClientSession 2 \<lparr>address = 8, port = DATA_PORT\<rparr>)], ts_next := 3\<rparr>"

lemma two_sessions_inv: "tcp_inv two_sessions"
  by (simp add: two_sessions_def sample_tcp_def newTcpTransport_def startAccept_def newServerSession_def newClientSession_def
      receiveTcpData_def tcp_inv_def session_ok_def MAX_DEVICE_COUNT_def remoteAddress_client)

theorem tcp_index_shifts_witness:
  "\<exists>st' st''. tcp_handle sample_env (Completed 1 Op_Read_Size True []) (fst sample_tcp, two_sessions) = Inr (fst sample_tcp, st', None) \<and>
     tcpSendUserData (\<lambda>p bytes net. (net, None)) (fst sample_tcp) [1] [2] 0 st' = Inr (fst sample_tcp, False, st'')"
proof -
  have "sessionSendData (\<lambda>p bytes net. (net, None)) (ts_ptr (m_transportSessions two_sessions ! Suc 0)) [1] [2] (tcp_net two_sessions)
      = Inr (False, tcp_net two_sessions)"
    by (simp add: sessionSendData_def)
  from tcp_index_shifts [OF two_sessions_inv, of 0 0, OF _ _ _ this, of sample_env "[]" "fst sample_tcp"] show ?thesis
    by (auto simp: two_sessions_def newClientSession_def receiveTcpData_def)
qed

text \<open>A session that is closed with an operation outstanding leaves it to the socket library.\<close>

lemma handleSessionClose_mem:
  assumes "distinct (map ts_ptr (m_transportSessions st))" "s \<in> set (m_transportSessions st)" "ts_ptr s = p"
  shows "ts_dangling (handleSessionClose p st) = ts_dangling st @ map (Pair p) (ts_ops s)"
    and "m_transportSessions (handleSessionClose p st) = filter (\<lambda>s. ts_ptr s \<noteq> p) (m_transportSessions st)"
proof -
  obtain k where k: "k < length (m_transportSessions st)" "m_transportSessions st ! k = s"
    using assms(2) by (auto simp: in_set_conv_nth)
  have it: "find_if (\<lambda>s. ts_ptr s = p) (m_transportSessions st) = k"
    using find_if_distinct [OF assms(1) k(1)] k(2) assms(3) by simp
  then have "find_if (\<lambda>s. ts_ptr s = p) (m_transportSessions st) \<noteq> length (m_transportSessions st)" using k(1) by simp
  from handleSessionClose_filter [OF assms(1) this]
  show "ts_dangling (handleSessionClose p st) = ts_dangling st @ map (Pair p) (ts_ops s)"
    and "m_transportSessions (handleSessionClose p st) = filter (\<lambda>s. ts_ptr s \<noteq> p) (m_transportSessions st)"
    using k it assms(3) by (simp_all add: handleSessionClose_def destroy_def)
qed

lemma updateSession_ptrs:
  "(\<And>s. ts_ptr (f s) = ts_ptr s) \<Longrightarrow> map ts_ptr (m_transportSessions (updateSession p f st)) = map ts_ptr (m_transportSessions st)"
  by (simp add: updateSession_def)

lemma close_dangles:
  assumes "distinct (map ts_ptr (m_transportSessions st))" "s \<in> set (m_transportSessions st)" "ts_ops s = [Op_Read_Size, oper]"
  shows "\<exists>st'. tcp_handle E (Completed (ts_ptr s) Op_Read_Size True bytes) (t, st) = Inr (t, st', None) \<and>
    (ts_ptr s, oper) \<in> set (ts_dangling st') \<and> ts_ptr s \<notin> ts_ptr ` set (m_transportSessions st')"
proof -
  let ?p = "ts_ptr s"
  let ?st1 = "updateSession ?p (\<lambda>s. s\<lparr>ts_ops := remove1 Op_Read_Size (ts_ops s)\<rparr>) st"
  let ?st2 = "updateSession ?p (\<lambda>s. s\<lparr>ts_peer := None\<rparr>) ?st1"
  let ?s1 = "s\<lparr>ts_ops := [oper]\<rparr>"
  have "?s1 \<in> set (m_transportSessions ?st1)"
    unfolding updateSession_mem using assms(2,3) by (intro bexI [of _ s]) auto
  then have mem: "?s1\<lparr>ts_peer := None\<rparr> \<in> set (m_transportSessions ?st2)"
    unfolding updateSession_mem [where st = ?st1] by (rule bexI [rotated]) simp
  have dist: "distinct (map ts_ptr (m_transportSessions ?st2))"
    using assms(1) updateSession_ptrs [of "\<lambda>s. s\<lparr>ts_ops := remove1 Op_Read_Size (ts_ops s)\<rparr>" ?p st]
      updateSession_ptrs [of "\<lambda>s. s\<lparr>ts_peer := None\<rparr>" ?p ?st1] by simp
  have ptr: "ts_ptr (?s1\<lparr>ts_peer := None\<rparr>) = ?p" by simp
  note closed = handleSessionClose_mem [OF dist mem ptr]
  have "find (\<lambda>x. ts_ptr x = ?p) (m_transportSessions st) \<noteq> None" using assms(2) by (auto simp: find_None_iff)
  then have h: "tcp_handle E (Completed ?p Op_Read_Size True bytes) (t, st) = Inr (t, handleSessionClose ?p ?st2, None)"
    by (auto simp: readOuter_def completes_def sessionClosedHandler_def)
  have "(?p, oper) \<in> set (ts_dangling (handleSessionClose ?p ?st2))" "?p \<notin> ts_ptr ` set (m_transportSessions (handleSessionClose ?p ?st2))"
    unfolding closed by auto
  then show ?thesis using h by blast
qed

lemma released_handler:
  assumes "p \<notin> ts_ptr ` set (m_transportSessions st)"
  shows "tcp_handle E (Completed p oper ec bytes) (t, st) = Inl Use_After_Release"
proof -
  have "find (\<lambda>s. ts_ptr s = p) (m_transportSessions st) = None" using assms by (auto simp: find_None_iff)
  then have "completes p op f st = Inl Use_After_Release" for op and f :: "tcp_session \<Rightarrow> ('a, 'b) tcp_state \<Rightarrow> 'd result"
    by (simp add: completes_def)
  then show ?thesis
    by (cases oper) (simp_all add: connectHandler_def retryHandler_def readOuter_def readInner_def completes_def
        \<open>find (\<lambda>s. ts_ptr s = p) (m_transportSessions st) = None\<close>)
qed

text \<open>
  With a full vector of sessions the layer restarts a session instead of adding one: a discovery message
  from a new address starts a second operation on the last session. When that session's peer then closes
  the connection, the session is destroyed with the operation outstanding, and the
  handler of that operation uses the destroyed session.
\<close>

theorem tcp_full_table:
  assumes "tcp_inv st" "length (m_transportSessions st) = MAX_DEVICE_COUNT" "s = last (m_transportSessions st)"
    and "ts_ops s = [Op_Read_Size]" "oper = (case ts_role s of Client_Session \<Rightarrow> Op_Connect | Server_Session \<Rightarrow> Op_Read_Size)"
    and "sender \<notin> set (m_interfaceEndpoints (m_broadcast st))" "length (m_devices (m_broadcast st)) < MAX_DEVICE_COUNT"
    and "\<forall>x \<in> set (m_transportSessions st). remoteAddress x \<noteq> address sender" "length bytes \<le> maxPubSubInfoSerializationSize E"
  shows "\<exists>st1 st2. tcp_handle E (Discovered False bytes sender True True) (t, st) = Inr (t, st1, None) \<and>
    tcp_handle E (Completed (ts_ptr s) Op_Read_Size True []) (t, st1) = Inr (t, st2, None) \<and>
    tcp_enabled (Completed (ts_ptr s) oper True []) st2 \<and>
    tcp_handle E (Completed (ts_ptr s) oper True []) (t, st2) = Inl Use_After_Release"
proof -
  let ?ss = "m_transportSessions st"
  have "find_if (\<lambda>e. e = sender) (m_interfaceEndpoints (m_broadcast st)) = length (m_interfaceEndpoints (m_broadcast st))"
    using assms(6) by (auto simp: find_if_end)
  then obtain b i where b: "discoverySocketCallback False bytes sender True (m_broadcast st) = (b, Some (bytes, i))"
    by (simp add: discoverySocketCallback_def)
  have ep: "getEndpoint (di_device i) b = (b, sender)" using getEndpoint_index [OF b assms(7)] by simp
  let ?e = "\<lparr>address = address sender, port = DATA_PORT\<rparr>"
  obtain ss n where f: "findSessionIn (address sender) ?ss = (ss, n)" by fastforce
  note spec = findSessionIn_spec [OF f]
  have n: "n = length ss" using spec assms(8) find_if_end [of "\<lambda>s. remoteAddress s = address sender" ?ss]
      map_eq_imp_length_eq [of session_key ss session_key ?ss] by simp
  have len: "length ss = MAX_DEVICE_COUNT" using keys_same(3) spec assms(2) by metis
  have ne: "ss \<noteq> []" "?ss \<noteq> []" using len assms(2) by (auto simp: MAX_DEVICE_COUNT_def)
  have last: "session_key (last ss) = session_key s" using spec assms(3) ne last_map [of ss session_key] last_map [of ?ss session_key] by metis
  then have l: "ts_ptr (last ss) = ts_ptr s" "ts_ops (last ss) = [Op_Read_Size]" "ts_role (last ss) = ts_role s"
    using assms(4) by (simp_all add: session_key_def)
  let ?s1 = "startSession True (last ss)"
  let ?st1 = "st\<lparr>m_broadcast := b, m_transportSessions := butlast ss @ [?s1],
    m_infoToReport := fst (push_back MAX_DEVICE_COUNT (m_infoToReport st) (?e, bytes)), ts_next := Suc (ts_next st)\<rparr>"
  have h1: "tcp_handle E (Discovered False bytes sender True True) (t, st) = Inr (t, ?st1, None)"
    using b ep f n len ne(1) assms(9)
    by (simp add: udpDiscoveryCallback_def findSession_def addClientSession_def startBack_def push_back_simps)
  have ops: "ts_ops ?s1 = [Op_Read_Size, oper]" "ts_ptr ?s1 = ts_ptr s"
    using l assms(5) by (simp_all add: startSession_def serverStart_def connectToEndpoint_def receiveTcpData_def split: session_role.splits)
  have "map ts_ptr (butlast ss @ [?s1]) = map ts_ptr (butlast ss @ [last ss])" by simp
  also have "\<dots> = map ts_ptr ?ss" using keys_same(1) spec ne(1) by (metis append_butlast_last_id)
  finally have dist: "distinct (map ts_ptr (m_transportSessions ?st1))" using assms(1) by (simp add: tcp_inv_def)
  obtain st2 where st2: "tcp_handle E (Completed (ts_ptr s) Op_Read_Size True []) (t, ?st1) = Inr (t, st2, None)"
    "(ts_ptr s, oper) \<in> set (ts_dangling st2)" "ts_ptr s \<notin> ts_ptr ` set (m_transportSessions st2)"
    using close_dangles [OF dist, of ?s1 oper E "[]" t] ops by auto
  then show ?thesis using h1 released_handler [OF st2(3)] by (intro exI [of _ ?st1] exI [of _ st2]) simp
qed

definition full_sessions :: "((byte list \<times> endpoint) list, unit) tcp_state" where
  "full_sessions = (snd sample_tcp)\<lparr>m_transportSessions :=
     map (\<lambda>n. receiveTcpData (newClientSession n \<lparr>address = word_of_nat n, port = DATA_PORT\<rparr>)) [1, 2, 3, 4, 5, 6, 7, 8, 9, 10], ts_next := 11\<rparr>"

lemma full_sessions_inv: "tcp_inv full_sessions"
  by (simp add: full_sessions_def sample_tcp_def newTcpTransport_def startAccept_def newServerSession_def newClientSession_def
      receiveTcpData_def tcp_inv_def session_ok_def MAX_DEVICE_COUNT_def remoteAddress_client)

theorem tcp_full_table_witness:
  "\<exists>st1 st2. tcp_handle sample_env (Discovered False [] \<lparr>address = 99, port = DISCOVERY_PORT\<rparr> True True) (fst sample_tcp, full_sessions)
      = Inr (fst sample_tcp, st1, None) \<and>
    tcp_handle sample_env (Completed 10 Op_Read_Size True []) (fst sample_tcp, st1) = Inr (fst sample_tcp, st2, None) \<and>
    tcp_handle sample_env (Completed 10 Op_Connect True []) (fst sample_tcp, st2) = Inl Use_After_Release"
proof -
  have ss: "last (m_transportSessions full_sessions) = receiveTcpData (newClientSession 10 \<lparr>address = 10, port = DATA_PORT\<rparr>)"
    "length (m_transportSessions full_sessions) = MAX_DEVICE_COUNT"
    "\<forall>x \<in> set (m_transportSessions full_sessions). remoteAddress x \<noteq> address \<lparr>address = 99, port = DISCOVERY_PORT\<rparr>"
    by (simp_all add: full_sessions_def MAX_DEVICE_COUNT_def receiveTcpData_def newClientSession_def remoteAddress_client)
  have b: "\<lparr>address = 99, port = DISCOVERY_PORT\<rparr> \<notin> set (m_interfaceEndpoints (m_broadcast full_sessions))"
    "length (m_devices (m_broadcast full_sessions)) < MAX_DEVICE_COUNT"
    by (simp_all add: full_sessions_def sample_tcp_def newTcpTransport_def startAccept_def sample_udp_def MAX_DEVICE_COUNT_def)
  show ?thesis
    using tcp_full_table [OF full_sessions_inv ss(2) refl _ refl b(1,2) ss(3), of "[]" sample_env "fst sample_tcp"]
    by (auto simp: ss(1) receiveTcpData_def newClientSession_def)
qed

end
