(* ===== verification/TcpStream.thy ===== *)
theory TcpStream
  imports TcpSessions
begin

text \<open>
  Messages over a TCP connection. The layer turns the byte stream of a connection into messages: a
  sender writes the size of a message before the message, a receiver reads a size and then as
  many bytes. The locale \<open>tcp_connection\<close> states what the layer relies on of \<^verbatim>\<open>asio::write\<close>: on a
  connection that is up it writes all bytes, in order. Under it the layer meets the contract of
  \<open>DataWriter\<close>, and a receiving session delivers exactly the messages that were sent.
\<close>

section \<open>Writing\<close>

definition size_prefix :: "byte list \<Rightarrow> byte list" where
  "size_prefix m = nat_bytes 8 (unat (word_of_nat (length m) :: u64))"

text \<open>The writes of a connection: pairs of a size and a message.\<close>

fun framed :: "byte list list \<Rightarrow> bool" where
  "framed [] = True"
| "framed [x] = False"
| "framed (x # m # ws) = (x = size_prefix m \<and> framed ws)"

fun messages_of :: "byte list list \<Rightarrow> byte list list" where
  "messages_of (x # m # ws) = m # messages_of ws"
| "messages_of ws = []"

abbreviation frames :: "byte list list \<Rightarrow> byte list list" where
  "frames ms \<equiv> concat (map (\<lambda>m. [size_prefix m, m]) ms)"

lemma framed_append: "framed ws \<Longrightarrow> framed (ws @ [size_prefix m, m]) \<and> messages_of (ws @ [size_prefix m, m]) = messages_of ws @ [m]"
  by (induction ws rule: framed.induct) simp_all

lemma framed_frames: "framed ws \<Longrightarrow> ws = frames (messages_of ws)"
  by (induction ws rule: framed.induct) simp_all

locale tcp_connection =
  fixes wr :: "'c stream_write"
    and up :: "nat \<Rightarrow> 'c \<Rightarrow> bool"
    and written :: "nat \<Rightarrow> 'c \<Rightarrow> byte list list"
  assumes writes: "up p c \<Longrightarrow> \<exists>c'. wr p bytes c = (c', Some (word_of_nat (length bytes))) \<and> up p c' \<and> written p c' = written p c @ [bytes]"

definition tcp_ready ::
  "(nat \<Rightarrow> 'c \<Rightarrow> bool) \<Rightarrow> (nat \<Rightarrow> 'c \<Rightarrow> byte list list) \<Rightarrow> nat \<Rightarrow> u32 \<Rightarrow> ('n, 'c) tcp_state \<Rightarrow> bool" where
  "tcp_ready up written p dev st \<longleftrightarrow> up p (tcp_net st) \<and> framed (written p (tcp_net st)) \<and>
     unat dev < length (m_transportSessions st) \<and> ts_ptr (m_transportSessions st ! unat dev) = p"

lemma length_nat_bytes_8: "word_of_nat (length (nat_bytes 8 n)) = (8 :: u64)"
  by simp

sublocale tcp_connection \<subseteq> accepting_layer "tcp_ops wr" "tcp_ready up written p dev" "\<lambda>st. messages_of (written p (tcp_net st))" t dev
  for p t dev
proof
  fix w :: "('d, 'c) tcp_state" and ser data
  assume ready: "tcp_ready up written p dev w"
  obtain c1 where c1: "wr p (size_prefix (ser @ data)) (tcp_net w) = (c1, Some (word_of_nat (length (size_prefix (ser @ data)))))" "up p c1"
    "written p c1 = written p (tcp_net w) @ [size_prefix (ser @ data)]"
    using writes ready by (auto simp: tcp_ready_def) blast
  obtain c2 where c2: "wr p (ser @ data) c1 = (c2, Some (word_of_nat (length (ser @ data))))" "up p c2"
    "written p c2 = written p c1 @ [ser @ data]"
    using writes [OF c1(2)] by blast
  have send: "sessionSendData wr p ser data (tcp_net w) = Inr (False, c2)"
    using c1(1) c2(1) by (simp add: sessionSendData_def size_prefix_def expects_def)
  then show "\<exists>w'. sendUserData (tcp_ops wr) t ser data dev w = Inr (t, False, w') \<and> tcp_ready up written p dev w' \<and>
      messages_of (written p (tcp_net w')) = messages_of (written p (tcp_net w)) @ [ser @ data]"
    using ready c1(3) c2(2,3) framed_append [of "written p (tcp_net w)" "ser @ data"]
    by (simp add: tcp_ops_def tcpSendUserData_def tcp_ready_def)
qed

section \<open>Reading\<close>

text \<open>
  \<^verbatim>\<open>asio::async_read\<close> completes when it has filled the buffer it was given, with the next bytes of the
  stream. So the reads of a session that complete cut the stream into pieces, each as long
  as the buffer of the read; \<open>stream_reads\<close> runs the handlers on such pieces and collects what they
  deliver. It gives nothing if a piece does not have the length that was asked for.
\<close>

fun buffer_size :: "async_op \<Rightarrow> nat option" where
  "buffer_size Op_Read_Size = Some 8"
| "buffer_size (Op_Read_Message n) = Some n"
| "buffer_size oper = None"

fun stream_reads ::
  "iox_env \<Rightarrow> nat \<Rightarrow> byte list list \<Rightarrow> transport_layer \<times> ('n, 'c) tcp_state
     \<Rightarrow> (transport_layer \<times> ('n, 'c) tcp_state \<times> tcp_delivery list) option" where
  "stream_reads E p [] (t, st) = Some (t, st, [])"
| "stream_reads E p (bytes # cs) (t, st) =
     (case find (\<lambda>s. ts_ptr s = p) (m_transportSessions st) of
        None \<Rightarrow> None
      | Some s \<Rightarrow>
          (case ts_ops s of
             [oper] \<Rightarrow>
               if buffer_size oper = Some (length bytes)
               then (case tcp_handle E (Completed p oper False bytes) (t, st) of
                       Inl _ \<Rightarrow> None
                     | Inr (t1, st1, out) \<Rightarrow>
                         map_option (\<lambda>(t', st', outs). (t', st', (case out of None \<Rightarrow> outs | Some d \<Rightarrow> d # outs)))
                           (stream_reads E p cs (t1, st1)))
               else None
           | _ \<Rightarrow> None))"

text \<open>One read of a session that has nothing else outstanding.\<close>

lemma stream_reads_step:
  assumes "tcp_inv st" "s \<in> set (m_transportSessions st)" "ts_ops s = [oper]"
  shows "stream_reads E (ts_ptr s) (bytes # cs) (t, st) =
    (if buffer_size oper = Some (length bytes)
     then (case tcp_handle E (Completed (ts_ptr s) oper False bytes) (t, st) of
             Inl _ \<Rightarrow> None
           | Inr (t1, st1, out) \<Rightarrow>
               map_option (\<lambda>(t', st', outs). (t', st', (case out of None \<Rightarrow> outs | Some d \<Rightarrow> d # outs)))
                 (stream_reads E (ts_ptr s) cs (t1, st1)))
     else None)"
  using find_ptr [OF assms(1,2)] assms(3) by simp

lemma completed_read_size:
  assumes "tcp_inv st" "s \<in> set (m_transportSessions st)" "ts_ops s = [Op_Read_Size]"
  shows "tcp_handle E (Completed (ts_ptr s) Op_Read_Size False bytes) (t, st) =
      (let sz = word_of_nat (bytes_nat bytes) in
       Inr (t, replaceSession (s\<lparr>m_readBufferSize := sz, ts_ops := [Op_Read_Message (min MAX_PACKET_SIZE (unat sz))]\<rparr>) st, None))"
  by (simp add: readOuter_def completes_only [OF assms])

lemma completed_read_message:
  assumes "tcp_inv st" "s \<in> set (m_transportSessions st)" "ts_ops s = [Op_Read_Message n]"
  shows "tcp_handle E (Completed (ts_ptr s) (Op_Read_Message n) False bytes) (t, st) =
      Inr (t, replaceSession ((fst (remoteEndpoint s))\<lparr>ts_ops := [Op_Read_Size]\<rparr>) st, handleUserDataCallback bytes (snd (remoteEndpoint s)) st)"
proof -
  have "(receiveTcpData \<circ> fst \<circ> remoteEndpoint) (s\<lparr>ts_ops := []\<rparr>) = (fst (remoteEndpoint s))\<lparr>ts_ops := [Op_Read_Size]\<rparr>"
    by (simp add: receiveTcpData_def remoteEndpoint_def serverRemoteEndpoint_def split: session_role.splits)
  then show ?thesis by (simp add: readInner_def completes_only [OF assms] handleUserDataCallback_def)
qed

text \<open>
  A session that waits for the next message, of a peer that the layer knows as device \<open>i\<close>. Reading a
  whole message leads to such a state again.
\<close>

definition reading :: "nat \<Rightarrow> u32 \<Rightarrow> ('n, 'c) tcp_state \<Rightarrow> bool" where
  "reading p i st \<longleftrightarrow> tcp_inv st \<and> (\<exists>s \<in> set (m_transportSessions st). ts_ptr s = p \<and> ts_ops s = [Op_Read_Size] \<and>
     getIndex (remoteAddress s) (m_broadcast st) = Some i)"

lemma unat_size_prefix:
  assumes "length m \<le> MAX_PACKET_SIZE"
  shows "min MAX_PACKET_SIZE (unat (word_of_nat (bytes_nat (size_prefix m)) :: u64)) = length m"
proof -
  have "length m < 2 ^ 64" using assms by (simp add: MAX_PACKET_SIZE_def)
  then have "unat (word_of_nat (length m) :: u64) = length m" by (simp add: unat_of_nat take_bit_nat_eq_self)
  moreover have "word_of_nat (bytes_nat (size_prefix m)) = (word_of_nat (length m) :: u64)" by (simp add: size_prefix_def)
  ultimately show ?thesis using assms by simp
qed

lemma read_message:
  assumes "reading p i st" "length m \<le> MAX_PACKET_SIZE"
  shows "\<exists>st'. reading p i st' \<and> (\<forall>cs. stream_reads E p (size_prefix m # m # cs) (t, st) =
    map_option (\<lambda>(t', st', outs). (t', st', User_Data m \<lparr>di_type = TCP, di_device = i\<rparr> # outs)) (stream_reads E p cs (t, st')))"
    and "length x = 8 \<Longrightarrow> length y \<noteq> length m \<Longrightarrow> x = size_prefix m \<Longrightarrow> stream_reads E p (x # y # cs) (t, st) = None"
proof -
  obtain s where inv: "tcp_inv st" and s: "s \<in> set (m_transportSessions st)" "ts_ptr s = p" "ts_ops s = [Op_Read_Size]"
    "getIndex (remoteAddress s) (m_broadcast st) = Some i"
    using assms(1) by (auto simp: reading_def)
  let ?s1 = "s\<lparr>m_readBufferSize := word_of_nat (bytes_nat (size_prefix m)), ts_ops := [Op_Read_Message (length m)]\<rparr>"
  let ?s2 = "(fst (remoteEndpoint ?s1))\<lparr>ts_ops := [Op_Read_Size]\<rparr>"
  let ?st1 = "replaceSession ?s1 st" and ?st2 = "replaceSession ?s2 (replaceSession ?s1 st)"
  have ok: "session_ok (ts_next st) s" by (rule tcp_inv_session [OF inv s(1)])
  have inv1: "tcp_inv ?st1" using ok by (intro replaceSession_inv [OF inv s(1)]) (simp_all add: session_ok_def)
  have mem1: "?s1 \<in> set (m_transportSessions ?st1)" using replaceSession_mem [OF s(1), of ?s1] by simp
  have inv2: "tcp_inv ?st2" using ok by (intro replaceSession_inv [OF inv1 mem1]) (simp_all add: session_ok_def)
  have mem2: "?s2 \<in> set (m_transportSessions ?st2)" using replaceSession_mem [OF mem1, of ?s2] by simp
  have p: "ts_ptr ?s1 = p" "ts_ptr ?s2 = p" using s(2) by simp_all
  have 1: "stream_reads E p (size_prefix m # cs) (t, st) = stream_reads E p cs (t, ?st1)" for cs
    using stream_reads_step [OF inv s(1,3), of E "size_prefix m" cs t] completed_read_size [OF inv s(1,3), of E "size_prefix m" t]
      unat_size_prefix [OF assms(2)] s(2) by (simp add: size_prefix_def option.map_id0 [unfolded id_def] case_prod_unfold)
  have ops1: "ts_ops ?s1 = [Op_Read_Message (length m)]" by simp
  have "address (snd (remoteEndpoint ?s1)) = remoteAddress s" unfolding remoteAddress_def [symmetric] by simp
  then have "handleUserDataCallback m (snd (remoteEndpoint ?s1)) ?st1 = Some (User_Data m \<lparr>di_type = TCP, di_device = i\<rparr>)"
    using s(4) by (simp add: handleUserDataCallback_def)
  then have 2: "stream_reads E p (m # cs) (t, ?st1) =
      map_option (\<lambda>(t', st', outs). (t', st', User_Data m \<lparr>di_type = TCP, di_device = i\<rparr> # outs)) (stream_reads E p cs (t, ?st2))" for cs
    using stream_reads_step [OF inv1 mem1 ops1, of E m cs t] completed_read_message [OF inv1 mem1 ops1, of E m t] p(1) by simp
  have "reading p i ?st2"
    unfolding reading_def using inv2 mem2 p s(4) by (intro conjI bexI [of _ ?s2]) simp_all
  then show "\<exists>st'. reading p i st' \<and> (\<forall>cs. stream_reads E p (size_prefix m # m # cs) (t, st) =
    map_option (\<lambda>(t', st', outs). (t', st', User_Data m \<lparr>di_type = TCP, di_device = i\<rparr> # outs)) (stream_reads E p cs (t, st')))"
    using 1 2 by (intro exI [of _ ?st2]) simp
  show "length x = 8 \<Longrightarrow> length y \<noteq> length m \<Longrightarrow> x = size_prefix m \<Longrightarrow> stream_reads E p (x # y # cs) (t, st) = None"
    using 1 [of "y # cs"] stream_reads_step [OF inv1 mem1 ops1, of E y cs t] p(1) by simp
qed

lemma read_size_only:
  assumes "reading p i st" "length x \<noteq> 8"
  shows "stream_reads E p (x # cs) (t, st) = None"
proof -
  obtain s where "tcp_inv st" "s \<in> set (m_transportSessions st)" "ts_ptr s = p" "ts_ops s = [Op_Read_Size]"
    using assms(1) by (auto simp: reading_def)
  then show ?thesis using stream_reads_step [of st s Op_Read_Size E x cs t] assms(2) by auto
qed

text \<open>Whatever reads complete over the bytes of some messages, they are those of the sizes and messages in turn.\<close>

lemma reads_are_frames:
  assumes "reading p i st" "\<forall>m \<in> set ms. m \<noteq> [] \<and> length m \<le> MAX_PACKET_SIZE"
    and "concat cs = concat (frames ms)" "stream_reads E p cs (t, st) \<noteq> None"
  shows "cs = frames ms"
  using assms
proof (induction ms arbitrary: cs st)
  case Nil
  show ?case
  proof (cases cs)
    case (Cons x cs1)
    then have "length x \<noteq> 8" using Nil.prems(3) by auto
    then show ?thesis using read_size_only [OF Nil.prems(1)] Nil.prems(4) Cons by simp
  qed simp
next
  case (Cons m ms)
  have "length (size_prefix m) = 8" by (simp add: size_prefix_def)
  then obtain x cs1 where cs: "cs = x # cs1" using Cons.prems(3) by (cases cs) auto
  have len: "length x = 8" using read_size_only [OF Cons.prems(1), of x E cs1 t] Cons.prems(4) unfolding cs by metis
  then have x: "x = size_prefix m" and rest: "concat cs1 = m @ concat (frames ms)"
    using Cons.prems(3) append_eq_append_conv [of x "size_prefix m" "concat cs1" "m @ concat (frames ms)"] unfolding cs
    by (simp_all add: size_prefix_def)
  have m: "length m \<le> MAX_PACKET_SIZE" "m \<noteq> []" using Cons.prems(2) by auto
  then obtain y cs2 where cs1: "cs1 = y # cs2" using rest by (cases cs1) auto
  have leny: "length y = length m" using read_message(2) [OF Cons.prems(1) m(1) len _ x, of y E cs2 t] Cons.prems(4) unfolding cs cs1 by metis
  then have y: "y = m" "concat cs2 = concat (frames ms)" using rest append_eq_append_conv [of y m "concat cs2" "concat (frames ms)"] unfolding cs1 by simp_all
  obtain st' where st': "reading p i st'" "\<forall>cs. stream_reads E p (size_prefix m # m # cs) (t, st) =
    map_option (\<lambda>(t', st', outs). (t', st', User_Data m \<lparr>di_type = TCP, di_device = i\<rparr> # outs)) (stream_reads E p cs (t, st'))"
    using read_message(1) [OF Cons.prems(1) m(1), of E t] by blast
  then have "stream_reads E p cs2 (t, st') \<noteq> None" using Cons.prems(4) cs cs1 x y(1) by auto
  then have "cs2 = frames ms" using Cons.IH [OF st'(1) _ y(2)] Cons.prems(2) by simp
  then show ?case using cs cs1 x y(1) by simp
qed

lemma read_frames:
  assumes "reading p i st" "\<forall>m \<in> set ms. length m \<le> MAX_PACKET_SIZE"
  shows "\<exists>st'. reading p i st' \<and>
    stream_reads E p (frames ms) (t, st) = Some (t, st', map (\<lambda>m. User_Data m \<lparr>di_type = TCP, di_device = i\<rparr>) ms)"
  using assms
proof (induction ms arbitrary: st)
  case (Cons m ms)
  then obtain st1 where st1: "reading p i st1" "\<forall>cs. stream_reads E p (size_prefix m # m # cs) (t, st) =
    map_option (\<lambda>(t', st', outs). (t', st', User_Data m \<lparr>di_type = TCP, di_device = i\<rparr> # outs)) (stream_reads E p cs (t, st1))"
    using read_message(1) [OF Cons.prems(1), of m E t] by auto
  then show ?case using Cons.IH [OF st1(1)] Cons.prems(2) by auto
qed auto

text \<open>
  C20. The framing of messages on a TCP connection is exact: a session that waits for a message and is
  given the bytes that \<^verbatim>\<open>sendData\<close> wrote for a sequence of non-empty messages, none longer than
  \<^verbatim>\<open>MAX_PACKET_SIZE\<close>, delivers exactly these messages, in order, as user data of the peer's device index, and
  waits for the next one. There is one way only in which its reads can complete over these bytes.
\<close>

theorem tcp_framing:
  assumes "tcp_inv st" "s \<in> set (m_transportSessions st)" "ts_ops s = [Op_Read_Size]"
    and "getIndex (remoteAddress s) (m_broadcast st) = Some i" "\<forall>m \<in> set ms. m \<noteq> [] \<and> length m \<le> MAX_PACKET_SIZE"
  shows "\<exists>st'. reading (ts_ptr s) i st' \<and> (\<forall>cs. concat cs = concat (frames ms) \<longrightarrow>
      stream_reads E (ts_ptr s) cs (t, st) =
        (if cs = frames ms then Some (t, st', map (\<lambda>m. User_Data m \<lparr>di_type = TCP, di_device = i\<rparr>) ms) else None))"
proof -
  have r: "reading (ts_ptr s) i st" using assms(1-4) by (auto simp: reading_def)
  obtain st' where "reading (ts_ptr s) i st'"
    "stream_reads E (ts_ptr s) (frames ms) (t, st) = Some (t, st', map (\<lambda>m. User_Data m \<lparr>di_type = TCP, di_device = i\<rparr>) ms)"
    using read_frames [OF r, of ms E t] assms(5) by auto
  moreover have "stream_reads E (ts_ptr s) cs (t, st) = None" if "concat cs = concat (frames ms)" "cs \<noteq> frames ms" for cs
    using reads_are_frames [OF r assms(5) that(1), of E t] that(2) by blast
  ultimately show ?thesis by (intro exI [of _ st']) auto
qed

text \<open>A connection that keeps what is written to it.\<close>

definition record_write :: "(nat \<Rightarrow> byte list list) stream_write" where
  "record_write p bytes c = (c(p := c p @ [bytes]), Some (word_of_nat (length bytes)))"

interpretation wire: tcp_connection record_write "\<lambda>_ _. True" "\<lambda>p c. c p"
  by unfold_locales (simp add: record_write_def)

lemma accepted_tcp_reading:
  "tcp_inv accepted_tcp" "hd (m_transportSessions accepted_tcp) \<in> set (m_transportSessions accepted_tcp)"
  "ts_ops (hd (m_transportSessions accepted_tcp)) = [Op_Read_Size]" "ts_ptr (hd (m_transportSessions accepted_tcp)) = 0"
  "getIndex (remoteAddress (hd (m_transportSessions accepted_tcp))) (m_broadcast accepted_tcp) = Some 0"
  by (simp_all add: accepted_tcp_def sample_tcp_def newTcpTransport_def startAccept_def newServerSession_def tcp_inv_def session_ok_def
      MAX_DEVICE_COUNT_def getIndex_def remoteAddress_def remoteEndpoint_def serverRemoteEndpoint_def sample_udp_def)

theorem tcp_framing_witness:
  "\<exists>st'. stream_reads sample_env 0 (frames [[1, 2], [3]]) (fst sample_tcp, accepted_tcp)
     = Some (fst sample_tcp, st', [User_Data [1, 2] \<lparr>di_type = TCP, di_device = 0\<rparr>, User_Data [3] \<lparr>di_type = TCP, di_device = 0\<rparr>])"
proof -
  have "\<forall>m \<in> set [[1, 2], [3 :: byte]]. m \<noteq> [] \<and> length m \<le> MAX_PACKET_SIZE" by (simp add: MAX_PACKET_SIZE_def)
  from tcp_framing [OF accepted_tcp_reading(1-3,5) this, of sample_env "fst sample_tcp"] accepted_tcp_reading(4)
  show ?thesis by (auto dest!: spec [of _ "frames [[1, 2], [3]]"])
qed

section \<open>Sending a message\<close>

text \<open>What a datagram carries besides its header.\<close>

definition tcp_payload :: "iox_env \<Rightarrow> u32" where
  "tcp_payload E = word_of_nat (MAX_PACKET_SIZE - maxIoxChunkDatagramHeaderSerializationSize E)"

lemma tcp_payload_size:
  assumes "maxIoxChunkDatagramHeaderSerializationSize E < MAX_PACKET_SIZE"
  shows "maxTransportPayloadSize E (tcp_ops wr) t = tcp_payload E"
    and "unat (tcp_payload E) = MAX_PACKET_SIZE - maxIoxChunkDatagramHeaderSerializationSize E"
proof -
  show "maxTransportPayloadSize E (tcp_ops wr) t = tcp_payload E"
    using assms by (simp add: tcp_payload_def maxTransportPayloadSize_def tcp_ops_def of_nat_diff)
  have "MAX_PACKET_SIZE - maxIoxChunkDatagramHeaderSerializationSize E < 2 ^ 32" by (simp add: MAX_PACKET_SIZE_def)
  then show "unat (tcp_payload E) = MAX_PACKET_SIZE - maxIoxChunkDatagramHeaderSerializationSize E"
    by (simp only: tcp_payload_def unat_of_nat) (simp add: take_bit_nat_eq_self)
qed

context tcp_connection
begin

lemma tcp_writes:
  assumes "tcp_ready up written p (di_device i) (ws_world s)" "di_type i = TCP" "s_transports (ws_ti s) ! index TCP = Some t" "isGood t"
    and "maxIoxChunkDatagramHeaderSerializationSize E < MAX_PACKET_SIZE"
    and "length (ch_userHeader ck) = unat (userHeaderSize h)" "length (ch_userPayload ck) = unat (userPayloadSize h)"
    and "length (ch_userHeader ck) + length (ch_userPayload ck) < 2 ^ 32"
  shows "\<exists>w'. writeSegmented E (tcp_ops wr) cb rel h ck [i] mutex subscriber s
      = Inr (s\<lparr>ws_world := rel subscriber (ch_chunk ck) w'\<rparr>) \<and> framed (written p (tcp_net w')) \<and>
    messages_of (written p (tcp_net w')) = messages_of (written p (tcp_net (ws_world s))) @
      map (datagram E) (messageSegments h (tcp_payload E) (ch_userHeader ck) (ch_userPayload ck))"
proof -
  have "tcp_payload E \<noteq> 0" using tcp_payload_size(2) [OF assms(5)] assms(5) by auto
  then show ?thesis
    using writeSegmented_one [where s = s and p = p and i = i and t = t and E = E and dev = "di_device i"
        and h = h and ck = ck and cb = cb and rel = rel and mutex = mutex and subscriber = subscriber] assms
    by (auto simp: tcp_payload_size(1) [OF assms(5)]) (auto simp: tcp_ops_def TRANSPORT_TYPE_COUNT_def tcp_ready_def)
qed

lemma tcp_stream:
  assumes "tcp_ready up written p (di_device i) (ws_world s)" "di_type i = TCP" "s_transports (ws_ti s) ! index TCP = Some t" "isGood t"
    and "maxIoxChunkDatagramHeaderSerializationSize E < MAX_PACKET_SIZE"
    and "length (ch_userHeader ck) = unat (userHeaderSize h)" "length (ch_userPayload ck) = unat (userPayloadSize h)"
    and "length (ch_userHeader ck) + length (ch_userPayload ck) < 2 ^ 32"
  defines "grams \<equiv> map (datagram E) (messageSegments h (tcp_payload E) (ch_userHeader ck) (ch_userPayload ck))"
  shows "\<exists>w'. writeSegmented E (tcp_ops wr) cb rel h ck [i] mutex subscriber s
      = Inr (s\<lparr>ws_world := rel subscriber (ch_chunk ck) w'\<rparr>) \<and>
    written p (tcp_net w') = written p (tcp_net (ws_world s)) @ frames grams"
    and "\<forall>g \<in> set grams. g \<noteq> [] \<and> length g \<le> MAX_PACKET_SIZE"
proof -
  obtain w' where w': "writeSegmented E (tcp_ops wr) cb rel h ck [i] mutex subscriber s = Inr (s\<lparr>ws_world := rel subscriber (ch_chunk ck) w'\<rparr>)"
    "framed (written p (tcp_net w'))" "messages_of (written p (tcp_net w')) = messages_of (written p (tcp_net (ws_world s))) @ grams"
    using tcp_writes [OF assms(1-8)] unfolding grams_def by blast
  have "framed (written p (tcp_net (ws_world s)))" using assms(1) by (simp add: tcp_ready_def)
  then have "written p (tcp_net w') = written p (tcp_net (ws_world s)) @ frames grams"
    using framed_frames [OF w'(2)] framed_frames [of "written p (tcp_net (ws_world s))"] unfolding w'(3) by simp
  then show "\<exists>w'. writeSegmented E (tcp_ops wr) cb rel h ck [i] mutex subscriber s
      = Inr (s\<lparr>ws_world := rel subscriber (ch_chunk ck) w'\<rparr>) \<and>
    written p (tcp_net w') = written p (tcp_net (ws_world s)) @ frames grams"
    using w'(1) by blast
  show "\<forall>g \<in> set grams. g \<noteq> [] \<and> length g \<le> MAX_PACKET_SIZE"
  proof
    fix g assume "g \<in> set grams"
    then obtain sg where sg: "g = datagram E sg"
      "sg \<in> set (messageSegments h (tcp_payload E) (ch_userHeader ck) (ch_userPayload ck))"
      unfolding grams_def by auto
    then have "snd sg \<noteq> [] \<and> length (snd sg) \<le> unat (tcp_payload E)"
      using messageSegments_data [of "fst sg" "snd sg"] by simp
    moreover have "length g = maxIoxChunkDatagramHeaderSerializationSize E + length (snd sg)"
      using datagram_length [of E "fst sg" "snd sg"] sg(1) by simp
    ultimately show "g \<noteq> [] \<and> length g \<le> MAX_PACKET_SIZE"
      using tcp_payload_size(2) [OF assms(5)] assms(5) by auto
  qed
qed

end

end
