(* ===== verification/Runs.thy ===== *)
theory Runs
  imports Prelude
begin

text \<open>
  Runs of the state machines of the development whose steps are functions: an event and a state give the
  next state, or nothing when the event cannot happen there. The locales carry what is proved of
  every such machine: an invariant that each step keeps holds along every run, and a machine whose
  work can always be lowered comes to rest.
\<close>

section \<open>Runs\<close>

fun run_events :: "('e \<Rightarrow> 's \<Rightarrow> 's option) \<Rightarrow> 'e list \<Rightarrow> 's \<Rightarrow> 's option" where
  "run_events step [] x = Some x"
| "run_events step (ev # evs) x = (case step ev x of None \<Rightarrow> None | Some y \<Rightarrow> run_events step evs y)"

definition moves :: "('e \<Rightarrow> 's \<Rightarrow> 's option) \<Rightarrow> 's \<Rightarrow> 's \<Rightarrow> bool" where
  "moves step x y \<longleftrightarrow> (\<exists>ev. step ev x = Some y)"

abbreviation reaches :: "('e \<Rightarrow> 's \<Rightarrow> 's option) \<Rightarrow> 's \<Rightarrow> 's \<Rightarrow> bool" where
  "reaches step \<equiv> (moves step)\<^sup>*\<^sup>*"

lemma run_events_reaches: "run_events step evs x = Some y \<Longrightarrow> reaches step x y"
proof (induction evs arbitrary: x)
  case (Cons ev evs)
  then obtain z where "step ev x = Some z" "reaches step z y" by (auto split: option.splits)
  moreover from this(1) have "moves step x z" by (auto simp: moves_def)
  ultimately show ?case by (simp add: converse_rtranclp_into_rtranclp)
qed simp

lemma reaches_run_events: "reaches step x y \<Longrightarrow> \<exists>evs. run_events step evs x = Some y"
proof (induction rule: converse_rtranclp_induct)
  case base
  then show ?case by (rule exI [of _ "[]"]) simp
next
  case (step x z)
  then obtain ev evs where "step ev x = Some z" "run_events step evs z = Some y" by (auto simp: moves_def)
  then show ?case by (intro exI [of _ "ev # evs"]) simp
qed

section \<open>Invariants and progress\<close>

locale step_invariant =
  fixes step :: "'e \<Rightarrow> 's \<Rightarrow> 's option" and I :: "'s \<Rightarrow> bool"
  assumes keeps: "I x \<Longrightarrow> step ev x = Some y \<Longrightarrow> I y"
begin

lemma moves_keeps: "moves step x y \<Longrightarrow> I x \<Longrightarrow> I y"
  using keeps unfolding moves_def by blast

lemma reaches_keeps: "reaches step x y \<Longrightarrow> I x \<Longrightarrow> I y"
proof (induction rule: rtranclp_induct)
  case (step y z)
  then show ?case using moves_keeps [of y z] by blast
qed

lemma run_keeps: "run_events step evs x = Some y \<Longrightarrow> I x \<Longrightarrow> I y"
  by (rule reaches_keeps [OF run_events_reaches])

end

locale progressing = step_invariant step I for step :: "'e \<Rightarrow> 's \<Rightarrow> 's option" and I +
  fixes rest :: "'s \<Rightarrow> bool" and work :: "'s \<Rightarrow> nat"
  assumes lowers: "I x \<Longrightarrow> \<not> rest x \<Longrightarrow> \<exists>ev y. step ev x = Some y \<and> work y < work x"
begin

lemma comes_to_rest: "I x \<Longrightarrow> \<exists>y. reaches step x y \<and> rest y"
proof (induction "work x" arbitrary: x rule: less_induct)
  case less
  show ?case
  proof (cases "rest x")
    case False
    then obtain ev z where z: "step ev x = Some z" "work z < work x" using lowers [OF less.prems] by blast
    then obtain y where y: "reaches step z y" "rest y" using less.hyps [OF z(2) keeps [OF less.prems z(1)]] by blast
    moreover have "moves step x z" using z(1) by (auto simp: moves_def)
    ultimately show ?thesis using converse_rtranclp_into_rtranclp [of "moves step" x z y] by blast
  qed blast
qed

end

section \<open>Simulation\<close>

text \<open>
  What an observer sees of a run: every step shows a list of labels. A machine is simulated by an abstract one if the
  labels of each step lead from the abstraction of its first state to that of its second.
\<close>

fun run_labels :: "('e \<Rightarrow> 's \<Rightarrow> 's option) \<Rightarrow> ('e \<Rightarrow> 's \<Rightarrow> 'l list) \<Rightarrow> 'e list \<Rightarrow> 's \<Rightarrow> 'l list" where
  "run_labels step seen [] x = []"
| "run_labels step seen (ev # evs) x =
     seen ev x @ (case step ev x of None \<Rightarrow> [] | Some y \<Rightarrow> run_labels step seen evs y)"

locale simulation = step_invariant step I for step :: "'e \<Rightarrow> 's \<Rightarrow> 's option" and I +
  fixes seen :: "'e \<Rightarrow> 's \<Rightarrow> 'l list" and abst :: "'s \<Rightarrow> 'a" and arun :: "'l list \<Rightarrow> 'a \<Rightarrow> 'a \<Rightarrow> bool"
  assumes simulates: "I x \<Longrightarrow> step ev x = Some y \<Longrightarrow> arun (seen ev x) (abst x) (abst y)"
    and arun_Nil: "arun [] a a"
    and arun_append: "arun ls a b \<Longrightarrow> arun ls' b c \<Longrightarrow> arun (ls @ ls') a c"
begin

lemma run_simulated: "run_events step evs x = Some y \<Longrightarrow> I x \<Longrightarrow> arun (run_labels step seen evs x) (abst x) (abst y)"
proof (induction evs arbitrary: x)
  case (Cons ev evs)
  then obtain z where z: "step ev x = Some z" "run_events step evs z = Some y" by (auto split: option.splits)
  then have "arun (run_labels step seen evs z) (abst z) (abst y)" using Cons.IH keeps [OF Cons.prems(2)] by blast
  then show ?case using z(1) arun_append [OF simulates [OF Cons.prems(2) z(1)]] by simp
qed (simp add: arun_Nil)

end

end
