(* ===== verification/WaitsetThreads.thy ===== *)
theory WaitsetThreads
  imports Iox2Transport Runs
begin

text \<open>
  The threads that meet in \<^verbatim>\<open>Iceoryx2Transport\<close> (\<^verbatim>\<open>source/p3com/gateway/iox_to_transport.cpp\<close>)
  and their interleavings: the waitset thread (\<^verbatim>\<open>waitsetLoop\<close>), the thread that updates the channels
  (\<^verbatim>\<open>updateChannels\<close>, which holds \<^verbatim>\<open>endpointsMutex\<close> from its beginning to its end, so that at most one
  update is under way) and the transport threads that report a sent buffer
  (\<^verbatim>\<open>PendingMessageManager::release\<close>). They share two mutexes, the suspend flag, the waitset, the
  subscribers and the table of pending messages.

  A state holds the shared variables and the place where each thread is; an event is one atomic step
  of one thread, with the choices that the thread does not make itself: what the waitset and the
  subscriber return, how many devices a message goes to, what a transport layer answers. A thread
  that waits for a mutex or spins on a flag has no step until it can go on. How many threads the
  transports report from is a parameter: \<open>Some n\<close> for at most \<open>n\<close> calls of the callback under way at
  a time, \<open>None\<close> for no bound.
\<close>

section \<open>State\<close>

datatype i2t_thread = Waitset_Thread | Update_Thread | Sent_Thread

text \<open>
  The places of the waitset thread: the loop condition, before the lock of the waitset, in
  \<^verbatim>\<open>timedWait\<close>, spinning on the suspend flag, between two notifications, in \<^verbatim>\<open>take\<close>, with a chunk
  taken, in the loop over the devices of \<^verbatim>\<open>writeSegmented\<close>, with the chunk in the table of pending
  messages and the send under way, before and in \<^verbatim>\<open>subscriber.release\<close> with the place to go on at.
\<close>

datatype waitset_place =
    W_Head
  | W_Lock
  | W_Wait
  | W_Suspended "subscriber_ptr list"
  | W_Next "subscriber_ptr list"
  | W_Take subscriber_ptr "subscriber_ptr list"
  | W_Taken subscriber_ptr chunk_ptr "subscriber_ptr list"
  | W_Devices subscriber_ptr chunk_ptr nat "subscriber_ptr list"
  | W_Sending subscriber_ptr chunk_ptr nat "subscriber_ptr list"
  | W_Giving subscriber_ptr chunk_ptr waitset_place
  | W_Releasing subscriber_ptr chunk_ptr waitset_place
  | W_Exited

text \<open>
  The places of an update, with the subscribers still to be deleted and the number of channels
  still to be set up: \<^verbatim>\<open>deleteChannel\<close> with the flag set, with the waitset locked, detached but still
  locked, waiting for the pending messages; \<^verbatim>\<open>setupChannel\<close> with the flag set, with the waitset
  locked, attached but still locked.
\<close>

datatype update_place =
    U_Idle
  | U_Update "subscriber_ptr list" nat
  | U_Detach subscriber_ptr "subscriber_ptr list" nat
  | U_Detaching subscriber_ptr "subscriber_ptr list" nat
  | U_Detached subscriber_ptr "subscriber_ptr list" nat
  | U_Await subscriber_ptr "subscriber_ptr list" nat
  | U_Attach subscriber_ptr nat
  | U_Attaching subscriber_ptr nat
  | U_Attached nat

text \<open>
  The subscribers that exist are those the gateway owns. A call of the buffer-sent callback that has
  taken its message out of the table waits for \<^verbatim>\<open>endpointsMutex\<close>; the one that has it is releasing.
\<close>

record i2t_threads =
  th_suspendFlag :: bool
  th_terminateFlag :: bool
  th_waitsetMutex :: "i2t_thread option"
  th_endpointsMutex :: "i2t_thread option"
  th_attached :: "subscriber_ptr list"
  th_endpoints :: "subscriber_ptr list"
  th_pending :: pending_messages
  th_waitset :: waitset_place
  th_update :: update_place
  th_waiting :: "(subscriber_ptr \<times> chunk_ptr) list"
  th_releasing :: "(subscriber_ptr \<times> chunk_ptr) option"

definition i2t_start :: i2t_threads where
  "i2t_start = \<lparr>th_suspendFlag = False, th_terminateFlag = False, th_waitsetMutex = None, th_endpointsMutex = None,
     th_attached = [], th_endpoints = [], th_pending = vm_empty, th_waitset = W_Head, th_update = U_Idle,
     th_waiting = [], th_releasing = None\<rparr>"

section \<open>The waitset thread\<close>

text \<open>What the waitset thread is given: the results of the calls it makes at its present place.\<close>

record waitset_choice =
  notificationVector :: "subscriber_ptr list"
  userPayload :: "chunk_ptr option"
  deviceCount :: nat
  shouldBePending :: bool
  isPending :: bool

definition endpointsMutex_ptr :: mutex_ptr where
  "endpointsMutex_ptr = 0"

text \<open>One round of the loop over the devices, up to the send or the next wait for the mutex.\<close>

definition device_step ::
  "waitset_choice \<Rightarrow> subscriber_ptr \<Rightarrow> chunk_ptr \<Rightarrow> nat \<Rightarrow> subscriber_ptr list \<Rightarrow> i2t_threads \<Rightarrow> i2t_threads" where
  "device_step ch s c n ss x =
     (if shouldBePending ch
      then case pm_push (th_pending x) c endpointsMutex_ptr s of (m, pushed) \<Rightarrow>
             if pushed then x\<lparr>th_pending := m, th_waitset := W_Sending s c n ss\<rparr>
             else x\<lparr>th_waitset := W_Giving s c (W_Next ss)\<rparr>
      else if isPending ch then x\<lparr>th_waitset := W_Devices s c n ss\<rparr>
      else x\<lparr>th_waitset := W_Giving s c (W_Devices s c n ss)\<rparr>)"

text \<open>The send has returned; a message that was not sent after all is released at once.\<close>

definition sending_step ::
  "waitset_choice \<Rightarrow> subscriber_ptr \<Rightarrow> chunk_ptr \<Rightarrow> nat \<Rightarrow> subscriber_ptr list \<Rightarrow> i2t_threads \<Rightarrow> i2t_threads" where
  "sending_step ch s c n ss x =
     (if isPending ch then x\<lparr>th_waitset := W_Devices s c n ss\<rparr>
      else case pm_release (th_pending x) c of
             (m, None) \<Rightarrow> x\<lparr>th_pending := m, th_waitset := W_Devices s c n ss\<rparr>
           | (m, Some (s', c')) \<Rightarrow> x\<lparr>th_pending := m, th_waitset := W_Giving s' c' (W_Devices s c n ss)\<rparr>)"

definition lock_endpoints :: "i2t_thread \<Rightarrow> i2t_threads \<Rightarrow> i2t_threads option" where
  "lock_endpoints t x = (if th_endpointsMutex x = None then Some (x\<lparr>th_endpointsMutex := Some t\<rparr>) else None)"

definition lock_waitset :: "i2t_thread \<Rightarrow> i2t_threads \<Rightarrow> i2t_threads option" where
  "lock_waitset t x = (if th_waitsetMutex x = None then Some (x\<lparr>th_waitsetMutex := Some t\<rparr>) else None)"

definition waitset_step :: "waitset_choice \<Rightarrow> i2t_threads \<Rightarrow> i2t_threads option" where
  "waitset_step ch x =
     (case th_waitset x of
        W_Head \<Rightarrow> Some (x\<lparr>th_waitset := (if th_terminateFlag x then W_Exited else W_Lock)\<rparr>)
      | W_Lock \<Rightarrow> map_option (\<lambda>y. y\<lparr>th_waitset := W_Wait\<rparr>) (lock_waitset Waitset_Thread x)
      | W_Wait \<Rightarrow>
          (if distinct (notificationVector ch) \<and> set (notificationVector ch) \<subseteq> set (th_attached x)
           then Some (x\<lparr>th_waitsetMutex := None, th_waitset := W_Suspended (notificationVector ch)\<rparr>) else None)
      | W_Suspended ss \<Rightarrow> (if th_suspendFlag x then None else Some (x\<lparr>th_waitset := W_Next ss\<rparr>))
      | W_Next [] \<Rightarrow> Some (x\<lparr>th_waitset := W_Head\<rparr>)
      | W_Next (s # ss) \<Rightarrow> map_option (\<lambda>y. y\<lparr>th_waitset := W_Take s ss\<rparr>) (lock_endpoints Waitset_Thread x)
      | W_Take s ss \<Rightarrow>
          Some (x\<lparr>th_endpointsMutex := None,
                  th_waitset := (case userPayload ch of None \<Rightarrow> W_Next ss | Some c \<Rightarrow> W_Taken s c ss)\<rparr>)
      | W_Taken s c ss \<Rightarrow>
          Some (x\<lparr>th_waitset := (if deviceCount ch = 0 then W_Giving s c (W_Next ss) else W_Devices s c (deviceCount ch) ss)\<rparr>)
      | W_Devices s c n ss \<Rightarrow> Some (case n of 0 \<Rightarrow> x\<lparr>th_waitset := W_Next ss\<rparr> | Suc k \<Rightarrow> device_step ch s c k ss x)
      | W_Sending s c n ss \<Rightarrow> Some (sending_step ch s c n ss x)
      | W_Giving s c w \<Rightarrow> map_option (\<lambda>y. y\<lparr>th_waitset := W_Releasing s c w\<rparr>) (lock_endpoints Waitset_Thread x)
      | W_Releasing s c w \<Rightarrow> Some (x\<lparr>th_endpointsMutex := None, th_waitset := w\<rparr>)
      | W_Exited \<Rightarrow> None)"

section \<open>The update\<close>

text \<open>
  What an update is given: the subscribers of the services that are no longer needed, the number of
  services to set up, the subscriber constructed for the next one and whether it could be attached.
\<close>

record update_choice =
  toDelete :: "subscriber_ptr list"
  toSetup :: nat
  constructed :: subscriber_ptr
  attaches :: bool

definition update_step :: "update_choice \<Rightarrow> i2t_threads \<Rightarrow> i2t_threads option" where
  "update_step ch x =
     (case th_update x of
        U_Idle \<Rightarrow>
          (if distinct (toDelete ch) \<and> set (toDelete ch) \<subseteq> set (th_endpoints x)
           then map_option (\<lambda>y. y\<lparr>th_update := U_Update (toDelete ch) (toSetup ch)\<rparr>) (lock_endpoints Update_Thread x) else None)
      | U_Update (d # ds) k \<Rightarrow> Some (x\<lparr>th_suspendFlag := True, th_update := U_Detach d ds k\<rparr>)
      | U_Update [] (Suc k) \<Rightarrow>
          (if constructed ch \<in> set (th_endpoints x) then None
           else if MAX_TOPICS \<le> length (th_endpoints x) then Some (x\<lparr>th_update := U_Update [] k\<rparr>)
           else Some (x\<lparr>th_endpoints := th_endpoints x @ [constructed ch], th_suspendFlag := True,
                        th_update := U_Attach (constructed ch) k\<rparr>))
      | U_Update [] 0 \<Rightarrow> Some (x\<lparr>th_endpointsMutex := None, th_update := U_Idle\<rparr>)
      | U_Detach d ds k \<Rightarrow> map_option (\<lambda>y. y\<lparr>th_update := U_Detaching d ds k\<rparr>) (lock_waitset Update_Thread x)
      | U_Detaching d ds k \<Rightarrow>
          Some (x\<lparr>th_attached := removeAll d (th_attached x), th_suspendFlag := False, th_update := U_Detached d ds k\<rparr>)
      | U_Detached d ds k \<Rightarrow> Some (x\<lparr>th_waitsetMutex := None, th_update := U_Await d ds k\<rparr>)
      | U_Await d ds k \<Rightarrow>
          (if anyPending (th_pending x) d then None
           else Some (x\<lparr>th_endpoints := removeAll d (th_endpoints x), th_update := U_Update ds k\<rparr>))
      | U_Attach s k \<Rightarrow> map_option (\<lambda>y. y\<lparr>th_update := U_Attaching s k\<rparr>) (lock_waitset Update_Thread x)
      | U_Attaching s k \<Rightarrow>
          Some (x\<lparr>th_attached := (if attaches ch then th_attached x @ [s] else th_attached x), th_suspendFlag := False,
                  th_update := U_Attached k\<rparr>)
      | U_Attached k \<Rightarrow> Some (x\<lparr>th_waitsetMutex := None, th_update := U_Update [] k\<rparr>))"

section \<open>Reports of sent buffers and the whole\<close>

datatype sent_event = Report chunk_ptr | Lock_For subscriber_ptr chunk_ptr | Unlock

definition sent_step :: "nat option \<Rightarrow> sent_event \<Rightarrow> i2t_threads \<Rightarrow> i2t_threads option" where
  "sent_step reporters ev x =
     (case ev of
        Report c \<Rightarrow>
          (if case reporters of None \<Rightarrow> True | Some n \<Rightarrow> length (th_waiting x) + (if th_releasing x = None then 0 else 1) < n
           then case pm_release (th_pending x) c of
                  (m, None) \<Rightarrow> Some (x\<lparr>th_pending := m\<rparr>)
                | (m, Some r) \<Rightarrow> Some (x\<lparr>th_pending := m, th_waiting := th_waiting x @ [r]\<rparr>)
           else None)
      | Lock_For s c \<Rightarrow>
          (if (s, c) \<in> set (th_waiting x)
           then map_option (\<lambda>y. y\<lparr>th_waiting := remove1 (s, c) (th_waiting x), th_releasing := Some (s, c)\<rparr>) (lock_endpoints Sent_Thread x)
           else None)
      | Unlock \<Rightarrow> (if th_releasing x = None then None else Some (x\<lparr>th_endpointsMutex := None, th_releasing := None\<rparr>)))"

text \<open>\<^verbatim>\<open>join\<close> sets the terminate flag.\<close>

datatype i2t_event = By_Waitset waitset_choice | By_Update update_choice | By_Sent sent_event | Join

definition i2t_step :: "nat option \<Rightarrow> i2t_event \<Rightarrow> i2t_threads \<Rightarrow> i2t_threads option" where
  "i2t_step reporters ev x =
     (case ev of
        By_Waitset ch \<Rightarrow> waitset_step ch x
      | By_Update ch \<Rightarrow> update_step ch x
      | By_Sent e \<Rightarrow> sent_step reporters e x
      | Join \<Rightarrow> Some (x\<lparr>th_terminateFlag := True\<rparr>))"

section \<open>Mutual exclusion\<close>

text \<open>Which thread is using the waitset, and which is in a section that needs \<^verbatim>\<open>endpointsMutex\<close>.\<close>

fun takes_or_gives :: "waitset_place \<Rightarrow> bool" where
  "takes_or_gives (W_Take _ _) = True"
| "takes_or_gives (W_Releasing _ _ _) = True"
| "takes_or_gives _ = False"

fun alters_waitset :: "update_place \<Rightarrow> bool" where
  "alters_waitset (U_Detaching _ _ _) = True"
| "alters_waitset (U_Detached _ _ _) = True"
| "alters_waitset (U_Attaching _ _) = True"
| "alters_waitset (U_Attached _) = True"
| "alters_waitset _ = False"

fun in_waitset :: "i2t_thread \<Rightarrow> i2t_threads \<Rightarrow> bool" where
  "in_waitset Waitset_Thread x = (th_waitset x = W_Wait)"
| "in_waitset Update_Thread x = alters_waitset (th_update x)"
| "in_waitset Sent_Thread x = False"

fun in_endpoints :: "i2t_thread \<Rightarrow> i2t_threads \<Rightarrow> bool" where
  "in_endpoints Waitset_Thread x = takes_or_gives (th_waitset x)"
| "in_endpoints Update_Thread x = (th_update x \<noteq> U_Idle)"
| "in_endpoints Sent_Thread x = (th_releasing x \<noteq> None)"

text \<open>The update asks the waitset thread to stand back.\<close>

fun suspends :: "update_place \<Rightarrow> bool" where
  "suspends (U_Detach _ _ _) = True"
| "suspends (U_Detaching _ _ _) = True"
| "suspends (U_Attach _ _) = True"
| "suspends (U_Attaching _ _) = True"
| "suspends _ = False"

text \<open>After a release the waitset thread goes on with the devices or the notifications.\<close>

fun goes_on :: "waitset_place \<Rightarrow> bool" where
  "goes_on (W_Next _) = True"
| "goes_on (W_Devices _ _ _ _) = True"
| "goes_on _ = False"

fun returns :: "waitset_place \<Rightarrow> bool" where
  "returns (W_Giving _ _ w) = goes_on w"
| "returns (W_Releasing _ _ w) = goes_on w"
| "returns _ = True"

lemma goes_on_place: "goes_on w \<Longrightarrow> w \<noteq> W_Wait \<and> \<not> takes_or_gives w \<and> returns w"
  by (cases w rule: goes_on.cases) auto

definition locks_inv :: "i2t_threads \<Rightarrow> bool" where
  "locks_inv x \<longleftrightarrow> (\<forall>t. in_waitset t x \<longleftrightarrow> th_waitsetMutex x = Some t) \<and> (\<forall>t. in_endpoints t x \<longleftrightarrow> th_endpointsMutex x = Some t) \<and>
     (th_suspendFlag x \<longleftrightarrow> suspends (th_update x)) \<and> returns (th_waitset x)"

lemma all_threads: "(\<forall>t. P t) \<longleftrightarrow> P Waitset_Thread \<and> P Update_Thread \<and> P Sent_Thread"
  using i2t_thread.exhaust by metis

lemma locks_inv_start: "locks_inv i2t_start"
  by (simp add: locks_inv_def all_threads i2t_start_def)

lemmas locks_inv_iff = locks_inv_def [unfolded all_threads in_waitset.simps in_endpoints.simps]

lemma lock_endpoints_Some [simp]:
  "lock_endpoints t x = Some y \<longleftrightarrow> th_endpointsMutex x = None \<and> y = x\<lparr>th_endpointsMutex := Some t\<rparr>"
  by (auto simp: lock_endpoints_def)

lemma lock_waitset_Some [simp]:
  "lock_waitset t x = Some y \<longleftrightarrow> th_waitsetMutex x = None \<and> y = x\<lparr>th_waitsetMutex := Some t\<rparr>"
  by (auto simp: lock_waitset_def)

lemma device_step_fields [simp]:
  "th_suspendFlag (device_step ch s c n ss x) = th_suspendFlag x"
  "th_terminateFlag (device_step ch s c n ss x) = th_terminateFlag x"
  "th_waitsetMutex (device_step ch s c n ss x) = th_waitsetMutex x"
  "th_endpointsMutex (device_step ch s c n ss x) = th_endpointsMutex x"
  "th_attached (device_step ch s c n ss x) = th_attached x"
  "th_endpoints (device_step ch s c n ss x) = th_endpoints x"
  "th_update (device_step ch s c n ss x) = th_update x"
  "th_waiting (device_step ch s c n ss x) = th_waiting x"
  "th_releasing (device_step ch s c n ss x) = th_releasing x"
  by (simp_all add: device_step_def split: prod.split)

lemma sending_step_fields [simp]:
  "th_suspendFlag (sending_step ch s c n ss x) = th_suspendFlag x"
  "th_terminateFlag (sending_step ch s c n ss x) = th_terminateFlag x"
  "th_waitsetMutex (sending_step ch s c n ss x) = th_waitsetMutex x"
  "th_endpointsMutex (sending_step ch s c n ss x) = th_endpointsMutex x"
  "th_attached (sending_step ch s c n ss x) = th_attached x"
  "th_endpoints (sending_step ch s c n ss x) = th_endpoints x"
  "th_update (sending_step ch s c n ss x) = th_update x"
  "th_waiting (sending_step ch s c n ss x) = th_waiting x"
  "th_releasing (sending_step ch s c n ss x) = th_releasing x"
  by (simp_all add: sending_step_def split: prod.split option.split)

lemma device_step_place:
  "th_waitset (device_step ch s c n ss x) \<noteq> W_Wait \<and> \<not> takes_or_gives (th_waitset (device_step ch s c n ss x)) \<and>
     returns (th_waitset (device_step ch s c n ss x))"
  by (simp add: device_step_def split: prod.split)

lemma sending_step_place:
  "th_waitset (sending_step ch s c n ss x) \<noteq> W_Wait \<and> \<not> takes_or_gives (th_waitset (sending_step ch s c n ss x)) \<and>
     returns (th_waitset (sending_step ch s c n ss x))"
  by (simp add: sending_step_def split: prod.split option.split)

lemma waitset_step_locks:
  assumes "locks_inv x" "waitset_step ch x = Some y"
  shows "locks_inv y"
proof (cases "th_waitset x")
  case (W_Next ss)
  then show ?thesis using assms by (cases ss) (clarsimp simp: waitset_step_def locks_inv_iff)+
next
  case (W_Devices s c n ss)
  then show ?thesis using assms device_step_place by (cases n) (clarsimp simp: waitset_step_def locks_inv_iff)+
next
  case (W_Sending s c n ss)
  then show ?thesis using assms sending_step_place by (clarsimp simp: waitset_step_def locks_inv_iff)
next
  case (W_Releasing s c w)
  then show ?thesis using assms goes_on_place [of w] by (clarsimp simp: waitset_step_def locks_inv_iff)
qed (use assms in \<open>clarsimp simp: waitset_step_def locks_inv_iff split: if_splits option.split\<close>)+

lemma update_step_locks:
  assumes "locks_inv x" "update_step ch x = Some y"
  shows "locks_inv y"
proof (cases "th_update x")
  case (U_Update ds k)
  then show ?thesis using assms by (cases ds; cases k) (clarsimp simp: update_step_def locks_inv_iff split: if_splits)+
qed (use assms in \<open>clarsimp simp: update_step_def locks_inv_iff split: if_splits\<close>)+

lemma sent_step_locks:
  assumes "locks_inv x" "sent_step R e x = Some y"
  shows "locks_inv y"
proof (cases e)
  case (Report c)
  obtain m r where "pm_release (th_pending x) c = (m, r)" by fastforce
  then show ?thesis
    using assms Report by (cases r) (clarsimp simp: sent_step_def locks_inv_iff split: if_splits)+
qed (use assms in \<open>clarsimp simp: sent_step_def locks_inv_iff split: if_splits\<close>)+

lemma i2t_step_locks:
  assumes "locks_inv x" "i2t_step R ev x = Some y"
  shows "locks_inv y"
proof (cases ev)
  case Join
  then show ?thesis using assms by (clarsimp simp: i2t_step_def locks_inv_iff)
qed (use assms waitset_step_locks [OF assms(1)] update_step_locks [OF assms(1)] sent_step_locks [OF assms(1)] in \<open>simp add: i2t_step_def\<close>)+

section \<open>The subscribers in use exist\<close>

text \<open>The subscribers an update still has to delete, the detached one and the one it is setting up.\<close>

fun to_delete :: "update_place \<Rightarrow> subscriber_ptr list" where
  "to_delete (U_Update ds k) = ds"
| "to_delete (U_Detach d ds k) = d # ds"
| "to_delete (U_Detaching d ds k) = d # ds"
| "to_delete (U_Detached d ds k) = d # ds"
| "to_delete (U_Await d ds k) = d # ds"
| "to_delete _ = []"

fun is_detached :: "update_place \<Rightarrow> subscriber_ptr list" where
  "is_detached (U_Detached d ds k) = [d]"
| "is_detached (U_Await d ds k) = [d]"
| "is_detached _ = []"

fun set_up :: "update_place \<Rightarrow> subscriber_ptr list" where
  "set_up (U_Attach s k) = [s]"
| "set_up (U_Attaching s k) = [s]"
| "set_up _ = []"

definition data_inv :: "i2t_threads \<Rightarrow> bool" where
  "data_inv x \<longleftrightarrow> pm_invar (th_pending x) \<and> distinct (th_endpoints x) \<and> set (th_attached x) \<subseteq> set (th_endpoints x) \<and>
     distinct (to_delete (th_update x)) \<and> set (to_delete (th_update x)) \<subseteq> set (th_endpoints x) \<and>
     set (is_detached (th_update x)) \<inter> set (th_attached x) = {} \<and> set (set_up (th_update x)) \<subseteq> set (th_endpoints x)"

text \<open>
  The subscribers a thread has in its hands: the waitset thread the one it is working on and those
  still to come, a report the one it will release to. \<open>in_use\<close> are those on which a thread is just
  calling a method or whose chunk it is reading.
\<close>

fun noted :: "waitset_place \<Rightarrow> subscriber_ptr set" where
  "noted (W_Suspended ss) = set ss"
| "noted (W_Next ss) = set ss"
| "noted (W_Take s ss) = insert s (set ss)"
| "noted (W_Taken s c ss) = insert s (set ss)"
| "noted (W_Devices s c n ss) = insert s (set ss)"
| "noted (W_Sending s c n ss) = insert s (set ss)"
| "noted (W_Giving s c w) = insert s (noted w)"
| "noted (W_Releasing s c w) = insert s (noted w)"
| "noted _ = {}"

definition held :: "i2t_threads \<Rightarrow> subscriber_ptr set" where
  "held x = noted (th_waitset x) \<union> fst ` set (th_waiting x) \<union> fst ` set_option (th_releasing x)"

fun waitset_uses :: "waitset_place \<Rightarrow> subscriber_ptr set" where
  "waitset_uses (W_Take s ss) = {s}"
| "waitset_uses (W_Taken s c ss) = {s}"
| "waitset_uses (W_Devices s c n ss) = {s}"
| "waitset_uses (W_Sending s c n ss) = {s}"
| "waitset_uses (W_Releasing s c w) = {s}"
| "waitset_uses _ = {}"

definition in_use :: "i2t_threads \<Rightarrow> subscriber_ptr set" where
  "in_use x = waitset_uses (th_waitset x) \<union> fst ` set_option (th_releasing x) \<union> set (to_delete (th_update x)) \<union> set (set_up (th_update x))"

definition use_after_free :: "i2t_threads \<Rightarrow> bool" where
  "use_after_free x \<longleftrightarrow> \<not> in_use x \<subseteq> set (th_endpoints x)"

text \<open>A step that erases no subscriber a thread has in its hands.\<close>

definition clean_step :: "nat option \<Rightarrow> i2t_event \<Rightarrow> i2t_threads \<Rightarrow> i2t_threads option" where
  "clean_step reporters ev x =
     (case i2t_step reporters ev x of
        None \<Rightarrow> None
      | Some y \<Rightarrow> if (set (th_endpoints x) - set (th_endpoints y)) \<inter> held x = {} then Some y else None)"

definition pending_subscribers :: "i2t_threads \<Rightarrow> subscriber_ptr set" where
  "pending_subscribers x = ran (pm_abs (th_pending x))"

definition safe_inv :: "i2t_threads \<Rightarrow> bool" where
  "safe_inv x \<longleftrightarrow> data_inv x \<and> held x \<subseteq> set (th_endpoints x) \<and> pending_subscribers x \<subseteq> set (th_endpoints x)"

lemma waitset_uses_noted: "waitset_uses w \<subseteq> noted w"
  by (cases w) auto

lemma safe_inv_no_use_after_free: "safe_inv x \<Longrightarrow> \<not> use_after_free x"
  using waitset_uses_noted [of "th_waitset x"]
  by (auto simp: safe_inv_def use_after_free_def in_use_def held_def data_inv_def)

lemma pm_push_result:
  assumes "pm_invar m" "pm_push m c mx s = (m', pushed)"
  shows "pm_invar m'" "ran (pm_abs m') \<subseteq> insert s (ran (pm_abs m))"
  using pm_push_invar [OF assms(1), of c mx s] pm_push_abs(2) [OF assms(1), of c mx s] assms(2)
  by (auto simp: ran_def split: if_splits)

lemma pm_release_result:
  assumes "pm_invar m" "pm_release m c = (m', r)"
  shows "pm_invar m'" "ran (pm_abs m') \<subseteq> ran (pm_abs m)" "pm_abs m' = (pm_abs m)(c := None)" "r = map_option (\<lambda>s. (s, c)) (pm_abs m c)"
  using pm_release_invar [OF assms(1), of c] pm_release_abs [OF assms(1), of c] pm_release_eq [OF assms(1), of c] assms(2)
  by (auto simp: ran_def)

lemmas safe_simps = safe_inv_def data_inv_def held_def pending_subscribers_def

lemma safe_inv_pm: "safe_inv x \<Longrightarrow> pm_invar (th_pending x)"
  by (simp add: safe_simps)

lemma device_step_safe:
  assumes "safe_inv x" "th_waitset x = W_Devices s c (Suc n) ss"
  shows "safe_inv (device_step ch s c n ss x)"
proof -
  obtain m p where push: "pm_push (th_pending x) c endpointsMutex_ptr s = (m, p)" by fastforce
  have E: "insert s (ran (pm_abs (th_pending x))) \<subseteq> set (th_endpoints x)" using assms by (simp add: safe_simps)
  have m: "pm_invar m" "ran (pm_abs m) \<subseteq> set (th_endpoints x)"
    using pm_push_result [OF safe_inv_pm [OF assms(1)] push] E by blast+
  then show ?thesis
    using assms by (simp add: device_step_def push safe_simps)
qed

lemma released_exists:
  assumes "safe_inv x" "pm_release (th_pending x) c = (m, r)"
  shows "pm_invar m" "ran (pm_abs m) \<subseteq> set (th_endpoints x)" "fst ` set_option r \<subseteq> set (th_endpoints x)"
proof -
  have E: "ran (pm_abs (th_pending x)) \<subseteq> set (th_endpoints x)" using assms by (simp add: safe_simps)
  note m = pm_release_result [OF safe_inv_pm [OF assms(1)] assms(2)]
  show "pm_invar m" "ran (pm_abs m) \<subseteq> set (th_endpoints x)" using m(1,2) E by blast+
  show "fst ` set_option r \<subseteq> set (th_endpoints x)" using E unfolding m(4) by (auto simp: ran_def)
qed

lemma sending_step_safe:
  assumes "safe_inv x" "th_waitset x = W_Sending s c n ss"
  shows "safe_inv (sending_step ch s c n ss x)"
proof -
  obtain m r where rel: "pm_release (th_pending x) c = (m, r)" by fastforce
  note m = released_exists [OF assms(1) rel]
  show ?thesis
    using assms m by (cases r) (clarsimp simp: sending_step_def rel safe_simps)+
qed

lemma waitset_step_safe:
  assumes "safe_inv x" "waitset_step ch x = Some y"
  shows "safe_inv y"
proof (cases "th_waitset x")
  case W_Wait
  then have "set (notificationVector ch) \<subseteq> set (th_attached x)"
    and y: "y = x\<lparr>th_waitsetMutex := None, th_waitset := W_Suspended (notificationVector ch)\<rparr>"
    using assms(2) by (auto simp: waitset_step_def split: if_splits)
  then have "set (notificationVector ch) \<subseteq> set (th_endpoints x)" using assms(1) by (auto simp: safe_simps)
  then show ?thesis using assms(1) y by (simp add: safe_simps)
next
  case (W_Next ss)
  then show ?thesis using assms by (cases ss) (clarsimp simp: waitset_step_def safe_simps)+
next
  case (W_Devices s c n ss)
  show ?thesis
  proof (cases n)
    case (Suc k)
    then show ?thesis using assms W_Devices device_step_safe [OF assms(1), of s c k ss ch] by (simp add: waitset_step_def)
  qed (use assms W_Devices in \<open>clarsimp simp: waitset_step_def safe_simps\<close>)
next
  case (W_Sending s c n ss)
  then show ?thesis using assms sending_step_safe [OF assms(1) W_Sending, of ch] by (simp add: waitset_step_def)
qed (use assms in \<open>clarsimp simp: waitset_step_def safe_simps split: if_splits option.split\<close>)+

lemma update_step_safe:
  assumes "safe_inv x" "update_step ch x = Some y" "(set (th_endpoints x) - set (th_endpoints y)) \<inter> held x = {}"
  shows "safe_inv y"
proof (cases "th_update x")
  case (U_Update ds k)
  then show ?thesis
    using assms by (cases ds; cases k) (clarsimp simp: update_step_def safe_simps le_supI1 subset_insertI2 split: if_splits)+
next
  case (U_Await d ds k)
  then have "\<not> anyPending (th_pending x) d" and y: "y = x\<lparr>th_endpoints := removeAll d (th_endpoints x), th_update := U_Update ds k\<rparr>"
    using assms(2) by (auto simp: update_step_def split: if_splits)
  then have "d \<notin> pending_subscribers x"
    using assms(1) anyPending_iff [OF safe_inv_pm [OF assms(1)]] by (auto simp: pending_subscribers_def ran_def)
  moreover have "d \<in> set (th_endpoints x)" using assms(1) U_Await by (simp add: safe_simps)
  moreover from this have "d \<notin> held x" using assms(3) unfolding y by auto
  ultimately have "held x \<subseteq> set (th_endpoints x) - {d}" "pending_subscribers x \<subseteq> set (th_endpoints x) - {d}"
    using assms(1) unfolding safe_inv_def by blast+
  moreover have "data_inv y" using assms(1) U_Await unfolding y by (auto simp: safe_inv_def data_inv_def distinct_removeAll)
  ultimately show ?thesis unfolding y by (simp add: safe_inv_def held_def pending_subscribers_def)
qed (use assms in \<open>clarsimp simp: update_step_def safe_simps split: if_splits; auto\<close>)+

lemma sent_step_safe:
  assumes "safe_inv x" "sent_step R e x = Some y"
  shows "safe_inv y"
proof (cases e)
  case (Report c)
  obtain m r where rel: "pm_release (th_pending x) c = (m, r)" by fastforce
  note m = released_exists [OF assms(1) rel]
  show ?thesis
    using assms Report rel m by (cases r) (clarsimp simp: sent_step_def safe_simps split: if_splits)+
next
  case (Lock_For s c)
  then have "y = x\<lparr>th_endpointsMutex := Some Sent_Thread, th_waiting := remove1 (s, c) (th_waiting x), th_releasing := Some (s, c)\<rparr>"
    "(s, c) \<in> set (th_waiting x)"
    using assms(2) by (auto simp: sent_step_def split: if_splits)
  then show ?thesis
    using assms(1) set_remove1_subset [of "(s, c)" "th_waiting x"] by (auto simp: safe_simps image_subset_iff)
next
  case Unlock
  then show ?thesis using assms by (clarsimp simp: sent_step_def safe_simps split: if_splits)
qed

lemma clean_step_safe:
  assumes "safe_inv x" "clean_step R ev x = Some y"
  shows "safe_inv y"
proof -
  have ev: "i2t_step R ev x = Some y" and clean: "(set (th_endpoints x) - set (th_endpoints y)) \<inter> held x = {}"
    using assms(2) by (auto simp: clean_step_def split: option.splits if_splits)
  show ?thesis
  proof (cases ev)
    case (By_Update ch)
    then show ?thesis using ev clean update_step_safe [OF assms(1)] by (simp add: i2t_step_def)
  next
    case Join
    then show ?thesis using ev assms(1) by (clarsimp simp: i2t_step_def safe_simps)
  qed (use ev waitset_step_safe [OF assms(1)] sent_step_safe [OF assms(1)] in \<open>simp add: i2t_step_def\<close>)+
qed

section \<open>The data of the threads\<close>

text \<open>Without the condition on the erased subscribers the tables stay consistent with each other.\<close>

lemma waitset_step_data:
  assumes "data_inv x" "waitset_step ch x = Some y"
  shows "data_inv y"
proof (cases "th_waitset x")
  case (W_Next ss)
  then show ?thesis using assms by (cases ss) (clarsimp simp: waitset_step_def data_inv_def)+
next
  case (W_Devices s c n ss)
  show ?thesis
  proof (cases n)
    case (Suc k)
    obtain m p where push: "pm_push (th_pending x) c endpointsMutex_ptr s = (m, p)" by fastforce
    have "pm_invar m" using pm_push_result(1) [OF _ push] assms(1) by (simp add: data_inv_def)
    then show ?thesis using assms W_Devices Suc by (clarsimp simp: waitset_step_def data_inv_def) (simp add: device_step_def push)
  qed (use assms W_Devices in \<open>clarsimp simp: waitset_step_def data_inv_def\<close>)
next
  case (W_Sending s c n ss)
  obtain m r where rel: "pm_release (th_pending x) c = (m, r)" by fastforce
  have "pm_invar m" using pm_release_result(1) [OF _ rel] assms(1) by (simp add: data_inv_def)
  then show ?thesis
    using assms W_Sending by (cases r) (clarsimp simp: waitset_step_def data_inv_def, simp add: sending_step_def rel)+
qed (use assms in \<open>clarsimp simp: waitset_step_def data_inv_def split: if_splits option.split\<close>)+

lemma update_step_data:
  assumes "data_inv x" "update_step ch x = Some y"
  shows "data_inv y"
proof (cases "th_update x")
  case (U_Update ds k)
  then show ?thesis
    using assms by (cases ds; cases k) (clarsimp simp: update_step_def data_inv_def le_supI1 subset_insertI2 split: if_splits)+
qed (use assms in \<open>clarsimp simp: update_step_def data_inv_def split: if_splits; auto simp: distinct_removeAll\<close>)+

lemma sent_step_data:
  assumes "data_inv x" "sent_step R e x = Some y"
  shows "data_inv y"
proof (cases e)
  case (Report c)
  obtain m r where rel: "pm_release (th_pending x) c = (m, r)" by fastforce
  have "pm_invar m" using pm_release_result(1) [OF _ rel] assms(1) by (simp add: data_inv_def)
  then show ?thesis
    using assms Report rel by (cases r) (clarsimp simp: sent_step_def data_inv_def split: if_splits)+
qed (use assms in \<open>clarsimp simp: sent_step_def data_inv_def split: if_splits\<close>)+

lemma i2t_step_data:
  assumes "data_inv x" "i2t_step R ev x = Some y"
  shows "data_inv y"
proof (cases ev)
  case Join
  then show ?thesis using assms by (clarsimp simp: i2t_step_def data_inv_def)
qed (use assms waitset_step_data [OF assms(1)] update_step_data [OF assms(1)] sent_step_data [OF assms(1)] in \<open>simp add: i2t_step_def\<close>)+

definition threads_inv :: "i2t_threads \<Rightarrow> bool" where
  "threads_inv x \<longleftrightarrow> locks_inv x \<and> data_inv x"

lemma safe_inv_start: "safe_inv i2t_start"
  using pm_invar_empty by (simp add: safe_simps i2t_start_def pm_abs_def [abs_def] vm.lookup_empty)

lemma threads_inv_start: "threads_inv i2t_start"
  using safe_inv_start locks_inv_start by (simp add: threads_inv_def safe_inv_def)

interpretation threads: step_invariant "i2t_step R" threads_inv for R
  by unfold_locales (use i2t_step_locks i2t_step_data in \<open>auto simp: threads_inv_def\<close>)

interpretation clean: step_invariant "clean_step R" safe_inv for R
  by unfold_locales (rule clean_step_safe)

lemma reachable_inv: "reaches (i2t_step R) i2t_start x \<Longrightarrow> threads_inv x"
  by (rule threads.reaches_keeps [OF _ threads_inv_start])

lemma clean_reachable: "reaches (clean_step R) i2t_start x \<Longrightarrow> safe_inv x"
  by (rule clean.reaches_keeps [OF _ safe_inv_start])

section \<open>Runs\<close>

text \<open>The events of the runs below: one channel, whose messages go to one layer that sends them later.\<close>

definition pends :: "chunk_ptr \<Rightarrow> i2t_event" where
  "pends c = By_Waitset \<lparr>notificationVector = [1], userPayload = Some c, deviceCount = 1, shouldBePending = True, isPending = True\<rparr>"

definition updates :: "subscriber_ptr list \<Rightarrow> nat \<Rightarrow> i2t_event" where
  "updates ds k = By_Update \<lparr>toDelete = ds, toSetup = k, constructed = 1, attaches = True\<rparr>"

text \<open>Set the channel up; be notified of it; take a chunk and send it; delete the channel.\<close>

definition channel_up :: "i2t_event list" where
  "channel_up = replicate 6 (updates [] 1)"

definition channel_notified :: "i2t_event list" where
  "channel_notified = replicate 4 (pends 7)"

definition message_sent :: "chunk_ptr \<Rightarrow> i2t_event list" where
  "message_sent c = replicate 6 (pends c)"

definition channel_down :: "i2t_event list" where
  "channel_down = replicate 7 (updates [1] 0)"

section \<open>Properties\<close>



text \<open>
  C13. What the code's own wait protects: as long as an update erases no subscriber that is in the
  notifications at hand or that a report is about to release to, no thread ever uses a subscriber that
  no longer exists, and the subscriber of every pending message exists.
\<close>

theorem clean_runs_safe:
  assumes "reaches (clean_step R) i2t_start x"
  shows "\<not> use_after_free x \<and> pending_subscribers x \<subseteq> set (th_endpoints x)"
  using safe_inv_no_use_after_free clean_reachable [OF assms] by (simp add: safe_inv_def)

theorem clean_runs_safe_witness:
  "\<exists>x. run_events (clean_step (Some 1)) (channel_up @ channel_notified @ message_sent 7 @ [By_Sent (Report 7), By_Sent (Lock_For 1 7)]) i2t_start
     = Some x \<and> th_releasing x = Some (1, 7) \<and> \<not> use_after_free x"
proof -
  let ?evs = "channel_up @ channel_notified @ message_sent 7 @ [By_Sent (Report 7), By_Sent (Lock_For 1 7)]"
  have "map_option th_releasing (run_events (clean_step (Some 1)) ?evs i2t_start) = Some (Some (1, 7))" by code_simp
  then obtain x where x: "run_events (clean_step (Some 1)) ?evs i2t_start = Some x" "th_releasing x = Some (1, 7)" by auto
  then show ?thesis using clean_runs_safe [OF run_events_reaches [OF x(1)]] by auto
qed

text \<open>
  C38. Nothing enforces that condition: the waitset thread leaves \<^verbatim>\<open>timedWait\<close> with a notification, the
  update detaches and destroys the subscriber before it looks at it, and it calls \<^verbatim>\<open>take\<close> on an object that
  no longer exists; and a report takes its message out of the table before it asks for
  \<^verbatim>\<open>endpointsMutex\<close>, so that the update sees nothing pending, destroys the subscriber, and the report
  releases the chunk to it afterwards.
\<close>

theorem deletion_races:
  "(\<exists>x. reaches (i2t_step R) i2t_start x \<and> th_waitset x = W_Take 1 [] \<and> th_endpoints x = [] \<and> use_after_free x) \<and>
   (\<exists>x. reaches (i2t_step (Some 1)) i2t_start x \<and> th_releasing x = Some (1, 7) \<and> th_endpoints x = [] \<and> use_after_free x)"
proof
  have "map_option (\<lambda>x. (th_waitset x, th_endpoints x)) (run_events (i2t_step R) (channel_up @ channel_notified @ channel_down @ [pends 7]) i2t_start)
      = Some (W_Take 1 [], [])" by code_simp
  then obtain x where "run_events (i2t_step R) (channel_up @ channel_notified @ channel_down @ [pends 7]) i2t_start = Some x"
    "th_waitset x = W_Take 1 []" "th_endpoints x = []" by auto
  then show "\<exists>x. reaches (i2t_step R) i2t_start x \<and> th_waitset x = W_Take 1 [] \<and> th_endpoints x = [] \<and> use_after_free x"
    using run_events_reaches by (fastforce simp: use_after_free_def in_use_def)
next
  let ?evs = "channel_up @ channel_notified @ message_sent 7 @ By_Sent (Report 7) # channel_down @ [By_Sent (Lock_For 1 7)]"
  have "map_option (\<lambda>x. (th_releasing x, th_endpoints x)) (run_events (i2t_step (Some 1)) ?evs i2t_start) = Some (Some (1, 7), [])" by code_simp
  then obtain x where "run_events (i2t_step (Some 1)) ?evs i2t_start = Some x" "th_releasing x = Some (1, 7)" "th_endpoints x = []" by auto
  then show "\<exists>x. reaches (i2t_step (Some 1)) i2t_start x \<and> th_releasing x = Some (1, 7) \<and> th_endpoints x = [] \<and> use_after_free x"
    using run_events_reaches by (fastforce simp: use_after_free_def in_use_def)
qed

end
