(* ===== verification/WaitsetProgress.thy ===== *)
theory WaitsetProgress
  imports WaitsetThreads
begin

text \<open>
  Progress of the threads of \<^verbatim>\<open>Iceoryx2Transport\<close>: from every reachable state the update under way can be
  completed when the reports of sent buffers are not bound to a single thread, and cannot always when they are.
\<close>

section \<open>An update can always be completed\<close>

text \<open>
  A measure of the work left: the steps of the update, of the waitset thread up to the head of its
  loop, the pending messages and the reports under way.
\<close>

fun update_work :: "update_place \<Rightarrow> nat" where
  "update_work U_Idle = 0"
| "update_work (U_Update ds k) = 1 + 5 * length ds + 4 * k"
| "update_work (U_Detach d ds k) = 5 + 5 * length ds + 4 * k"
| "update_work (U_Detaching d ds k) = 4 + 5 * length ds + 4 * k"
| "update_work (U_Detached d ds k) = 3 + 5 * length ds + 4 * k"
| "update_work (U_Await d ds k) = 2 + 5 * length ds + 4 * k"
| "update_work (U_Attach s k) = 4 + 4 * k"
| "update_work (U_Attaching s k) = 3 + 4 * k"
| "update_work (U_Attached k) = 2 + 4 * k"

fun waitset_work :: "waitset_place \<Rightarrow> nat" where
  "waitset_work W_Lock = 4"
| "waitset_work W_Wait = 3"
| "waitset_work (W_Suspended ss) = 2 + 2 * length ss"
| "waitset_work (W_Next ss) = 1 + 2 * length ss"
| "waitset_work (W_Take s ss) = 2 + 2 * length ss"
| "waitset_work (W_Taken s c ss) = 4 + 2 * length ss"
| "waitset_work (W_Devices s c n ss) = 2 + 2 * length ss + 3 * n"
| "waitset_work (W_Sending s c n ss) = 3 + 2 * length ss + 3 * n"
| "waitset_work (W_Giving s c w) = 2 + waitset_work w"
| "waitset_work (W_Releasing s c w) = 1 + waitset_work w"
| "waitset_work _ = 0"

definition work :: "i2t_threads \<Rightarrow> nat" where
  "work x = update_work (th_update x) + waitset_work (th_waitset x) + 3 * card (dom (pm_abs (th_pending x))) +
     2 * length (th_waiting x) + (if th_releasing x = None then 0 else 1)"

text \<open>No thread is in the middle of something.\<close>

definition at_rest :: "i2t_threads \<Rightarrow> bool" where
  "at_rest x \<longleftrightarrow> th_update x = U_Idle \<and> th_waitset x \<in> {W_Head, W_Exited} \<and> th_waiting x = [] \<and> th_releasing x = None"

definition quiet_choice :: waitset_choice where
  "quiet_choice = \<lparr>notificationVector = [], userPayload = None, deviceCount = 0, shouldBePending = False, isPending = False\<rparr>"

lemma pm_abs_finite: "pm_invar m \<Longrightarrow> finite (dom (pm_abs m))"
  by (rule finite_subset [of _ "dom (vm_lookup m)"]) (auto simp: pm_abs_def pm_invar_def vm_invar_def vm_dom)

text \<open>A step that leaves less work.\<close>

definition lowers :: "i2t_threads option \<Rightarrow> i2t_threads \<Rightarrow> bool" where
  "lowers r x = (case r of None \<Rightarrow> False | Some y \<Rightarrow> work y < work x)"

definition advances :: "nat option \<Rightarrow> i2t_threads \<Rightarrow> bool" where
  "advances R x \<longleftrightarrow> (\<exists>ev. lowers (i2t_step R ev x) x)"

lemma lowers_Some [simp]: "lowers (Some y) x \<longleftrightarrow> work y < work x"
  by (simp add: lowers_def)

lemma advances_steps: "advances R x \<Longrightarrow> \<exists>ev y. i2t_step R ev x = Some y \<and> work y < work x"
  by (auto simp: advances_def lowers_def split: option.splits)

lemma advances_by:
  "lowers (waitset_step ch x) x \<Longrightarrow> advances R x"
  "lowers (update_step uch x) x \<Longrightarrow> advances R x"
  "lowers (sent_step R e x) x \<Longrightarrow> advances R x"
  unfolding advances_def
    apply (rule exI [of _ "By_Waitset ch"], simp add: i2t_step_def)
   apply (rule exI [of _ "By_Update uch"], simp add: i2t_step_def)
  apply (rule exI [of _ "By_Sent e"], simp add: i2t_step_def)
  done

lemma waitset_leaves:
  assumes "threads_inv x" "\<not> alters_waitset (th_update x)" "th_waitsetMutex x \<noteq> None"
  shows "advances R x"
proof -
  obtain t where t: "th_waitsetMutex x = Some t" using assms(3) by blast
  have "th_waitset x = W_Wait" using assms(1,2) t by (cases t) (auto simp: threads_inv_def locks_inv_iff)
  then show ?thesis
    by (intro advances_by(1) [of quiet_choice]) (simp add: waitset_step_def quiet_choice_def work_def)
qed

lemma report_advances:
  assumes "data_inv x" "anyPending (th_pending x) d"
  shows "advances None x"
proof -
  have inv: "pm_invar (th_pending x)" using assms(1) by (simp add: data_inv_def)
  obtain c where c: "pm_abs (th_pending x) c = Some d" using anyPending_iff [OF inv] assms(2) by blast
  obtain m r where rel: "pm_release (th_pending x) c = (m, r)" by fastforce
  note m = pm_release_result [OF inv rel]
  have "card (dom (pm_abs m)) < card (dom (pm_abs (th_pending x)))"
    using pm_abs_finite [OF inv] c unfolding m(3) by (intro psubset_card_mono) auto
  then show ?thesis
    using m(4) c by (intro advances_by(3) [of _ "Report c"]) (simp add: sent_step_def rel work_def)
qed

lemma update_advances:
  assumes "threads_inv x" "th_update x \<noteq> U_Idle"
  shows "advances None x"
proof -
  obtain s where fresh: "s \<notin> set (th_endpoints x)" using ex_new_if_finite [OF infinite_UNIV_nat] by blast
  let ?ch = "\<lparr>toDelete = [], toSetup = 0, constructed = s, attaches = True\<rparr>"
  note go = advances_by(2) [of ?ch]
  show ?thesis
  proof (cases "th_update x")
    case (U_Update ds k)
    then show ?thesis using fresh by (cases ds; cases k) (rule go, simp add: update_step_def work_def)+
  next
    case (U_Detach d ds k)
    then show ?thesis using waitset_leaves [OF assms(1), of None]
      by (cases "th_waitsetMutex x") (rule go, simp add: update_step_def work_def lock_waitset_def, simp)
  next
    case (U_Attach d k)
    then show ?thesis using waitset_leaves [OF assms(1), of None]
      by (cases "th_waitsetMutex x") (rule go, simp add: update_step_def work_def lock_waitset_def, simp)
  next
    case (U_Await d ds k)
    show ?thesis
    proof (cases "anyPending (th_pending x) d")
      case True
      then show ?thesis using report_advances assms(1) by (simp add: threads_inv_def)
    next
      case False
      then show ?thesis using U_Await by (intro go) (simp add: update_step_def work_def)
    qed
  qed (use assms(2) in \<open>simp add: update_step_def work_def go\<close>)+
qed

lemma waitset_advances:
  assumes "threads_inv x" "th_update x = U_Idle" "th_releasing x = None" "th_waitset x \<notin> {W_Head, W_Exited}"
  shows "advances R x"
proof -
  note go = advances_by(1) [of quiet_choice]
  have none: "m = None" if "m \<noteq> Some Waitset_Thread" "m \<noteq> Some Update_Thread" "m \<noteq> Some Sent_Thread" for m
    using that i2t_thread.exhaust by (cases m) auto
  have inv: "locks_inv x" using assms(1) by (simp add: threads_inv_def)
  have free: "\<not> takes_or_gives (th_waitset x) \<Longrightarrow> th_endpointsMutex x = None" "th_waitset x \<noteq> W_Wait \<Longrightarrow> th_waitsetMutex x = None"
    "\<not> th_suspendFlag x"
    using inv assms(2,3) by (simp_all add: locks_inv_iff none)
  note defs = waitset_step_def work_def lock_endpoints_def lock_waitset_def quiet_choice_def
  show ?thesis
  proof (cases "th_waitset x")
    case (W_Next ss)
    then show ?thesis using free by (cases ss) (rule go, simp add: defs)+
  next
    case (W_Devices s c n ss)
    then show ?thesis by (cases n) (rule go, simp add: defs device_step_def)+
  next
    case (W_Sending s c n ss)
    then show ?thesis by (intro advances_by(1) [of "quiet_choice\<lparr>isPending := True\<rparr>"]) (simp add: defs sending_step_def)
  qed (use assms(4) free in \<open>simp add: defs go\<close>)+
qed

lemma rest_advances:
  assumes "threads_inv x" "\<not> at_rest x"
  shows "advances None x"
proof (cases "th_update x = U_Idle \<and> th_releasing x = None")
  case idle: True
  show ?thesis
  proof (cases "th_waitset x \<in> {W_Head, W_Exited}")
    case True
    then obtain s c rs where w: "th_waiting x = (s, c) # rs"
      using assms(2) idle by (cases "th_waiting x") (auto simp: at_rest_def)
    have "th_endpointsMutex x \<noteq> Some t" for t
      using assms(1) True idle by (cases t) (auto simp: threads_inv_def locks_inv_iff)
    then have "th_endpointsMutex x = None" by (cases "th_endpointsMutex x") auto
    then show ?thesis
      using w idle by (intro advances_by(3) [of _ "Lock_For s c"]) (simp add: sent_step_def lock_endpoints_def work_def)
  next
    case False
    then show ?thesis using waitset_advances [OF assms(1)] idle by blast
  qed
next
  case False
  then show ?thesis
    using update_advances [OF assms(1)] by (cases "th_releasing x = None")
      (auto intro!: advances_by(3) [of _ Unlock] simp: sent_step_def work_def)
qed

interpretation finishing: progressing "i2t_step None" threads_inv at_rest work
  by unfold_locales (rule advances_steps [OF rest_advances])

section \<open>Waiting for a report that waits\<close>

text \<open>Places at which the waitset thread has no chunk and needs no answer of a transport.\<close>

fun between :: "waitset_place \<Rightarrow> bool" where
  "between W_Head = True"
| "between W_Lock = True"
| "between W_Wait = True"
| "between (W_Suspended ss) = True"
| "between (W_Next ss) = True"
| "between W_Exited = True"
| "between _ = False"

definition stuck :: "nat \<Rightarrow> subscriber_ptr \<Rightarrow> subscriber_ptr list \<Rightarrow> nat \<Rightarrow> i2t_threads \<Rightarrow> bool" where
  "stuck n d ds k x \<longleftrightarrow> th_update x = U_Await d ds k \<and> anyPending (th_pending x) d \<and> n \<le> length (th_waiting x) \<and>
     th_releasing x = None \<and> th_endpointsMutex x = Some Update_Thread \<and> between (th_waitset x)"

lemma stuck_step:
  assumes "stuck n d ds k x" "i2t_step (Some n) ev x = Some y"
  shows "stuck n d ds k y"
proof (cases ev)
  case (By_Waitset ch)
  then show ?thesis
  proof (cases "th_waitset x")
    case (W_Next ss)
    then show ?thesis using assms By_Waitset by (cases ss) (auto simp: stuck_def i2t_step_def waitset_step_def)
  qed (use assms By_Waitset in \<open>auto simp: stuck_def i2t_step_def waitset_step_def split: if_splits\<close>)
next
  case (By_Sent e)
  then show ?thesis using assms by (cases e) (auto simp: stuck_def i2t_step_def sent_step_def split: if_splits)
qed (use assms in \<open>auto simp: stuck_def i2t_step_def update_step_def\<close>)

interpretation stuck: step_invariant "i2t_step (Some n)" "stuck n d ds k" for n d ds k
  by unfold_locales (rule stuck_step)

section \<open>Properties\<close>

text \<open>
  C12. Nothing gets stuck for good, if the transports report every pending message from a thread
  that is free to do so: whatever the threads have done so far, the update under way can be completed,
  every report released and the waitset thread brought back to the head of its loop. In particular
  the lock order \<^verbatim>\<open>endpointsMutex\<close> before \<^verbatim>\<open>m_waitsetMutex\<close>, the suspend flag and the wait for pending
  messages under \<^verbatim>\<open>endpointsMutex\<close> do not block each other.
\<close>

theorem update_can_finish:
  assumes "reaches (i2t_step None) i2t_start x"
  shows "\<exists>y. reaches (i2t_step None) x y \<and> at_rest y"
  by (rule finishing.comes_to_rest [OF reachable_inv [OF assms]])

theorem update_can_finish_witness:
  "\<exists>x y. run_events (i2t_step None) (channel_up @ channel_notified @ message_sent 7 @ take 5 channel_down) i2t_start = Some x \<and>
    th_update x = U_Await 1 [] 0 \<and> anyPending (th_pending x) 1 \<and> reaches (i2t_step None) x y \<and> th_update y = U_Idle"
proof -
  have "map_option (\<lambda>x. (th_update x, anyPending (th_pending x) 1))
      (run_events (i2t_step None) (channel_up @ channel_notified @ message_sent 7 @ take 5 channel_down) i2t_start) = Some (U_Await 1 [] 0, True)"
    by code_simp
  then obtain x where x: "run_events (i2t_step None) (channel_up @ channel_notified @ message_sent 7 @ take 5 channel_down) i2t_start = Some x"
    "th_update x = U_Await 1 [] 0" "anyPending (th_pending x) 1"
    by auto
  then show ?thesis
    using update_can_finish [OF run_events_reaches [OF x(1)]] by (auto simp: at_rest_def)
qed


end
