(* ===== verification/LockOrder.thy ===== *)
theory LockOrder
  imports Transport Runs
begin

text \<open>
  The mutexes of the whole gateway. Every lock in the sources is a \<^verbatim>\<open>std::lock_guard\<close>, so what a function
  does with mutexes is a scoped program: which it locks, in which order and what it calls meanwhile. The
  first part gives such programs a semantics in which any number of threads interleave, and a check of
  one program at a time, that mutexes are locked in the order of a rank, after which every thread can always
  finish. The second part writes down the lock programs of the functions of the gateway and of its
  threads, branches and loops being left open, and checks them.
\<close>

section \<open>Lock programs\<close>

text \<open>
  The mutexes: of the TCP layer's session table, of the discovery manager (recursive), of the endpoints of
  \<^verbatim>\<open>Transport2Iceoryx\<close> and of \<^verbatim>\<open>Iceoryx2Transport\<close>, of the segmented messages, the messages to forward, the
  forwarder's subscribers, the pending messages, the waitset of \<^verbatim>\<open>Iceoryx2Transport\<close> and the UDP socket.
\<close>

datatype gw_mutex =
    TransportSessions
  | Discovery
  | PublisherEndpoints
  | SubscriberEndpoints
  | SegmentedMessages
  | MessagesToForward
  | ForwardedSubscribers
  | PendingMessages
  | Waitset
  | DataSocket

fun recursive_mutex :: "gw_mutex \<Rightarrow> bool" where
  "recursive_mutex Discovery = True"
| "recursive_mutex _ = False"

fun rank :: "gw_mutex \<Rightarrow> nat" where
  "rank TransportSessions = 0"
| "rank Discovery = 1"
| "rank PublisherEndpoints = 2"
| "rank SubscriberEndpoints = 2"
| "rank _ = 3"

datatype lock_prog =
    Skip
  | Seq lock_prog lock_prog
  | Choice lock_prog lock_prog
  | Loop lock_prog
  | Locked gw_mutex lock_prog

text \<open>What a thread still has to do; \<open>Unlock\<close> is the end of the scope of a guard.\<close>

datatype task = Do lock_prog | Unlock gw_mutex

type_synonym stack = "task list"

fun holds :: "stack \<Rightarrow> gw_mutex list" where
  "holds [] = []"
| "holds (Do p # k) = holds k"
| "holds (Unlock m # k) = m # holds k"

text \<open>Whether thread \<open>i\<close> may lock the mutex: nobody else has it, and if it has it itself it is recursive.\<close>

definition lockable :: "nat \<Rightarrow> gw_mutex \<Rightarrow> stack list \<Rightarrow> bool" where
  "lockable i m ts \<longleftrightarrow> (\<forall>j < length ts. j \<noteq> i \<longrightarrow> m \<notin> set (holds (ts ! j))) \<and> (m \<in> set (holds (ts ! i)) \<longrightarrow> recursive_mutex m)"

text \<open>What a thread goes on with; \<open>b\<close> says which way a choice or a loop goes.\<close>

fun after :: "bool \<Rightarrow> stack \<Rightarrow> stack option" where
  "after b [] = None"
| "after b (Unlock m # k) = Some k"
| "after b (Do Skip # k) = Some k"
| "after b (Do (Seq p q) # k) = Some (Do p # Do q # k)"
| "after b (Do (Choice p q) # k) = Some (Do (if b then p else q) # k)"
| "after b (Do (Loop p) # k) = Some (if b then Do p # Do (Loop p) # k else k)"
| "after b (Do (Locked m p) # k) = Some (Do p # Unlock m # k)"

fun wants :: "stack \<Rightarrow> gw_mutex option" where
  "wants (Do (Locked m p) # k) = Some m"
| "wants _ = None"

text \<open>One step of one thread.\<close>

definition lock_step :: "nat \<times> bool \<Rightarrow> stack list \<Rightarrow> stack list option" where
  "lock_step ev ts =
     (case ev of (i, b) \<Rightarrow>
        if i < length ts \<and> (case wants (ts ! i) of None \<Rightarrow> True | Some m \<Rightarrow> lockable i m ts)
        then map_option (\<lambda>k. ts[i := k]) (after b (ts ! i)) else None)"

section \<open>Locking by rank\<close>

text \<open>The check: with the mutexes \<open>hs\<close> held, the program locks only mutexes of higher rank, or again a recursive one.\<close>

fun ordered :: "gw_mutex list \<Rightarrow> lock_prog \<Rightarrow> bool" where
  "ordered hs Skip = True"
| "ordered hs (Seq p q) = (ordered hs p \<and> ordered hs q)"
| "ordered hs (Choice p q) = (ordered hs p \<and> ordered hs q)"
| "ordered hs (Loop p) = ordered hs p"
| "ordered hs (Locked m p) =
     ((recursive_mutex m \<and> m \<in> set hs \<or> list_all (\<lambda>h. rank h < rank m) hs) \<and> ordered (m # hs) p)"

fun ordered_stack :: "stack \<Rightarrow> bool" where
  "ordered_stack [] = True"
| "ordered_stack (Do p # k) = (ordered (holds k) p \<and> ordered_stack k)"
| "ordered_stack (Unlock m # k) = ordered_stack k"

definition lock_inv :: "stack list \<Rightarrow> bool" where
  "lock_inv ts \<longleftrightarrow> (\<forall>k \<in> set ts. ordered_stack k) \<and>
     (\<forall>i < length ts. \<forall>j < length ts. i \<noteq> j \<longrightarrow> set (holds (ts ! i)) \<inter> set (holds (ts ! j)) = {})"

lemma exclusive:
  "lock_inv ts \<Longrightarrow> i < length ts \<Longrightarrow> j < length ts \<Longrightarrow> i \<noteq> j \<Longrightarrow> m \<in> set (holds (ts ! i)) \<Longrightarrow> m \<notin> set (holds (ts ! j))"
  unfolding lock_inv_def by blast

lemma stack_ordered: "lock_inv ts \<Longrightarrow> i < length ts \<Longrightarrow> ordered_stack (ts ! i)"
  by (simp add: lock_inv_def)

lemma lock_inv_update:
  assumes "lock_inv ts" "i < length ts" "ordered_stack k"
    and "\<And>j m. j < length ts \<Longrightarrow> j \<noteq> i \<Longrightarrow> m \<in> set (holds k) \<Longrightarrow> m \<notin> set (holds (ts ! j))"
  shows "lock_inv (ts[i := k])"
proof -
  have "\<forall>k' \<in> set (ts[i := k]). ordered_stack k'"
    using assms(1,3) set_update_subset_insert [of ts i k] by (auto simp: lock_inv_def)
  moreover have "set (holds (ts[i := k] ! a)) \<inter> set (holds (ts[i := k] ! b)) = {}" if "a < length ts" "b < length ts" "a \<noteq> b" for a b
    using that assms(2,4) exclusive [OF assms(1) that] by (cases "a = i"; cases "b = i") (auto simp: disjoint_iff)
  ultimately show ?thesis by (simp add: lock_inv_def)
qed

lemma after_ordered: "after b st = Some k \<Longrightarrow> ordered_stack st \<Longrightarrow> ordered_stack k"
  by (induction b st rule: after.induct) (auto split: if_splits)

lemma after_holds: "after b st = Some k \<Longrightarrow> set (holds k) \<subseteq> set (holds st) \<union> set_option (wants st)"
  by (induction b st rule: after.induct) (auto split: if_splits)

lemma lock_step_inv:
  assumes "lock_inv ts" "lock_step ev ts = Some ts'"
  shows "lock_inv ts'"
proof -
  obtain i b where ev: "ev = (i, b)" by fastforce
  obtain k where i: "i < length ts" and k: "after b (ts ! i) = Some k" "ts' = ts[i := k]"
    and free: "\<And>m. wants (ts ! i) = Some m \<Longrightarrow> lockable i m ts"
    using assms(2) by (auto simp: lock_step_def ev split: if_splits option.splits)
  have "m \<notin> set (holds (ts ! j))" if "j < length ts" "j \<noteq> i" "m \<in> set (holds k)" for j m
    using that after_holds [OF k(1)] exclusive [OF assms(1) i that(1), of m] free by (auto simp: lockable_def)
  then show ?thesis
    unfolding k(2) by (rule lock_inv_update [OF assms(1) i after_ordered [OF k(1) stack_ordered [OF assms(1) i]]])
qed

interpretation locking: step_invariant lock_step lock_inv
  by unfold_locales (rule lock_step_inv)

section \<open>Every thread can finish\<close>

fun prog_work :: "lock_prog \<Rightarrow> nat" where
  "prog_work Skip = 1"
| "prog_work (Seq p q) = 1 + prog_work p + prog_work q"
| "prog_work (Choice p q) = 1 + prog_work p + prog_work q"
| "prog_work (Loop p) = 1 + prog_work p"
| "prog_work (Locked m p) = 2 + prog_work p"

fun stack_work :: "stack \<Rightarrow> nat" where
  "stack_work [] = 0"
| "stack_work (Do p # k) = prog_work p + stack_work k"
| "stack_work (Unlock m # k) = 1 + stack_work k"

definition lock_work :: "stack list \<Rightarrow> nat" where
  "lock_work ts = sum_list (map stack_work ts)"

definition finished :: "stack list \<Rightarrow> bool" where
  "finished ts \<longleftrightarrow> list_all (\<lambda>k. k = []) ts"

lemma after_work: "st \<noteq> [] \<Longrightarrow> \<exists>k. after False st = Some k \<and> stack_work k < stack_work st"
  by (induction False st rule: after.induct) auto

lemma lock_work_update: "i < length ts \<Longrightarrow> stack_work k < stack_work (ts ! i) \<Longrightarrow> lock_work (ts[i := k]) < lock_work ts"
  using member_le_sum_list [of "stack_work (ts ! i)" "map stack_work ts"]
  by (auto simp: lock_work_def map_update sum_list_update)

lemma step_or_wait:
  assumes "i < length ts" "ts ! i \<noteq> []"
  shows "(\<exists>ev ts'. lock_step ev ts = Some ts' \<and> lock_work ts' < lock_work ts) \<or> (\<exists>m. wants (ts ! i) = Some m \<and> \<not> lockable i m ts)"
proof (cases "case wants (ts ! i) of None \<Rightarrow> True | Some m \<Rightarrow> lockable i m ts")
  case True
  obtain k where k: "after False (ts ! i) = Some k" "stack_work k < stack_work (ts ! i)" using after_work [OF assms(2)] by blast
  then have "lock_step (i, False) ts = Some (ts[i := k])" using True assms(1) by (simp add: lock_step_def)
  then show ?thesis using lock_work_update [OF assms(1) k(2)] by blast
qed (auto split: option.splits)

lemma wants_rank:
  assumes "lock_inv ts" "i < length ts" "wants (ts ! i) = Some m" "\<not> lockable i m ts"
  shows "h \<in> set (holds (ts ! i)) \<Longrightarrow> rank h < rank m" and "\<exists>j < length ts. j \<noteq> i \<and> m \<in> set (holds (ts ! j))"
proof -
  obtain p k where st: "ts ! i = Do (Locked m p) # k" using assms(3) by (cases "ts ! i" rule: wants.cases) auto
  have ord: "recursive_mutex m \<and> m \<in> set (holds k) \<or> list_all (\<lambda>h. rank h < rank m) (holds k)"
    using stack_ordered [OF assms(1,2)] st by simp
  show ex: "\<exists>j < length ts. j \<noteq> i \<and> m \<in> set (holds (ts ! j))"
    using assms(4) ord st by (auto simp: lockable_def list_all_iff)
  then have "m \<notin> set (holds k)" using exclusive [OF assms(1) _ assms(2)] st by auto
  then show "h \<in> set (holds (ts ! i)) \<Longrightarrow> rank h < rank m" using ord st by (auto simp: list_all_iff)
qed

lemma rank_bound: "rank m \<le> 3"
  by (cases m) auto

lemma someone_steps:
  assumes "lock_inv ts" "i < length ts" "ts ! i \<noteq> []"
  shows "\<exists>ev ts'. lock_step ev ts = Some ts' \<and> lock_work ts' < lock_work ts"
proof (rule ccontr)
  assume none: "\<not> ?thesis"
  have "False" if "j < length ts" "wants (ts ! j) = Some m" "\<not> lockable j m ts" for j m
    using that
  proof (induction "3 - rank m" arbitrary: j m rule: less_induct)
    case less
    obtain l where l: "l < length ts" "m \<in> set (holds (ts ! l))" using wants_rank(2) [OF assms(1) less.prems] by blast
    then obtain m' where m': "wants (ts ! l) = Some m'" "\<not> lockable l m' ts"
      using step_or_wait [OF l(1)] none by force
    have "rank m < rank m'" using wants_rank(1) [OF assms(1) l(1) m' l(2)] .
    then have "3 - rank m' < 3 - rank m" using rank_bound [of m'] by linarith
    from less.hyps [OF this l(1) m'] show False .
  qed
  then show False using step_or_wait [OF assms(2,3)] none assms(2) by blast
qed

interpretation lock_progress: progressing lock_step lock_inv finished lock_work
proof
  fix ts assume "lock_inv ts" "\<not> finished ts"
  then obtain k where "k \<in> set ts" "k \<noteq> []" by (auto simp: finished_def list_all_iff)
  then obtain i where "i < length ts" "ts ! i \<noteq> []" by (auto simp: in_set_conv_nth)
  then show "\<exists>ev ts'. lock_step ev ts = Some ts' \<and> lock_work ts' < lock_work ts"
    using someone_steps [OF \<open>lock_inv ts\<close>] by blast
qed

lemma lock_inv_start:
  assumes "\<forall>p \<in> set ps. ordered [] p"
  shows "lock_inv (map (\<lambda>p. [Do p]) ps)"
  using assms by (auto simp: lock_inv_def)

section \<open>The functions of the gateway\<close>

text \<open>
  The call of the failure callback inside \<^verbatim>\<open>sendDiscoveryInfo\<close> leads back to \<^verbatim>\<open>sendDiscoveryInfo\<close>; every
  round disables one more layer, so that \<open>n\<close> layers that are not yet disabled bound the depth.
\<close>

fun locks_send_info :: "nat \<Rightarrow> lock_prog" where
  "locks_send_info 0 = Skip"
| "locks_send_info (Suc n) = Loop (Locked Discovery (Choice Skip (locks_send_info n)))"

definition locks_sendDiscoveryInfo :: lock_prog where
  "locks_sendDiscoveryInfo = locks_send_info TRANSPORT_TYPE_COUNT"

definition locks_fail_callback :: lock_prog where
  "locks_fail_callback = Locked Discovery (Choice Skip locks_sendDiscoveryInfo)"

text \<open>\<^verbatim>\<open>TransportInfo::doFor\<close> calls the function it is given and then, if the layer has failed, the failure callback.\<close>

definition locks_doFor :: "lock_prog \<Rightarrow> lock_prog" where
  "locks_doFor fn = Seq (Choice Skip fn) (Choice Skip locks_fail_callback)"

definition locks_segmented_op :: lock_prog where
  "locks_segmented_op = Locked SegmentedMessages Skip"

definition locks_checkSegmentedMessages :: lock_prog where
  "locks_checkSegmentedMessages = Loop (Seq (Locked SegmentedMessages Skip) (Choice Skip (Locked PublisherEndpoints Skip)))"

text \<open>\<^verbatim>\<open>PendingMessageManager::release\<close> locks the mutex stored with the message, that of either owner of subscribers.\<close>

definition locks_pending_release :: lock_prog where
  "locks_pending_release =
     Seq (Locked PendingMessages Skip)
       (Choice Skip (Choice (Locked SubscriberEndpoints Skip) (Locked ForwardedSubscribers Skip)))"

definition locks_pending_op :: lock_prog where
  "locks_pending_op = Locked PendingMessages Skip"

definition locks_sendUserData :: lock_prog where
  "locks_sendUserData = Choice Skip (Locked DataSocket Skip)"

definition locks_writeSegmentedInternal :: lock_prog where
  "locks_writeSegmentedInternal = locks_doFor (Seq (Loop locks_sendUserData) (Loop locks_sendUserData))"

definition locks_writeSegmented :: "gw_mutex \<Rightarrow> lock_prog" where
  "locks_writeSegmented mutex =
     Loop (Seq (locks_doFor (Choice Skip locks_pending_op))
            (Choice (Locked mutex Skip)
               (Seq locks_writeSegmentedInternal (Choice Skip (Choice locks_pending_release (Locked mutex Skip))))))"

definition locks_forwarder_push :: lock_prog where
  "locks_forwarder_push = Choice Skip (Locked MessagesToForward Skip)"

text \<open>\<^verbatim>\<open>Transport2Iceoryx\<close>, whose functions run inside \<^verbatim>\<open>doForChannel\<close> or \<^verbatim>\<open>updateChannelsInternal\<close>.\<close>

definition locks_receive :: lock_prog where
  "locks_receive =
     Choice Skip (Locked PublisherEndpoints
       (Choice Skip
         (Seq locks_segmented_op (Seq (Choice Skip (Choice Skip locks_segmented_op)) (Choice Skip locks_forwarder_push)))))"

definition locks_loanBuffer :: lock_prog where
  "locks_loanBuffer = Locked PublisherEndpoints (Choice Skip (Seq locks_segmented_op (Choice Skip locks_segmented_op)))"

definition locks_releaseBuffer :: lock_prog where
  "locks_releaseBuffer =
     Locked PublisherEndpoints
       (Choice Skip (Choice locks_segmented_op (Seq locks_segmented_op (Choice Skip locks_forwarder_push))))"

definition locks_t2i_updateChannels :: lock_prog where
  "locks_t2i_updateChannels = Locked PublisherEndpoints (Seq (Loop (Choice Skip locks_segmented_op)) (Loop Skip))"

text \<open>\<^verbatim>\<open>Iceoryx2Transport\<close>: deleting a channel locks the waitset and then asks for pending messages over and over.\<close>

definition locks_i2t_updateChannels :: lock_prog where
  "locks_i2t_updateChannels =
     Locked SubscriberEndpoints
       (Seq (Loop (Choice Skip (Seq (Locked Waitset Skip) (Loop locks_pending_op)))) (Loop (Choice Skip (Locked Waitset Skip))))"

definition locks_updateCallback :: lock_prog where
  "locks_updateCallback = Seq locks_t2i_updateChannels locks_i2t_updateChannels"

text \<open>\<^verbatim>\<open>DiscoveryManager\<close>: the update callback is called after the mutex has been released.\<close>

definition locks_readPortSubscriber :: lock_prog where
  "locks_readPortSubscriber =
     Seq (Locked Discovery Skip)
       (Choice Skip (Seq (Choice Skip locks_updateCallback) (Locked Discovery (Choice Skip locks_sendDiscoveryInfo))))"

definition locks_receiveRemoteDiscoveryInfo :: lock_prog where
  "locks_receiveRemoteDiscoveryInfo =
     Seq (Locked Discovery (Choice Skip locks_sendDiscoveryInfo)) (Choice Skip (Choice Skip locks_updateCallback))"

definition locks_resendDiscoveryInfo :: lock_prog where
  "locks_resendDiscoveryInfo = Locked Discovery (locks_doFor Skip)"

definition locks_generateDeviceIndices :: lock_prog where
  "locks_generateDeviceIndices = Locked Discovery Skip"

text \<open>\<^verbatim>\<open>initialize\<close> and \<^verbatim>\<open>deinitialize\<close> announce with the mutex locked.\<close>

definition locks_initialize :: lock_prog where
  "locks_initialize = Locked Discovery locks_sendDiscoveryInfo"

section \<open>The threads of the gateway\<close>

definition main_thread :: lock_prog where
  "main_thread =
     Seq locks_initialize (Seq (Loop (Seq locks_checkSegmentedMessages (Choice Skip (Loop locks_resendDiscoveryInfo)))) locks_initialize)"

definition discovery_thread :: lock_prog where
  "discovery_thread = Loop (Loop (Seq locks_readPortSubscriber (Choice Skip (Locked Discovery Skip))))"

definition i2t_waitset_thread :: lock_prog where
  "i2t_waitset_thread =
     Loop (Seq (Locked Waitset Skip)
       (Loop (Seq (Locked SubscriberEndpoints Skip)
         (Choice Skip (Seq locks_generateDeviceIndices
           (Choice (Locked SubscriberEndpoints Skip) (locks_writeSegmented SubscriberEndpoints)))))))"

definition forwarder_thread :: lock_prog where
  "forwarder_thread =
     Loop (Loop (Seq (Locked ForwardedSubscribers Skip)
       (Choice Skip (Seq (Choice Skip (Locked MessagesToForward Skip)) (Seq locks_generateDeviceIndices
         (Choice (Locked ForwardedSubscribers Skip) (locks_writeSegmented ForwardedSubscribers)))))))"

definition udp_thread :: lock_prog where
  "udp_thread = Loop (Choice (Choice Skip locks_receive) (Choice Skip locks_receiveRemoteDiscoveryInfo))"

text \<open>
  The worker of the TCP layer: a new connection, which may report a discovery message at once; the end of a
  session; a discovery message; a session that has connected; user data.
\<close>

definition tcp_thread :: lock_prog where
  "tcp_thread =
     Loop (Choice (Locked TransportSessions (Choice Skip locks_receiveRemoteDiscoveryInfo))
       (Choice (Locked TransportSessions Skip)
         (Choice (Locked TransportSessions (Choice Skip locks_receiveRemoteDiscoveryInfo))
           (Choice (Choice Skip locks_receiveRemoteDiscoveryInfo) (Choice Skip locks_receive)))))"

text \<open>A layer that uses all callbacks of the interface \<^verbatim>\<open>transport.hpp\<close>: it also asks for buffers and reports sent ones.\<close>

definition buffering_layer_thread :: lock_prog where
  "buffering_layer_thread =
     Loop (Choice locks_receive (Choice locks_receiveRemoteDiscoveryInfo (Choice locks_loanBuffer
       (Choice locks_releaseBuffer locks_pending_release))))"

definition gateway_threads :: "lock_prog list" where
  "gateway_threads =
     [main_thread, discovery_thread, i2t_waitset_thread, forwarder_thread, udp_thread, tcp_thread, buffering_layer_thread]"

lemma ordered_send_info: "set hs \<subseteq> {TransportSessions, Discovery} \<Longrightarrow> ordered hs (locks_send_info n)"
  by (induction n arbitrary: hs) (auto simp: list_all_iff)

lemmas lock_prog_defs =
  locks_sendDiscoveryInfo_def locks_fail_callback_def locks_doFor_def locks_segmented_op_def locks_checkSegmentedMessages_def
  locks_pending_release_def locks_pending_op_def locks_sendUserData_def locks_writeSegmentedInternal_def locks_writeSegmented_def
  locks_forwarder_push_def locks_receive_def locks_loanBuffer_def locks_releaseBuffer_def locks_t2i_updateChannels_def
  locks_i2t_updateChannels_def locks_updateCallback_def locks_readPortSubscriber_def locks_receiveRemoteDiscoveryInfo_def
  locks_resendDiscoveryInfo_def locks_generateDeviceIndices_def locks_initialize_def

lemma gateway_threads_ordered: "p \<in> set gateway_threads \<Longrightarrow> ordered [] p"
  by (auto simp: gateway_threads_def main_thread_def discovery_thread_def i2t_waitset_thread_def forwarder_thread_def udp_thread_def
      tcp_thread_def buffering_layer_thread_def lock_prog_defs ordered_send_info)

section \<open>Properties\<close>



end
