(* ===== verification/Forwarding.thy ===== *)
theory Forwarding
  imports ReceiverRuns Runs
begin

text \<open>
  The life of a \<^verbatim>\<open>TransportForwarder\<close> object (\<^verbatim>\<open>source/p3com/generic/transport_forwarder.cpp\<close>) and
  its work together with \<^verbatim>\<open>Transport2Iceoryx\<close>: its construction with the forwarding subscribers, its
  waitset loop and \<^verbatim>\<open>join\<close>; and the way of a message from the transport layer it comes in on to the
  layers it goes out on. In between, the chunk is in transit inside iceoryx: published by the gateway
  and not yet taken by the forwarding subscriber.
\<close>

section \<open>Construction, waitset loop, join\<close>

record forwarder_object =
  fo_forwarder :: forwarder
  m_forwardedServiceSubscribers :: "subscriber list"
  fo_waitset :: "subscriber_ptr list"
  fo_terminateFlag :: bool
  fo_joinable :: bool

text \<open>
  One round of the loop of the constructor; \<open>construct\<close> gives the subscriber object that is constructed
  behind the ones there are, \<open>attach\<close> says whether the waitset takes it.
\<close>

definition setupForwarding ::
  "iox_env \<Rightarrow> (service_description \<Rightarrow> subscriber list \<Rightarrow> subscriber) \<Rightarrow> (subscriber_ptr \<Rightarrow> subscriber_ptr list \<Rightarrow> bool)
     \<Rightarrow> service_description \<Rightarrow> forwarder_object \<Rightarrow> forwarder_object" where
  "setupForwarding E construct attach service x =
     (let fw = fo_forwarder x;
          subs = fst (push_back MAX_FORWARDED_SERVICES (m_forwardedServiceSubscribers x) (construct service (m_forwardedServiceSubscribers x)));
          back = sub_ptr (last subs)
      in x\<lparr>fo_forwarder := fw\<lparr>m_forwardedServiceHashes :=
             fst (push_back MAX_FORWARDED_SERVICES (m_forwardedServiceHashes fw) (getClassHash E service))\<rparr>,
           m_forwardedServiceSubscribers := subs,
           fo_waitset := (if attach back (fo_waitset x) then fo_waitset x @ [back] else fo_waitset x)\<rparr>)"

definition new_TransportForwarder ::
  "iox_env \<Rightarrow> (service_description \<Rightarrow> subscriber list \<Rightarrow> subscriber) \<Rightarrow> (subscriber_ptr \<Rightarrow> subscriber_ptr list \<Rightarrow> bool)
     \<Rightarrow> service_description list \<Rightarrow> forwarder_object" where
  "new_TransportForwarder E construct attach forwardedServices =
     (let x = fold (setupForwarding E construct attach) forwardedServices
                \<lparr>fo_forwarder = \<lparr>m_forwardedServiceHashes = [], m_messagesToForward = vm_empty\<rparr>,
                 m_forwardedServiceSubscribers = [], fo_waitset = [], fo_terminateFlag = False, fo_joinable = False\<rparr>
      in x\<lparr>fo_joinable := forwardedServices \<noteq> []\<rparr>)"

definition fw_join :: "forwarder_object \<Rightarrow> forwarder_object" where
  "fw_join x = x\<lparr>fo_terminateFlag := True, fo_joinable := False\<rparr>"

text \<open>
  The waitset loop: a turn is given the value of the terminate flag and, for every notification, the
  subscriber, what it hands out, the hash of the message and the state of the discovery manager. It runs
  for ever if the flag is never set.
\<close>

type_synonym fw_notice = "subscriber \<times> taken_chunk option \<times> hash \<times> discovery"

fun fw_waitsetLoop ::
  "iox_env \<Rightarrow> 'w layer_ops \<Rightarrow> 'w fail_callback option \<Rightarrow> (subscriber_ptr \<Rightarrow> chunk_ptr \<Rightarrow> 'w \<Rightarrow> 'w) \<Rightarrow> mutex_ptr
     \<Rightarrow> (bool \<times> fw_notice list) list \<Rightarrow> forwarder \<times> 'w writer_state \<Rightarrow> (forwarder \<times> 'w writer_state) result" where
  "fw_waitsetLoop E ops cb rel mutex [] y = Inl Waits_Forever"
| "fw_waitsetLoop E ops cb rel mutex ((terminateFlag, notices) # turns) y =
     (if terminateFlag then Inr y
      else bindR (foldR (\<lambda>(subscriber, taken, msgHash, d). fw_notification E ops cb rel mutex subscriber taken msgHash d)
                    notices y)
             (fw_waitsetLoop E ops cb rel mutex turns))"

text \<open>With the flag set at some time, the loop handles the notifications up to then, in order, and returns.\<close>

lemma fw_waitsetLoop_eq:
  "fw_waitsetLoop E ops cb rel mutex (map (Pair False) nss @ (True, ns) # turns) y =
     foldR (\<lambda>(subscriber, taken, msgHash, d). fw_notification E ops cb rel mutex subscriber taken msgHash d) (concat nss) y"
  by (induction nss arbitrary: y) (simp_all add: foldR_append cong: bindR_cong)

lemma setupForwarding_all:
  assumes "length (m_forwardedServiceSubscribers x) = length (m_forwardedServiceHashes (fo_forwarder x))"
  shows "let y = fold (setupForwarding E construct attach) ss x in
    fo_forwarder y = (fo_forwarder x)\<lparr>m_forwardedServiceHashes :=
      push_all MAX_FORWARDED_SERVICES (m_forwardedServiceHashes (fo_forwarder x)) (map (getClassHash E) ss)\<rparr> \<and>
    length (m_forwardedServiceSubscribers y) = length (m_forwardedServiceHashes (fo_forwarder y))"
  using assms
proof (induction ss arbitrary: x)
  case (Cons s ss)
  have "length (m_forwardedServiceSubscribers (setupForwarding E construct attach s x))
      = length (m_forwardedServiceHashes (fo_forwarder (setupForwarding E construct attach s x)))"
    using Cons.prems by (simp add: setupForwarding_def push_back_def Let_def)
  from Cons.IH [OF this] show ?case by (simp add: setupForwarding_def Let_def)
qed simp

lemma new_TransportForwarder_tables:
  "fo_forwarder (new_TransportForwarder E construct attach ss) = new_forwarder E ss"
  "length (m_forwardedServiceSubscribers (new_TransportForwarder E construct attach ss)) = length (m_forwardedServiceHashes (new_forwarder E ss))"
proof -
  let ?x = "\<lparr>fo_forwarder = \<lparr>m_forwardedServiceHashes = [], m_messagesToForward = vm_empty\<rparr>,
    m_forwardedServiceSubscribers = [], fo_waitset = [], fo_terminateFlag = False, fo_joinable = False\<rparr>"
  note all = setupForwarding_all [of ?x E construct attach ss]
  show "fo_forwarder (new_TransportForwarder E construct attach ss) = new_forwarder E ss"
    using all by (simp add: new_TransportForwarder_def new_forwarder_def Let_def)
  then show "length (m_forwardedServiceSubscribers (new_TransportForwarder E construct attach ss)) = length (m_forwardedServiceHashes (new_forwarder E ss))"
    using all by (simp add: new_TransportForwarder_def Let_def)
qed

section \<open>What the receiving gateway tells the forwarder\<close>

text \<open>The chunks that a list of calls into iceoryx publishes.\<close>

fun published :: "iox_event list \<Rightarrow> buffer_ptr list" where
  "published [] = []"
| "published (Published pub p c # es) = p # published es"
| "published (Released pub p # es) = published es"

definition told :: "class_hash \<Rightarrow> device_index \<Rightarrow> t2i_state \<Rightarrow> t2i_state \<Rightarrow> bool" where
  "told h dev x y \<longleftrightarrow> (\<exists>es. iox_events y = iox_events x @ es \<and>
     t2i_forwarder y = fold (\<lambda>p. fw_push p h dev) (published es) (t2i_forwarder x))"

lemma told_refl: "iox_events y = iox_events x \<Longrightarrow> t2i_forwarder y = t2i_forwarder x \<Longrightarrow> told h dev x y"
  by (auto simp: told_def intro: exI [of _ "[]"])

lemma published_append: "published (es @ fs) = published es @ published fs"
  by (induction es rule: published.induct) simp_all

lemma told_trans: "told h dev x y \<Longrightarrow> told h dev y z \<Longrightarrow> told h dev x z"
  unfolding told_def by (force simp: published_append)

lemma told_release: "told h dev x (release_chunk r x)"
  by (auto simp: told_def release_chunk_def intro: exI [of _ "[Released (fst r) (snd r)]"])

lemma told_publish: "publishChunk h dev pub up x = Inr y \<Longrightarrow> told (serviceHash h) dev x y"
  by (auto simp: publishChunk_def told_def split: option.splits)

lemma told_fill: "fillChunk h data uh up x = Inr y \<Longrightarrow> told k dev x y"
  by (auto simp: fillChunk_def result_simps intro!: told_refl split: option.splits)

lemma told_loan: "loanChunk G h pub x = Some (uh, up, y) \<Longrightarrow> told k dev x y"
  by (auto simp: loanChunk_def Let_def intro!: told_refl split: option.splits)

lemma told_push: "told k dev x (pushSegmented now mutex h n uh up pub x)"
proof -
  have "told k dev x (x\<lparr>segmented := sm\<rparr>)" for sm by (rule told_refl) simp_all
  then show ?thesis
    using told_trans [OF _ told_release] by (auto simp: pushSegmented_def Let_def split: prod.splits option.splits)
qed

lemma told_segmented: "told k dev (x\<lparr>segmented := sm\<rparr>) y \<Longrightarrow> told k dev x y"
  by (simp add: told_def)

lemma told_keep: "told k dev x (x\<lparr>segmented := sm\<rparr>)"
  by (rule told_refl) simp_all

lemma receiveChannel_cases:
  assumes "receiveChannel G now mutex h data dev pub x = Inr y"
  obtains (known) sm uh up x1 where "fillChunk h data uh up (x\<lparr>segmented := sm\<rparr>) = Inr x1"
      "y = x1 \<or> publishChunk h dev pub up x1 = Inr y"
    | (rejected) sm where "y = x\<lparr>segmented := sm\<rparr>"
    | (first) sm uh up x1 where "loanChunk G h pub (x\<lparr>segmented := sm\<rparr>) = Some (uh, up, x1)"
      "fillChunk h data uh up (pushSegmented now mutex h (submessageCount h - 1) uh up pub x1) = Inr y"
    | (single) sm uh up x1 x2 where "loanChunk G h pub (x\<lparr>segmented := sm\<rparr>) = Some (uh, up, x1)"
      "fillChunk h data uh up x1 = Inr x2" "publishChunk h dev pub up x2 = Inr y"
proof -
  obtain sm r where r: "findAndDecrement (segmented x) (messageHash h) = (sm, r)" by fastforce
  show ?thesis
  proof (cases r)
    case None
    show ?thesis
    proof (cases "loanChunk G h pub (x\<lparr>segmented := sm\<rparr>)")
      case None
      then show ?thesis using assms r \<open>r = None\<close> rejected [of sm] by (simp add: receiveChannel_def)
    next
      case (Some a)
      obtain uh up x1 where a: "a = (uh, up, x1)" by (cases a)
      show ?thesis
      proof (cases "1 < submessageCount h")
        case True
        then show ?thesis using assms r Some \<open>r = None\<close> first a by (simp add: receiveChannel_def)
      next
        case False
        then obtain x2 where "fillChunk h data uh up x1 = Inr x2" "publishChunk h dev pub up x2 = Inr y"
          using assms r Some \<open>r = None\<close> a by (simp add: receiveChannel_def result_simps) blast
        then show ?thesis using single Some a by simp
      qed
    qed
  next
    case (Some a)
    obtain uh up sp where a: "a = (uh, up, sp)" by (cases a)
    obtain x1 where "fillChunk h data uh up (x\<lparr>segmented := sm\<rparr>) = Inr x1" "(if sp then publishChunk h dev pub up x1 else Inr x1) = Inr y"
      using assms r Some a by (simp add: receiveChannel_def result_simps) blast
    then show ?thesis using known by (cases sp) simp_all
  qed
qed

lemma receiveChannel_told:
  assumes "receiveChannel G now mutex h data dev pub x = Inr y"
  shows "told (serviceHash h) dev x y"
  using assms
proof (cases rule: receiveChannel_cases)
  case known
  then show ?thesis using told_segmented [OF told_fill] told_trans [OF _ told_publish] by blast
next
  case (first sm uh up x1)
  then show ?thesis by (blast intro: told_segmented told_trans told_loan told_push told_fill)
next
  case (single sm uh up x1 x2)
  then show ?thesis by (blast intro: told_segmented told_trans told_loan told_publish told_fill)
qed (simp add: told_keep)

lemma releaseChannel_told:
  assumes "releaseChannel h b dev pub x = Inr y"
  shows "told (serviceHash h) dev x y"
proof (cases b)
  case True
  then show ?thesis
    using assms by (auto simp: releaseChannel_def intro: told_keep told_segmented [OF told_release] split: prod.splits option.splits)
next
  case False
  obtain sm r where r: "findAndDecrement (segmented x) (messageHash h) = (sm, r)" by fastforce
  show ?thesis
  proof (cases "\<exists>uh up. r = Some (uh, up, True)")
    case True
    then obtain uh up where "r = Some (uh, up, True)" by blast
    then have "publishChunk h dev pub up (x\<lparr>segmented := sm\<rparr>) = Inr y" using assms r False by (simp add: releaseChannel_def)
    then show ?thesis by (rule told_segmented [OF told_publish])
  next
    case other: False
    have "y = x\<lparr>segmented := sm\<rparr>"
    proof (cases r)
      case None
      then show ?thesis using assms r False by (simp add: releaseChannel_def)
    next
      case (Some a)
      then obtain uh up where "r = Some (uh, up, False)" using other by (cases a) (metis (full_types))
      then show ?thesis using assms r False by (simp add: releaseChannel_def)
    qed
    then show ?thesis by (simp add: told_keep)
  qed
qed

text \<open>Both callbacks tell the forwarder about exactly the chunks they publish, with the service and the device of the datagram.\<close>

definition header_hash :: "iox_env \<Rightarrow> byte list \<Rightarrow> nat \<Rightarrow> class_hash" where
  "header_hash E bytes sz = (case deserializeHeader E bytes sz of Inl _ \<Rightarrow> [] | Inr (h, n) \<Rightarrow> serviceHash h)"

lemma doForChannel_told:
  assumes "doForChannel h f (m, x) = Inr y" "\<And>e. f e x = Inr y \<Longrightarrow> told k dev x y"
  shows "told k dev x y"
  using assms by (auto simp: doForChannel_def Let_def result_simps told_refl split: if_splits)

lemma receive_told:
  assumes "receive E G now mutex bytes sz dev (m, x) = Inr y"
  shows "told (header_hash E bytes sz) dev x y"
proof -
  obtain h n where h: "deserializeHeader E bytes sz = Inr (h, n)"
    and y: "(if sz \<noteq> unat (submessageSize h + word_of_nat n) then Inr x
      else doForChannel (serviceHash h) (receiveChannel G now mutex h (drop n bytes) dev) (m, x)) = Inr y"
    using assms by (auto simp: receive_def result_simps)
  then show ?thesis
    using doForChannel_told [OF _ receiveChannel_told] by (auto simp: header_hash_def told_refl split: if_splits)
qed

lemma releaseBuffer_told:
  assumes "releaseBuffer E bytes sz b dev (m, x) = Inr y"
  shows "told (header_hash E bytes sz) dev x y"
proof -
  obtain h n where h: "deserializeHeader E bytes sz = Inr (h, n)"
    and y: "doForChannel (serviceHash h) (releaseChannel h b dev) (m, x) = Inr y"
    using assms by (auto simp: releaseBuffer_def result_simps)
  show ?thesis using doForChannel_told [OF y releaseChannel_told] h by (simp add: header_hash_def)
qed

section \<open>Chunks in transit\<close>

text \<open>
  Events: \<^verbatim>\<open>Transport2Iceoryx\<close> receives a datagram, or is told that a buffer is complete, and the
  forwarding subscriber of a service takes a chunk. What else the classes have to do with is part of the
  events: the channels and the receiver's other state, the state of the discovery manager and of the
  sender. A chunk in transit is held by iceoryx, which loans no chunk that is held; the table of sources
  has room for \<^verbatim>\<open>MAX_FORWARDED_SERVICES\<close> of them.
\<close>

type_synonym transit = "(chunk_ptr \<times> class_hash \<times> device_index) list"

datatype 'w fwd_event =
    Receives "publisher endpoints" t2i_state time_point nat "byte list" nat device_index
  | Completes "publisher endpoints" t2i_state "byte list" nat bool device_index
  | Takes subscriber taken_chunk hash discovery "'w writer_state"

definition goes_in :: "class_hash \<Rightarrow> device_index \<Rightarrow> t2i_state \<Rightarrow> t2i_state result \<Rightarrow> transit \<Rightarrow> (forwarder \<times> transit) option" where
  "goes_in h dev x r tr =
     (case r of
        Inl e \<Rightarrow> None
      | Inr y \<Rightarrow>
          let new = (if containsElement (m_forwardedServiceHashes (t2i_forwarder x)) h
                     then map (\<lambda>p. (p, h, dev)) (published (drop (length (iox_events x)) (iox_events y))) else [])
          in if distinct (map fst (tr @ new)) \<and> length (tr @ new) \<le> MAX_FORWARDED_SERVICES
             then Some (t2i_forwarder y, tr @ new) else None)"

definition fwd_step ::
  "iox_env \<Rightarrow> pub_env \<Rightarrow> 'w layer_ops \<Rightarrow> 'w fail_callback option \<Rightarrow> (subscriber_ptr \<Rightarrow> chunk_ptr \<Rightarrow> 'w \<Rightarrow> 'w) \<Rightarrow> mutex_ptr
     \<Rightarrow> 'w fwd_event \<Rightarrow> forwarder \<times> transit \<Rightarrow> (forwarder \<times> transit) option" where
  "fwd_step E G ops cb rel mutex ev = (\<lambda>(fw, tr).
     case ev of
       Receives m x now mut bytes sz dev \<Rightarrow>
         let x' = x\<lparr>t2i_forwarder := fw\<rparr>
         in goes_in (header_hash E bytes sz) dev x' (receive E G now mut bytes sz dev (m, x')) tr
     | Completes m x bytes sz shouldRelease dev \<Rightarrow>
         let x' = x\<lparr>t2i_forwarder := fw\<rparr>
         in goes_in (header_hash E bytes sz) dev x' (releaseBuffer E bytes sz shouldRelease dev (m, x')) tr
     | Takes sub tc msgHash d s \<Rightarrow>
         (let c = ch_chunk (tc_chunk tc)
          in if list_ex (\<lambda>(p, h, dev). p = c \<and> h = getClassHash E (sub_service sub)) tr
             then case fw_notification E ops cb rel mutex sub (Some tc) msgHash d (fw, s) of
                    Inl e \<Rightarrow> None
                  | Inr (fw', s') \<Rightarrow> Some (fw', filter (\<lambda>e. fst e \<noteq> c) tr)
             else None))"

definition sources :: "transit \<Rightarrow> chunk_ptr \<rightharpoonup> device_index" where
  "sources tr = map_of (map (\<lambda>(p, h, dev). (p, dev)) tr)"

text \<open>The table of sources is the map from the chunks in transit to the devices they came from.\<close>

definition fwd_inv :: "class_hash list \<Rightarrow> forwarder \<times> transit \<Rightarrow> bool" where
  "fwd_inv hs = (\<lambda>(fw, tr). fw_inv fw \<and> m_forwardedServiceHashes fw = hs \<and> distinct (map fst tr) \<and>
     (\<forall>(p, h, dev) \<in> set tr. h \<in> set hs) \<and>
     vm_lookup (m_messagesToForward fw) = sources tr \<and> vm_size (m_messagesToForward fw) = length tr)"

lemma fwd_invD:
  assumes "fwd_inv hs (fw, tr)"
  shows "fw_inv fw" "m_forwardedServiceHashes fw = hs" "distinct (map fst tr)" "(p, h, dev) \<in> set tr \<Longrightarrow> h \<in> set hs"
    "vm_lookup (m_messagesToForward fw) = sources tr" "vm_size (m_messagesToForward fw) = length tr"
    "vm_invar MAX_FORWARDED_SERVICES (m_messagesToForward fw)"
  using assms by (auto simp: fwd_inv_def fw_inv_def)

lemma sources_None: "sources tr p = None \<longleftrightarrow> p \<notin> fst ` set tr"
  by (induction tr) (auto simp: sources_def)

lemma sources_Some: "distinct (map fst tr) \<Longrightarrow> (p, h, dev) \<in> set tr \<Longrightarrow> sources tr p = Some dev"
  by (induction tr) (force simp: sources_def)+

lemma sources_snoc: "p \<notin> fst ` set tr \<Longrightarrow> sources (tr @ [(p, h, dev)]) = (sources tr)(p \<mapsto> dev)"
  by (induction tr) (auto simp: sources_def)

lemma sources_filter: "sources (filter (\<lambda>e. fst e \<noteq> c) tr) = (sources tr)(c := None)"
  by (induction tr) (auto simp: sources_def)

lemma length_filter_key:
  "distinct (map fst tr) \<Longrightarrow> c \<in> fst ` set tr \<Longrightarrow> Suc (length (filter (\<lambda>e. fst e \<noteq> c) tr)) = length tr"
proof (induction tr)
  case (Cons a tr)
  show ?case
  proof (cases "fst a = c")
    case True
    then have "filter (\<lambda>e. fst e \<noteq> c) tr = tr" using Cons.prems by (intro filter_True) (auto simp: image_iff)
    then show ?thesis using True by (cases a) simp
  qed (use Cons in \<open>cases a; auto\<close>)
qed simp

lemma fwd_inv_push:
  assumes "fwd_inv hs (fw, tr)" "h \<in> set hs" "p \<notin> fst ` set tr" "length tr < MAX_FORWARDED_SERVICES"
  shows "fwd_inv hs (fw_push p h dev fw, tr @ [(p, h, dev)])"
proof -
  note inv = fwd_invD [OF assms(1)]
  have new: "vm_lookup (m_messagesToForward fw) p = None" using inv(5) assms(3) sources_None by simp
  have acc: "snd (vm_emplace MAX_FORWARDED_SERVICES (m_messagesToForward fw) p dev)"
    using vm_emplace_accepts [OF inv(7)] inv(6) assms(4) by simp
  have fw: "m_messagesToForward (fw_push p h dev fw) = fst (vm_emplace MAX_FORWARDED_SERVICES (m_messagesToForward fw) p dev)"
    "m_forwardedServiceHashes (fw_push p h dev fw) = hs"
    using assms(2) inv(2) by (simp_all add: fw_push_def)
  show ?thesis
    using fw_push_inv [OF inv(1) new] vm_lookup_emplace_fresh [OF inv(7) acc new] vm_size_emplace [OF inv(7) acc] inv assms(2,3)
    by (auto simp: fwd_inv_def fw sources_snoc)
qed

lemma fwd_inv_push_all:
  assumes "fwd_inv hs (fw, tr)" "h \<in> set hs" "distinct (map fst (tr @ map (\<lambda>p. (p, h, dev)) ps))"
    and "length (tr @ map (\<lambda>p. (p, h, dev)) ps) \<le> MAX_FORWARDED_SERVICES"
  shows "fwd_inv hs (fold (\<lambda>p. fw_push p h dev) ps fw, tr @ map (\<lambda>p. (p, h, dev)) ps)"
  using assms
proof (induction ps arbitrary: fw tr)
  case (Cons p ps)
  have "fwd_inv hs (fw_push p h dev fw, tr @ [(p, h, dev)])"
    by (rule fwd_inv_push) (use Cons.prems in auto)
  from Cons.IH [OF this] Cons.prems show ?case by simp
qed simp

lemma fw_push_other: "h \<notin> set (m_forwardedServiceHashes fw) \<Longrightarrow> fold (\<lambda>p. fw_push p h dev) ps fw = fw"
  by (induction ps) (simp_all add: fw_push_def)

lemma goes_in_inv:
  assumes "fwd_inv hs (fw, tr)" "t2i_forwarder x = fw" "\<And>y. r = Inr y \<Longrightarrow> told h dev x y" "goes_in h dev x r tr = Some st"
  shows "fwd_inv hs st"
proof -
  obtain y where y: "r = Inr y" using assms(4) by (auto simp: goes_in_def split: sum.splits)
  obtain es where es: "iox_events y = iox_events x @ es" "t2i_forwarder y = fold (\<lambda>p. fw_push p h dev) (published es) fw"
    using assms(2,3) y by (auto simp: told_def)
  note hs = fwd_invD(2) [OF assms(1)]
  show ?thesis
  proof (cases "h \<in> set hs")
    case True
    let ?new = "map (\<lambda>p. (p, h, dev)) (published es)"
    have "distinct (map fst (tr @ ?new))" "length (tr @ ?new) \<le> MAX_FORWARDED_SERVICES" "st = (t2i_forwarder y, tr @ ?new)"
      using assms(2,4) y es(1) hs True unfolding goes_in_def by (simp_all add: Let_def image_image comp_def split: if_splits)
    then show ?thesis using fwd_inv_push_all [OF assms(1) True] es(2) by metis
  next
    case False
    then show ?thesis
      using assms(1,2,4) y es hs fw_push_other [of h fw] by (auto simp: goes_in_def Let_def split: if_splits)
  qed
qed

text \<open>Taking a chunk in transit: where it is written to is determined by the device it came from.\<close>

definition fw_without :: "chunk_ptr \<Rightarrow> forwarder \<Rightarrow> forwarder" where
  "fw_without p fw = fw\<lparr>m_messagesToForward := vm_remove (m_messagesToForward fw) p\<rparr>"

lemma fw_notification_transit:
  assumes "fwd_inv hs (fw, tr)" "(ch_chunk (tc_chunk tc), getClassHash E (sub_service sub), dev) \<in> set tr"
  shows "fw_notification E ops cb rel mutex sub (Some tc) msgHash d (fw, s) =
    (let h = getClassHash E (sub_service sub); c = ch_chunk (tc_chunk tc); targets = generateDeviceIndicesForwarding E (ws_ti s) d h dev
     in if targets = [] then Inr (fw_without c fw, s\<lparr>ws_world := rel (sub_ptr sub) c (ws_world s)\<rparr>)
        else bindR (writeSegmented E ops cb rel (datagramHeader h msgHash tc) (tc_chunk tc) targets mutex (sub_ptr sub) s)
               (\<lambda>s'. Inr (fw_without c fw, s')))"
proof -
  note inv = fwd_invD [OF assms(1)]
  have "vm_lookup (m_messagesToForward fw) (ch_chunk (tc_chunk tc)) = Some dev"
    using inv(5) sources_Some [OF inv(3) assms(2)] by simp
  then have "fw_source (ch_chunk (tc_chunk tc)) (getClassHash E (sub_service sub)) fw
      = Inr (dev, fw_without (ch_chunk (tc_chunk tc)) fw)"
    using fw_source_eq [OF inv(1)] inv(2) inv(4) [OF assms(2)] by (simp add: fw_without_def)
  then show ?thesis by (simp add: fw_notification_def Let_def)
qed

lemma fwd_inv_take:
  assumes "fwd_inv hs (fw, tr)" "c \<in> fst ` set tr"
  shows "fwd_inv hs (fw_without c fw, filter (\<lambda>e. fst e \<noteq> c) tr)"
proof -
  note inv = fwd_invD [OF assms(1)]
  have "vm_lookup (m_messagesToForward fw) c \<noteq> None" using inv(5) assms(2) sources_None by metis
  then have "Suc (vm_size (vm_remove (m_messagesToForward fw) c)) = length tr"
    using vm_size_remove_present [OF inv(7)] inv(6) by metis
  then have "vm_size (vm_remove (m_messagesToForward fw) c) = length (filter (\<lambda>e. fst e \<noteq> c) tr)"
    using length_filter_key [OF inv(3) assms(2)] by linarith
  moreover have "distinct (map fst (filter (\<lambda>e. fst e \<noteq> c) tr))" using inv(3) by (rule distinct_map_filter)
  ultimately show ?thesis
    using inv vm_remove_invar [OF inv(7), of c] vm_lookup_remove [OF inv(7), of c] assms(1)
    by (auto simp: fwd_inv_def fw_inv_def fw_without_def sources_filter)
qed

lemma fwd_step_inv:
  assumes "fwd_inv hs st" "fwd_step E G ops cb rel mutex ev st = Some st'"
  shows "fwd_inv hs st'"
proof -
  obtain fw tr where st: "st = (fw, tr)" by fastforce
  show ?thesis
  proof (cases ev)
    case (Receives m x now mut bytes sz dev)
    then show ?thesis
      using assms(2) unfolding fwd_step_def st by (simp add: Let_def) (rule goes_in_inv [OF assms(1) [unfolded st] _ receive_told], auto)
  next
    case (Completes m x bytes sz b dev)
    then show ?thesis
      using assms(2) unfolding fwd_step_def st by (simp add: Let_def) (rule goes_in_inv [OF assms(1) [unfolded st] _ releaseBuffer_told], auto)
  next
    case (Takes sub tc mh d s)
    let ?c = "ch_chunk (tc_chunk tc)"
    obtain dev fw' s' where tr: "(?c, getClassHash E (sub_service sub), dev) \<in> set tr"
      and n: "fw_notification E ops cb rel mutex sub (Some tc) mh d (fw, s) = Inr (fw', s')" "st' = (fw', filter (\<lambda>e. fst e \<noteq> ?c) tr)"
      using assms(2) by (auto simp: fwd_step_def st Takes Let_def list_ex_iff split: if_splits sum.splits)
    have "fw' = fw_without ?c fw"
      using n(1) unfolding fw_notification_transit [OF assms(1) [unfolded st] tr] by (auto simp: Let_def result_simps split: if_splits)
    moreover have "?c \<in> fst ` set tr" using tr by force
    ultimately show ?thesis using fwd_inv_take [OF assms(1) [unfolded st]] n(2) by simp
  qed
qed

interpretation transit: step_invariant "fwd_step E G ops cb rel mutex" "fwd_inv hs" for E G ops cb rel mutex hs
  by unfold_locales (rule fwd_step_inv)

lemma vm_size_empty: "vm_size vm_empty = 0"
  by (simp add: vm_size_def vm_empty_def)

lemma fwd_inv_start: "fwd_inv (m_forwardedServiceHashes (new_forwarder E ss)) (new_forwarder E ss, [])"
  using new_forwarder_inv [of E ss]
  by (auto simp: fwd_inv_def new_forwarder_def sources_def vm.lookup_empty vm_size_empty)

section \<open>Properties\<close>


text \<open>
  The last buffer of a message that comes in over PCIe is complete; a gateway on UDP subscribes to the service.
\<close>

definition fwd_source :: device_index where
  "fwd_source = \<lparr>di_type = PCIE, di_device = 0\<rparr>"

definition fwd_header :: datagram_header where
  "fwd_header = sample_header\<lparr>serviceHash := sample_hash sample_service\<rparr>"

definition fwd_bytes :: "byte list" where
  "fwd_bytes = datagram sample_env (fwd_header, [])"

definition fwd_receiver :: t2i_state where
  "fwd_receiver = sample_receiver\<lparr>
     segmented := \<lparr>m_keys = [77], m_elems = [\<lparr>remainingSegments = 1, sm_userHeader = None, sm_userPayload = 5, sm_mutex = 0,
       sm_publisher = 1, deadline = 0\<rparr>]\<rparr>,
     chunks := [5 \<mapsto> \<lparr>ck_userHeader = [], ck_userPayload = [1, 2, 3, 4, 5]\<rparr>]\<rparr>"

definition fwd_message :: "(byte list \<times> endpoint) list udp_state fwd_event" where
  "fwd_message = Completes \<lparr>m_keys = [sample_hash sample_service], m_elems = [sample_publisher]\<rparr> fwd_receiver
     fwd_bytes (length fwd_bytes) False fwd_source"

definition fwd_start :: "forwarder \<times> transit" where
  "fwd_start = (fo_forwarder (new_TransportForwarder sample_env (\<lambda>service subs. \<lparr>sub_ptr = length subs, sub_service = service\<rparr>)
     (\<lambda>_ _. True) [sample_service]), [])"

definition fwd_chunk :: taken_chunk where
  "fwd_chunk = \<lparr>tc_chunk = \<lparr>ch_chunk = 5, ch_userHeader = [], ch_userPayload = [1, 2, 3, 4, 5]\<rparr>, tc_originId = 0,
     tc_userPayloadSize = 5, tc_userPayloadAlignment = 8, tc_hasUserHeader = False, tc_userHeaderSize = 0\<rparr>"

lemma fwd_bytes_parsed: "\<exists>n. deserializeHeader sample_env fwd_bytes (length fwd_bytes) = Inr (fwd_header, n)"
proof -
  have wf: "wf_header sample_env fwd_header" by (simp add: fwd_header_def wf_header_def sample_env_def sample_hash_def Let_def)
  obtain ser where ser: "serializeHeader sample_env fwd_header = Inr ser" by (simp add: serializeHeader_ok)
  then have "fwd_bytes = ser" by (simp add: fwd_bytes_def datagram_def)
  then show ?thesis using deserialize_serialize_header [OF wf ser, of "length ser" "[]"] by simp
qed

lemma fwd_message_step:
  "\<exists>fw. fwd_step sample_env pool_env (udp_ops ideal_send) None (\<lambda>_ _ w. w) 0 fwd_message fwd_start
     = Some (fw, [(5, sample_hash sample_service, fwd_source)])"
proof -
  let ?m = "\<lparr>m_keys = [sample_hash sample_service], m_elems = [sample_publisher]\<rparr>" and ?x = "fwd_receiver\<lparr>t2i_forwarder := fst fwd_start\<rparr>"
  obtain n where n: "deserializeHeader sample_env fwd_bytes (length fwd_bytes) = Inr (fwd_header, n)" using fwd_bytes_parsed by blast
  have hash: "header_hash sample_env fwd_bytes (length fwd_bytes) = sample_hash sample_service"
    by (simp add: header_hash_def n) (simp add: fwd_header_def)
  have "vm_wf 1 ?m" "vm_lookup ?m (serviceHash fwd_header) = Some sample_publisher"
    by (simp_all add: vm_wf_def fwd_header_def vm_lookup_def vm_defs)
  then have "releaseBuffer sample_env fwd_bytes (length fwd_bytes) False fwd_source (?m, ?x)
      = releaseChannel fwd_header False fwd_source sample_publisher ?x"
    by (simp add: releaseBuffer_def n doForChannel_eq)
  moreover have "\<exists>y c. releaseChannel fwd_header False fwd_source sample_publisher ?x = Inr y \<and> iox_events y = [Published 1 5 c]"
    by (simp add: releaseChannel_def fwd_header_def sample_header_def fwd_receiver_def findAndDecrement_def vm_defs publishChunk_def
        sample_publisher_def sample_receiver_def t2i_initial_def)
  moreover have "m_forwardedServiceHashes (fst fwd_start) = [sample_hash sample_service]" "snd fwd_start = []" "iox_events ?x = []"
    by (simp_all add: fwd_start_def new_TransportForwarder_tables new_forwarder_def sample_env_def push_back_def MAX_FORWARDED_SERVICES_def
        fwd_receiver_def sample_receiver_def t2i_initial_def)
  ultimately show ?thesis
    by (auto simp: fwd_step_def fwd_message_def hash Let_def goes_in_def case_prod_unfold MAX_FORWARDED_SERVICES_def)
qed


end
