(* ===== verification/UdpReceive.thy ===== *)
theory UdpReceive
  imports UdpTransport Runs
begin

text \<open>
  The life of a \<^verbatim>\<open>UDPTransport\<close> object (\<^verbatim>\<open>source/udp/udp_transport.cpp\<close>,
  \<^verbatim>\<open>source/udp/udp_transport_broadcast.cpp\<close>): construction, registration of the callbacks, the two
  receive operations that keep themselves going, the sends of the gateway's threads and destruction.
  The state counts the receive operations outstanding on either socket; a completion is an event that
  needs an outstanding operation and a worker thread that still runs the context. What the socket
  library answers is part of the events: whether binding and the socket options succeed and whether a receive
  operation can be started.
\<close>

section \<open>Construction and destruction\<close>

record 'n udp_object =
  uo_layer :: transport_layer
  uo_state :: "'n udp_state"
  uo_discoveryCallback :: bool
  uo_userDataCallback :: bool
  uo_discoveryReceives :: nat
  uo_dataReceives :: nat
  uo_joinable :: bool
  uo_running :: bool

record udp_outcome =
  binds :: bool
  interfaces :: "iface list"
  broadcast_options_ok :: bool
  options_ok :: bool
  discovery_starts :: bool
  data_starts :: bool

definition discoveryAsyncReceive :: "bool \<Rightarrow> 'n udp_object \<Rightarrow> 'n udp_object" where
  "discoveryAsyncReceive starts x =
     (if starts then x\<lparr>uo_discoveryReceives := Suc (uo_discoveryReceives x)\<rparr> else x\<lparr>uo_state := setBroadcastFailed (uo_state x)\<rparr>)"

definition dataAsyncReceive :: "bool \<Rightarrow> 'n udp_object \<Rightarrow> 'n udp_object" where
  "dataAsyncReceive starts x =
     (if starts then x\<lparr>uo_dataReceives := Suc (uo_dataReceives x)\<rparr> else x\<lparr>uo_layer := setFailed (uo_layer x)\<rparr>)"

text \<open>The sockets are bound in the initialisers, outside the try block of a constructor that is \<^verbatim>\<open>noexcept\<close>.\<close>

definition new_UDPBroadcast :: "udp_outcome \<Rightarrow> 'n udp_object \<Rightarrow> 'n udp_object" where
  "new_UDPBroadcast out x =
     (let x1 = x\<lparr>uo_state := discoverBroadcastAddresses (interfaces out) 0 (uo_state x)\<rparr>
      in if broadcast_options_ok out then discoveryAsyncReceive (discovery_starts out) x1
         else x1\<lparr>uo_state := setBroadcastFailed (uo_state x1)\<rparr>)"

definition new_UDPTransport :: "udp_outcome \<Rightarrow> 'n \<Rightarrow> 'n udp_object result" where
  "new_UDPTransport out n =
     (let x = new_UDPBroadcast out
                \<lparr>uo_layer = \<lparr>getType = UDP, m_status = GOOD\<rparr>,
                 uo_state = \<lparr>m_interfaceEndpoints = [], m_broadcastEndpoints = [], m_devices = [], broadcastStatus = GOOD, udp_net = n\<rparr>,
                 uo_discoveryCallback = False, uo_userDataCallback = False, uo_discoveryReceives = 0, uo_dataReceives = 0,
                 uo_joinable = False, uo_running = False\<rparr>
      in if \<not> binds out then Inl Uncaught_Exception
         else if \<not> options_ok out then Inr (x\<lparr>uo_layer := setFailed (uo_layer x)\<rparr>)
         else Inr (dataAsyncReceive (data_starts out) (x\<lparr>uo_joinable := True, uo_running := True\<rparr>)))"

text \<open>The destructor joins the thread; joining one that was never started throws.\<close>

definition delete_UDPTransport :: "'n udp_object \<Rightarrow> 'n udp_object result" where
  "delete_UDPTransport x =
     (if uo_joinable x then Inr (x\<lparr>uo_joinable := False, uo_running := False\<rparr>) else Inl Uncaught_Exception)"

section \<open>Events\<close>

datatype udp_event =
    Register_Discovery
  | Register_User_Data
  | Discovery_Received bool "byte list" endpoint bool
  | Data_Received bool "byte list" endpoint bool
  | Broadcast "byte list"
  | Send "byte list" "byte list" u32
  | Context_Throws
  | Check_Failed

text \<open>
  The completion handlers: the outcome of the callback of \<open>UdpTransport\<close>, which starts the next
  receive as its last action unless it was given an error, and the message handed to the
  registered callback, if there is one.
\<close>

definition discovery_completion ::
  "bool \<Rightarrow> byte list \<Rightarrow> endpoint \<Rightarrow> bool \<Rightarrow> 'n udp_object \<Rightarrow> 'n udp_object \<times> delivery" where
  "discovery_completion ec bytes e starts x =
     (case discoverySocketCallback ec bytes e True (uo_state x) of (u, d) \<Rightarrow>
        let x1 = x\<lparr>uo_discoveryReceives := uo_discoveryReceives x - 1, uo_state := u\<rparr>
        in (if ec then x1 else discoveryAsyncReceive starts x1, if uo_discoveryCallback x then d else None))"

definition data_completion ::
  "bool \<Rightarrow> byte list \<Rightarrow> endpoint \<Rightarrow> bool \<Rightarrow> 'n udp_object \<Rightarrow> 'n udp_object \<times> delivery" where
  "data_completion ec bytes e starts x =
     (case dataSocketCallback ec bytes e True (uo_layer x) (uo_state x) of (t, d) \<Rightarrow>
        let x1 = x\<lparr>uo_dataReceives := uo_dataReceives x - 1, uo_layer := t\<rparr>
        in (if ec then x1 else dataAsyncReceive starts x1, if uo_userDataCallback x then d else None))"

definition udp_step :: "'n send_to \<Rightarrow> udp_event \<Rightarrow> 'n udp_object \<Rightarrow> ('n udp_object \<times> delivery) option" where
  "udp_step send ev x =
     (case ev of
        Register_Discovery \<Rightarrow> Some (x\<lparr>uo_discoveryCallback := True\<rparr>, None)
      | Register_User_Data \<Rightarrow> Some (x\<lparr>uo_userDataCallback := True\<rparr>, None)
      | Discovery_Received ec bytes e starts \<Rightarrow>
          (if uo_running x \<and> uo_discoveryReceives x \<noteq> 0 then Some (discovery_completion ec bytes e starts x) else None)
      | Data_Received ec bytes e starts \<Rightarrow>
          (if uo_running x \<and> uo_dataReceives x \<noteq> 0 then Some (data_completion ec bytes e starts x) else None)
      | Broadcast bytes \<Rightarrow>
          (case udpSendBroadcast send (uo_layer x) bytes (uo_state x) of (t, u) \<Rightarrow> Some (x\<lparr>uo_layer := t, uo_state := u\<rparr>, None))
      | Send d1 d2 dev \<Rightarrow>
          (case udpSendUserData send (uo_layer x) d1 d2 dev (uo_state x) of
             (t, p, u) \<Rightarrow> Some (x\<lparr>uo_layer := t, uo_state := u\<rparr>, None))
      | Context_Throws \<Rightarrow>
          (if uo_running x then Some (x\<lparr>uo_running := False, uo_layer := setFailed (uo_layer x)\<rparr>, None) else None)
      | Check_Failed \<Rightarrow> Some (x\<lparr>uo_layer := fst (hasFailedSetDisabled (uo_layer x))\<rparr>, None))"

definition udp_next :: "'n send_to \<Rightarrow> udp_event \<Rightarrow> 'n udp_object \<Rightarrow> 'n udp_object option" where
  "udp_next send ev x = map_option fst (udp_step send ev x)"

lemma udp_next_Some: "udp_next send ev x = Some y \<Longrightarrow> \<exists>d. udp_step send ev x = Some (y, d)"
  by (auto simp: udp_next_def)

section \<open>The receive operations keep going\<close>

text \<open>
  At most one receive is outstanding on a socket, so its buffer and endpoint have one user; an object
  in good state is receiving.
\<close>

definition receiving_inv :: "'n udp_object \<Rightarrow> bool" where
  "receiving_inv x \<longleftrightarrow> uo_dataReceives x \<le> 1 \<and> uo_discoveryReceives x \<le> 1 \<and> udp_inv (uo_state x) \<and>
     (isGood (uo_layer x) \<longrightarrow> uo_joinable x \<and> uo_running x \<and> uo_dataReceives x = 1) \<and>
     (broadcastStatus (uo_state x) = GOOD \<longrightarrow> uo_discoveryReceives x = 1)"

lemma setFailed_not_good [simp]: "\<not> isGood (setFailed t)"
  by (simp add: setFailed_def isGood_def status_defs)

lemma setBroadcastFailed_status [simp]: "broadcastStatus (setBroadcastFailed u) \<noteq> GOOD"
  by (simp add: setBroadcastFailed_def)

lemma setBroadcastFailed_devices [simp]: "m_devices (setBroadcastFailed u) = m_devices u"
  by (simp add: setBroadcastFailed_def)

lemma hasFailedSetDisabled_good [simp]: "isGood (fst (hasFailedSetDisabled t)) = isGood t"
  by (simp add: isGood_def status_defs)

lemma udp_inv_devices: "m_devices u' = m_devices u \<Longrightarrow> udp_inv u' = udp_inv u"
  by (simp add: udp_inv_def)

lemma sendBroadcastLoop_state:
  "m_devices (sendBroadcastLoop send bytes es u) = m_devices u \<and>
    (broadcastStatus (sendBroadcastLoop send bytes es u) = GOOD \<longrightarrow> broadcastStatus u = GOOD)"
  by (induction send bytes es u rule: sendBroadcastLoop.induct) (auto simp: setBroadcastFailed_def split: option.splits)

lemma udpSendUserData_state:
  assumes "udpSendUserData send t d1 d2 dev u = (t', p, u')"
  shows "m_devices u' = m_devices u \<and> (broadcastStatus u' = GOOD \<longrightarrow> broadcastStatus u = GOOD) \<and> (isGood t' \<longrightarrow> isGood t)"
  using assms by (auto simp: udpSendUserData_def getEndpoint_def setBroadcastFailed_def split: if_splits option.splits)

lemma discovery_callback_status:
  "broadcastStatus (fst (discoverySocketCallback ec bytes e True u)) = GOOD \<longleftrightarrow> \<not> ec \<and> broadcastStatus u = GOOD"
  by (auto simp: discoverySocketCallback_def setBroadcastFailed_def Let_def)

lemma discovery_completion_inv:
  assumes "receiving_inv x"
  shows "receiving_inv (fst (discovery_completion ec bytes e starts x))"
proof -
  obtain u d where cb: "discoverySocketCallback ec bytes e True (uo_state x) = (u, d)" by fastforce
  have "udp_inv u" "broadcastStatus u = GOOD \<longleftrightarrow> \<not> ec \<and> broadcastStatus (uo_state x) = GOOD"
    using discoverySocketCallback_inv [of "uo_state x" ec bytes e True] discovery_callback_status [of ec bytes e "uo_state x"] cb assms
    by (simp_all add: receiving_inv_def)
  then show ?thesis
    using assms by (auto simp: discovery_completion_def cb receiving_inv_def discoveryAsyncReceive_def udp_inv_def)
qed

lemma data_completion_inv:
  assumes "receiving_inv x"
  shows "receiving_inv (fst (data_completion ec bytes e starts x))"
  using assms by (auto simp: data_completion_def dataSocketCallback_def receiving_inv_def dataAsyncReceive_def)

lemma udp_step_inv:
  assumes "receiving_inv x" "udp_step send ev x = Some (y, d)"
  shows "receiving_inv y"
proof (cases ev)
  case (Discovery_Received ec bytes e starts)
  then show ?thesis
    using assms discovery_completion_inv [OF assms(1), of ec bytes e starts] by (auto simp: udp_step_def split: if_splits)
next
  case (Data_Received ec bytes e starts)
  then show ?thesis
    using assms data_completion_inv [OF assms(1), of ec bytes e starts] by (auto simp: udp_step_def split: if_splits)
next
  case (Broadcast bytes)
  then show ?thesis
    using assms sendBroadcastLoop_state [of send bytes "m_broadcastEndpoints (uo_state x)" "uo_state x"]
    by (auto simp: udp_step_def udpSendBroadcast_def receiving_inv_def udp_inv_def)
next
  case (Send d1 d2 dev)
  obtain t p u where "udpSendUserData send (uo_layer x) d1 d2 dev (uo_state x) = (t, p, u)" by (metis prod_cases3)
  then show ?thesis
    using Send assms udpSendUserData_state [of send "uo_layer x" d1 d2 dev "uo_state x" t p u]
    by (auto simp: udp_step_def receiving_inv_def udp_inv_def)
qed (use assms in \<open>auto simp: udp_step_def receiving_inv_def split: if_splits\<close>)

interpretation receiving: step_invariant "udp_next send" receiving_inv for send
  by unfold_locales (use udp_next_Some udp_step_inv in blast)

lemma discoverBroadcastAddresses_state:
  "m_devices (discoverBroadcastAddresses fs n u) = m_devices u \<and> broadcastStatus (discoverBroadcastAddresses fs n u) = broadcastStatus u"
  by (induction fs n u rule: discoverBroadcastAddresses.induct) (simp_all add: Let_def)

lemma new_UDPTransport_inv: "new_UDPTransport out n = Inr x \<Longrightarrow> receiving_inv x"
  by (auto simp: new_UDPTransport_def new_UDPBroadcast_def receiving_inv_def udp_inv_def discoveryAsyncReceive_def dataAsyncReceive_def
      discoverBroadcastAddresses_state Let_def split: if_splits)

text \<open>The thread can be joined from construction on, or never.\<close>

lemma udp_step_joinable: "udp_step send ev x = Some (y, d) \<Longrightarrow> uo_joinable y = uo_joinable x"
  by (auto simp: udp_step_def discovery_completion_def data_completion_def discoveryAsyncReceive_def dataAsyncReceive_def Let_def
      split: udp_event.splits if_splits prod.splits)

interpretation joinable: step_invariant "udp_next send" "\<lambda>x. uo_joinable x = b" for send b
  by unfold_locales (use udp_next_Some udp_step_joinable in blast)

section \<open>Properties\<close>

text \<open>
  C14. Receiving goes on: after construction and any sequence of events there is at most one receive
  operation on either socket, so that no two of them share a buffer; while the layer is good the data socket
  has one, and while the broadcast object is good so has the discovery socket. A good layer hands a datagram
  from a known address to the registered callback, with the device's index, and is ready for the next.
\<close>

theorem udp_keeps_receiving:
  assumes "new_UDPTransport out n = Inr x\<^sub>0" "run_events (udp_next send) evs x\<^sub>0 = Some x"
  shows "uo_dataReceives x \<le> 1 \<and> uo_discoveryReceives x \<le> 1 \<and>
    (broadcastStatus (uo_state x) = GOOD \<longrightarrow> uo_discoveryReceives x = 1) \<and>
    (isGood (uo_layer x) \<longrightarrow> uo_dataReceives x = 1 \<and>
      (\<forall>bytes e i. uo_userDataCallback x \<longrightarrow> getIndex (address e) (uo_state x) = Some i \<longrightarrow>
        udp_step send (Data_Received False bytes e True) x = Some (x, Some (bytes, \<lparr>di_type = UDP, di_device = i\<rparr>))))"
proof -
  have "receiving_inv x" using receiving.run_keeps [OF assms(2) new_UDPTransport_inv [OF assms(1)]] .
  then show ?thesis
    by (auto simp: receiving_inv_def udp_step_def data_completion_def dataSocketCallback_def dataAsyncReceive_def)
qed

definition good_start :: udp_outcome where
  "good_start = \<lparr>binds = True, interfaces = [], broadcast_options_ok = True, options_ok = True, discovery_starts = True, data_starts = True\<rparr>"

theorem udp_keeps_receiving_witness:
  "\<exists>x\<^sub>0 x. new_UDPTransport good_start [] = Inr x\<^sub>0 \<and>
    run_events (udp_next ideal_send) [Register_Discovery, Register_User_Data, Discovery_Received False [1] \<lparr>address = 5, port = DISCOVERY_PORT\<rparr> True] x\<^sub>0
      = Some x \<and>
    udp_step ideal_send (Data_Received False [8, 9] \<lparr>address = 5, port = DATA_PORT\<rparr> True) x
      = Some (x, Some ([8, 9], \<lparr>di_type = UDP, di_device = 0\<rparr>))"
proof -
  let ?evs = "[Register_Discovery, Register_User_Data, Discovery_Received False [1] \<lparr>address = 5, port = DISCOVERY_PORT\<rparr> True]"
  let ?new = "new_UDPTransport good_start [] :: (byte list \<times> endpoint) list udp_object result"
  have run: "(case ?new of Inl _ \<Rightarrow> None
      | Inr x\<^sub>0 \<Rightarrow> map_option (\<lambda>x. (isGood (uo_layer x), uo_userDataCallback x, getIndex 5 (uo_state x))) (run_events (udp_next ideal_send) ?evs x\<^sub>0))
    = Some (True, True, Some 0)"
    by code_simp
  then obtain x\<^sub>0 where x0: "?new = Inr x\<^sub>0" by (cases ?new) auto
  with run obtain x where x: "run_events (udp_next ideal_send) ?evs x\<^sub>0 = Some x" "isGood (uo_layer x)" "uo_userDataCallback x"
    "getIndex 5 (uo_state x) = Some 0" by auto
  show ?thesis using udp_keeps_receiving [OF x0 x(1)] x0 x by fastforce
qed

text \<open>
  The broadcast object has a status of its own, which the registry never asks for: after an error on the
  discovery socket the layer is as good as before, but no discovery message is received any more and
  no device is added, whatever happens.
\<close>

lemma no_discovery_step:
  assumes "uo_discoveryReceives x = 0" "udp_step send ev x = Some (y, d)"
  shows "uo_discoveryReceives y = 0 \<and> m_devices (uo_state y) = m_devices (uo_state x)"
proof (cases ev)
  case (Broadcast bytes)
  then show ?thesis
    using assms sendBroadcastLoop_state [of send bytes "m_broadcastEndpoints (uo_state x)" "uo_state x"]
    by (auto simp: udp_step_def udpSendBroadcast_def)
next
  case (Send d1 d2 dev)
  obtain t p u where "udpSendUserData send (uo_layer x) d1 d2 dev (uo_state x) = (t, p, u)" by (metis prod_cases3)
  then show ?thesis
    using Send assms udpSendUserData_state [of send "uo_layer x" d1 d2 dev "uo_state x" t p u] by (auto simp: udp_step_def)
qed (use assms in \<open>auto simp: udp_step_def data_completion_def dataAsyncReceive_def Let_def split: if_splits prod.splits\<close>)

interpretation no_discovery: step_invariant "udp_next send" "\<lambda>x. uo_discoveryReceives x = 0 \<and> m_devices (uo_state x) = devs" for send devs
  by unfold_locales (use udp_next_Some no_discovery_step in blast)

theorem discovery_loss_unnoticed:
  assumes "receiving_inv x" "udp_next send (Discovery_Received True bytes e starts) x = Some y" "run_events (udp_next send) evs y = Some z"
  shows "uo_layer y = uo_layer x \<and> uo_discoveryReceives z = 0 \<and> m_devices (uo_state z) = m_devices (uo_state x)"
proof -
  have y: "uo_layer y = uo_layer x" "uo_discoveryReceives y = 0 \<and> m_devices (uo_state y) = m_devices (uo_state x)"
    using assms(1,2)
    by (auto simp: udp_next_def udp_step_def discovery_completion_def discoverySocketCallback_def receiving_inv_def split: if_splits)
  then show ?thesis using no_discovery.run_keeps [OF assms(3) y(2)] by simp
qed

text \<open>
  A layer whose socket options could not be set is only marked as failed, but its thread was never
  started; its destructor then ends the process. Every other object is destroyed in order.
\<close>

theorem destruction:
  assumes "new_UDPTransport out n = Inr x\<^sub>0" "run_events (udp_next send) evs x\<^sub>0 = Some x"
  shows "delete_UDPTransport x = (if options_ok out then Inr (x\<lparr>uo_joinable := False, uo_running := False\<rparr>) else Inl Uncaught_Exception)"
proof -
  have "uo_joinable x\<^sub>0 = options_ok out"
    using assms(1) by (auto simp: new_UDPTransport_def new_UDPBroadcast_def discoveryAsyncReceive_def dataAsyncReceive_def Let_def split: if_splits)
  then show ?thesis using joinable.run_keeps [OF assms(2)] by (simp add: delete_UDPTransport_def)
qed

end
