(* ===== verification/TcpObject.thy ===== *)
theory TcpObject
  imports TcpSessions UdpReceive
begin

text \<open>
  The life of a \<^verbatim>\<open>TCPTransport\<close> object (\<^verbatim>\<open>source/tcp/tcp_transport.cpp\<close>): construction, registration of
  callbacks, the accept and the discovery receive that keep themselves going, the sessions' operations, the
  sends of the gateway's threads and destruction. The handlers are those of \<open>TcpTransport\<close>, the broadcast
  object is constructed as in \<open>UdpReceive\<close>; the state counts the accepts and discovery receives that are
  outstanding.
\<close>

section \<open>Construction and destruction\<close>

record ('n, 'c) tcp_object =
  to_layer :: transport_layer
  to_state :: "('n, 'c) tcp_state"
  to_broadcastCallback :: bool
  to_discoveryCallback :: bool
  to_userDataCallback :: bool
  to_accepts :: nat
  to_discoveryReceives :: nat
  to_joinable :: bool
  to_running :: bool

text \<open>
  The broadcast object is constructed in the initialisers of a \<^verbatim>\<open>noexcept\<close> constructor, which binds its
  socket; its callback is registered after accepting has started.
\<close>

definition new_TCPTransport :: "udp_outcome \<Rightarrow> bool \<Rightarrow> 'n \<Rightarrow> 'c \<Rightarrow> ('n, 'c) tcp_object result" where
  "new_TCPTransport out opened n net =
     (let b = new_UDPBroadcast out
                \<lparr>uo_layer = \<lparr>getType = TCP, m_status = GOOD\<rparr>,
                 uo_state = \<lparr>m_interfaceEndpoints = [], m_broadcastEndpoints = [], m_devices = [], broadcastStatus = GOOD, udp_net = n\<rparr>,
                 uo_discoveryCallback = False, uo_userDataCallback = False, uo_discoveryReceives = 0, uo_dataReceives = 0,
                 uo_joinable = False, uo_running = False\<rparr>
      in if \<not> binds out then Inl Uncaught_Exception
         else case newTcpTransport opened (uo_state b) net of (t, st) \<Rightarrow>
           Inr \<lparr>to_layer = t, to_state = st, to_broadcastCallback = opened, to_discoveryCallback = False, to_userDataCallback = False,
                to_accepts = (if opened then 1 else 0), to_discoveryReceives = uo_discoveryReceives b,
                to_joinable = opened, to_running = opened\<rparr>)"

definition delete_TCPTransport :: "('n, 'c) tcp_object \<Rightarrow> ('n, 'c) tcp_object result" where
  "delete_TCPTransport x =
     (if to_joinable x then Inr (x\<lparr>to_joinable := False, to_running := False\<rparr>) else Inl Uncaught_Exception)"

section \<open>Events\<close>

datatype tcp_object_event =
    Tcp_Register_Discovery
  | Tcp_Register_User_Data
  | Handle tcp_event
  | Tcp_Broadcast "byte list"
  | Tcp_Send "byte list" "byte list" u32
  | Tcp_Context_Throws
  | Tcp_Check_Failed

text \<open>A message reaches the gateway if it has registered the callback for it.\<close>

definition passes :: "('n, 'c) tcp_object \<Rightarrow> tcp_delivery option \<Rightarrow> tcp_delivery option" where
  "passes x out =
     (case out of
        Some (Discovery_Info bytes i) \<Rightarrow> (if to_discoveryCallback x then out else None)
      | Some (User_Data bytes i) \<Rightarrow> (if to_userDataCallback x then out else None)
      | None \<Rightarrow> None)"

text \<open>The handlers count the operations they complete and start; a discovery message that nobody is registered for is dropped.\<close>

definition handles_event :: "iox_env \<Rightarrow> tcp_event \<Rightarrow> ('n, 'c) tcp_object \<Rightarrow> (transport_layer \<times> ('n, 'c) tcp_state \<times> tcp_delivery option) result" where
  "handles_event E ev x =
     (case ev of
        Discovered ec bytes sender rearmed noDelay \<Rightarrow>
          if to_broadcastCallback x then tcp_handle E ev (to_layer x, to_state x)
          else Inr (to_layer x, (to_state x)\<lparr>m_broadcast := fst (discoverySocketCallback ec bytes sender rearmed (m_broadcast (to_state x)))\<rparr>, None)
      | _ \<Rightarrow> tcp_handle E ev (to_layer x, to_state x))"

fun counts :: "tcp_event \<Rightarrow> ('n, 'c) tcp_object \<Rightarrow> ('n, 'c) tcp_object" where
  "counts (Accepted ec peer noDelay) x = x\<lparr>to_accepts := to_accepts x - 1 + (if ec then 0 else 1)\<rparr>"
| "counts (Discovered ec bytes sender rearmed noDelay) x =
     x\<lparr>to_discoveryReceives := to_discoveryReceives x - 1 + (if \<not> ec \<and> rearmed then 1 else 0)\<rparr>"
| "counts (Completed p oper ec bytes) x = x"

fun outstanding :: "tcp_event \<Rightarrow> ('n, 'c) tcp_object \<Rightarrow> bool" where
  "outstanding (Accepted ec peer noDelay) x \<longleftrightarrow> to_accepts x \<noteq> 0"
| "outstanding (Discovered ec bytes sender rearmed noDelay) x \<longleftrightarrow> to_discoveryReceives x \<noteq> 0"
| "outstanding (Completed p oper ec bytes) x \<longleftrightarrow> tcp_enabled (Completed p oper ec bytes) (to_state x)"

definition tcp_object_step ::
  "iox_env \<Rightarrow> 'n send_to \<Rightarrow> 'c stream_write \<Rightarrow> tcp_object_event \<Rightarrow> ('n, 'c) tcp_object
     \<Rightarrow> (('n, 'c) tcp_object \<times> tcp_delivery option) result option" where
  "tcp_object_step E send wr ev x =
     (case ev of
        Tcp_Register_Discovery \<Rightarrow> Some (Inr (x\<lparr>to_discoveryCallback := True\<rparr>, None))
      | Tcp_Register_User_Data \<Rightarrow> Some (Inr (x\<lparr>to_userDataCallback := True\<rparr>, None))
      | Handle e \<Rightarrow>
          (if to_running x \<and> outstanding e x
           then Some (bindR (handles_event E e x) (\<lambda>(t, st, out). Inr ((counts e x)\<lparr>to_layer := t, to_state := st\<rparr>, passes x out)))
           else None)
      | Tcp_Broadcast bytes \<Rightarrow>
          (case tcpSendBroadcast send (to_layer x) bytes (to_state x) of (t, st) \<Rightarrow> Some (Inr (x\<lparr>to_layer := t, to_state := st\<rparr>, None)))
      | Tcp_Send data1 data2 dev \<Rightarrow>
          Some (bindR (tcpSendUserData wr (to_layer x) data1 data2 dev (to_state x)) (\<lambda>(t, pending, st).
            Inr (x\<lparr>to_layer := t, to_state := st\<rparr>, None)))
      | Tcp_Context_Throws \<Rightarrow>
          (if to_running x then Some (Inr (x\<lparr>to_running := False, to_layer := setFailed (to_layer x)\<rparr>, None)) else None)
      | Tcp_Check_Failed \<Rightarrow> Some (Inr (x\<lparr>to_layer := fst (hasFailedSetDisabled (to_layer x))\<rparr>, None)))"

text \<open>A step that does not end in a fault.\<close>

definition tcp_object_next :: "iox_env \<Rightarrow> 'n send_to \<Rightarrow> 'c stream_write \<Rightarrow> tcp_object_event \<Rightarrow> ('n, 'c) tcp_object \<Rightarrow> ('n, 'c) tcp_object option" where
  "tcp_object_next E send wr ev x = (case tcp_object_step E send wr ev x of Some (Inr (y, out)) \<Rightarrow> Some y | _ \<Rightarrow> None)"

section \<open>The handlers and the broadcast object\<close>

lemma findSession_broadcast [simp]: "m_broadcast (fst (findSession e st)) = m_broadcast st"
  by (simp add: findSession_def split: prod.split)

lemma findSession_Pair: "findSession e st = (st', n) \<Longrightarrow> m_broadcast st' = m_broadcast st"
  using findSession_broadcast [of e st] by simp

lemma handleSessionOpen_broadcast: "handleSessionOpen p st = Inr (st', out) \<Longrightarrow> m_broadcast st' = m_broadcast st"
  by (auto simp: handleSessionOpen_def Let_def dest!: findSession_Pair split: option.splits if_splits prod.splits)

lemma startBack_broadcast: "startBack nd st = Inr st' \<Longrightarrow> m_broadcast st' = m_broadcast st"
  by (auto simp: startBack_def split: if_splits)

lemma addClientSession_broadcast: "addClientSession e nd st = Inr st' \<Longrightarrow> m_broadcast st' = m_broadcast st"
  by (auto simp: addClientSession_def dest!: startBack_broadcast)

lemma addServerSession_broadcast: "addServerSession nd st = Inr (st', out) \<Longrightarrow> m_broadcast st' = m_broadcast st"
  by (auto simp: addServerSession_def result_simps dest!: startBack_broadcast handleSessionOpen_broadcast split: option.splits prod.splits)

lemma startAccept_broadcast [simp]: "m_broadcast (startAccept st) = m_broadcast st"
  by (simp add: startAccept_def destroy_def Let_def split: option.split)

lemma sessionClosedHandler_broadcast [simp]: "m_broadcast (sessionClosedHandler p st) = m_broadcast st"
  by (simp add: sessionClosedHandler_def handleSessionClose_def destroy_def updateSession_def Let_def)

lemma connectionFailedHandler_broadcast [simp]: "m_broadcast (connectionFailedHandler s st) = m_broadcast st"
  by (simp add: connectionFailedHandler_def Let_def)

lemma completes_broadcast:
  assumes "completes p oper handler st = Inr (st', out)"
    and "\<And>s st0. handler s st0 = Inr (st', out) \<Longrightarrow> m_broadcast st' = m_broadcast st0"
  shows "m_broadcast st' = m_broadcast st"
  using assms by (auto simp: completes_def split: option.splits)

lemma completion_broadcast:
  assumes "tcp_handle E (Completed p oper ec bytes) (t, st) = Inr (t', st', out)"
  shows "t' = t \<and> m_broadcast st' = m_broadcast st"
proof -
  have "connectHandler p ec st = Inr (st', out) \<Longrightarrow> m_broadcast st' = m_broadcast st"
    unfolding connectHandler_def
    by (erule completes_broadcast) (auto simp: result_simps dest!: handleSessionOpen_broadcast split: if_splits)
  moreover have "retryHandler p ec st = Inr (st', out) \<Longrightarrow> m_broadcast st' = m_broadcast st"
    unfolding retryHandler_def by (erule completes_broadcast) (auto split: if_splits)
  moreover have "readOuter p ec bytes st = Inr (st', out) \<Longrightarrow> m_broadcast st' = m_broadcast st"
    unfolding readOuter_def by (erule completes_broadcast) (auto split: if_splits)
  moreover have "readInner p n ec bytes st = Inr (st', out) \<Longrightarrow> m_broadcast st' = m_broadcast st" for n
    unfolding readInner_def by (erule completes_broadcast) (auto split: if_splits)
  ultimately show ?thesis using assms by (auto simp: result_simps split: async_op.splits)
qed

lemma acceptHandler_broadcast:
  assumes "acceptHandler ec peer nd (t, st) = Inr (t', st', out)"
  shows "m_broadcast st' = m_broadcast st \<and> (isGood t' \<longleftrightarrow> isGood t \<and> \<not> ec)"
proof (cases ec)
  case True
  then show ?thesis using assms by (auto simp: acceptHandler_def)
next
  case False
  obtain s where s: "m_serverListeningSession st = Some s" using assms False by (auto simp: acceptHandler_def split: option.splits)
  obtain s1 e where e: "remoteEndpoint (s\<lparr>ts_peer := peer\<rparr>) = (s1, e)" by fastforce
  obtain st1 iter where f: "findSession e (st\<lparr>m_serverListeningSession := Some s1\<rparr>) = (st1, iter)" by fastforce
  have "m_broadcast st1 = m_broadcast st" using findSession_Pair [OF f] by simp
  moreover obtain st2 where "t' = t" "st' = startAccept st2"
    "(if iter = length (m_transportSessions st1) then addServerSession nd st1 else Inr (st1, None)) = Inr (st2, out)"
    using assms False s e f by (auto simp: acceptHandler_def result_simps)
  ultimately show ?thesis using False addServerSession_broadcast [of nd st1 st2 out] by (auto split: if_splits)
qed

lemma discovery_status:
  "broadcastStatus (fst (discoverySocketCallback ec bytes e rearmed u)) = GOOD \<longleftrightarrow> \<not> ec \<and> rearmed \<and> broadcastStatus u = GOOD"
  by (auto simp: discoverySocketCallback_def setBroadcastFailed_def Let_def)

lemma udpDiscoveryCallback_status:
  assumes "udpDiscoveryCallback E nd bytes i st = Inr (st', out)" "broadcastStatus (m_broadcast st') = GOOD"
  shows "broadcastStatus (m_broadcast st) = GOOD"
proof -
  obtain b e where b: "getEndpoint (di_device i) (m_broadcast st) = (b, e)" by fastforce
  let ?e = "\<lparr>address = address e, port = DATA_PORT\<rparr>"
  obtain st1 iter where f: "findSession ?e (st\<lparr>m_broadcast := b\<rparr>) = (st1, iter)" by fastforce
  have "m_broadcast st1 = b" using findSession_Pair [OF f] by simp
  then have "m_broadcast st' = b"
    using assms(1) b f by (auto simp: udpDiscoveryCallback_def Let_def result_simps dest!: addClientSession_broadcast split: if_splits)
  then show ?thesis using assms(2) b setBroadcastFailed_status [of "m_broadcast st"] by (auto simp: getEndpoint_def simp del: setBroadcastFailed_status split: if_splits)
qed

lemma discovered_status:
  assumes "tcp_handle E (Discovered ec bytes e rearmed nd) (t, st) = Inr (t', st', out)"
  shows "t' = t \<and> (broadcastStatus (m_broadcast st') = GOOD \<longrightarrow> \<not> ec \<and> rearmed \<and> broadcastStatus (m_broadcast st) = GOOD)"
proof -
  obtain b d where b: "discoverySocketCallback ec bytes e rearmed (m_broadcast st) = (b, d)" by fastforce
  then have good: "broadcastStatus b = GOOD \<longleftrightarrow> \<not> ec \<and> rearmed \<and> broadcastStatus (m_broadcast st) = GOOD"
    using discovery_status [of ec bytes e rearmed "m_broadcast st"] by simp
  show ?thesis
  proof (cases d)
    case None
    then show ?thesis using assms b good by auto
  next
    case (Some a)
    then obtain m i where "udpDiscoveryCallback E nd m i (st\<lparr>m_broadcast := b\<rparr>) = Inr (st', out)" "t' = t"
      using assms b by (cases a) (auto simp: result_simps)
    then show ?thesis using udpDiscoveryCallback_status good by fastforce
  qed
qed

section \<open>Accepting and receiving go on\<close>

definition accepting_inv :: "('n, 'c) tcp_object \<Rightarrow> bool" where
  "accepting_inv x \<longleftrightarrow> to_accepts x \<le> 1 \<and> to_discoveryReceives x \<le> 1 \<and>
     (isGood (to_layer x) \<longrightarrow> to_joinable x \<and> to_running x \<and> to_accepts x = 1) \<and>
     (broadcastStatus (m_broadcast (to_state x)) = GOOD \<longrightarrow> to_discoveryReceives x = 1)"

lemma handles_event_inv:
  assumes "accepting_inv x" "outstanding e x" "handles_event E e x = Inr (t, st, out)"
  shows "accepting_inv ((counts e x)\<lparr>to_layer := t, to_state := st\<rparr>)"
proof (cases e)
  case (Accepted ec peer nd)
  then show ?thesis
    using assms acceptHandler_broadcast [of ec peer nd "to_layer x" "to_state x" t st out] by (auto simp: handles_event_def accepting_inv_def)
next
  case (Discovered ec bytes sender rearmed nd)
  have "isGood t = isGood (to_layer x) \<and>
      (broadcastStatus (m_broadcast st) = GOOD \<longrightarrow> \<not> ec \<and> rearmed \<and> broadcastStatus (m_broadcast (to_state x)) = GOOD)"
    using assms(3) Discovered discovered_status [of E ec bytes sender rearmed nd "to_layer x" "to_state x" t st out]
      discovery_status [of ec bytes sender rearmed "m_broadcast (to_state x)"]
    unfolding handles_event_def by (auto split: if_splits)
  then show ?thesis using assms(1,2) Discovered by (auto simp: accepting_inv_def)
next
  case (Completed p oper ec bytes)
  then show ?thesis
    using assms completion_broadcast [of E p oper ec bytes "to_layer x" "to_state x" t st out]
    unfolding handles_event_def accepting_inv_def by auto
qed

lemma tcp_object_step_inv:
  assumes "accepting_inv x" "tcp_object_step E send wr ev x = Some (Inr (y, out))"
  shows "accepting_inv y"
proof (cases ev)
  case (Handle e)
  then obtain t st o' where "outstanding e x" "handles_event E e x = Inr (t, st, o')" "y = (counts e x)\<lparr>to_layer := t, to_state := st\<rparr>"
    using assms(2) by (auto simp: tcp_object_step_def result_simps split: if_splits)
  then show ?thesis using handles_event_inv [OF assms(1)] by simp
next
  case (Tcp_Broadcast bytes)
  then show ?thesis
    using assms sendBroadcastLoop_state [of send bytes "m_broadcastEndpoints (m_broadcast (to_state x))" "m_broadcast (to_state x)"]
    by (auto simp: tcp_object_step_def tcpSendBroadcast_def accepting_inv_def)
next
  case (Tcp_Send data1 data2 dev)
  then show ?thesis
    using assms by (auto simp: tcp_object_step_def tcpSendUserData_def accepting_inv_def result_simps Let_def split: if_splits)
qed (use assms in \<open>auto simp: tcp_object_step_def accepting_inv_def split: if_splits\<close>)

lemma tcp_object_next_Some: "tcp_object_next E send wr ev x = Some y \<Longrightarrow> \<exists>out. tcp_object_step E send wr ev x = Some (Inr (y, out))"
  by (auto simp: tcp_object_next_def split: option.splits sum.splits)

interpretation accepting: step_invariant "tcp_object_next E send wr" accepting_inv for E send wr
  by unfold_locales (use tcp_object_next_Some tcp_object_step_inv in blast)

lemma new_TCPTransport_inv: "new_TCPTransport out opened n net = Inr x \<Longrightarrow> accepting_inv x"
  by (auto simp: new_TCPTransport_def newTcpTransport_def new_UDPBroadcast_def accepting_inv_def discoveryAsyncReceive_def
      discoverBroadcastAddresses_state Let_def split: if_splits)

lemma counts_joinable [simp]: "to_joinable (counts e x) = to_joinable x"
  by (cases e) simp_all

lemma tcp_object_joinable: "tcp_object_step E send wr ev x = Some (Inr (y, out)) \<Longrightarrow> to_joinable y = to_joinable x"
  by (auto simp: tcp_object_step_def result_simps split: tcp_object_event.splits if_splits prod.splits)

interpretation tcp_joinable: step_invariant "tcp_object_next E send wr" "\<lambda>x. to_joinable x = b" for E send wr b
  by unfold_locales (use tcp_object_next_Some tcp_object_joinable in blast)

section \<open>Properties\<close>



end
