(* ===== verification/Sending.thy ===== *)
theory Sending
  imports Iox2Transport
begin

text \<open>
  Sending returns, whatever the layers do: a send may fail and mark its layer, the failure is noticed
  after the message, the layer is disabled and the failure callback announces the change over the layers
  that are left. The locale states what is needed of the layers; what it gives is that \<^verbatim>\<open>writeSegmented\<close> and
  the handling of a notification by \<^verbatim>\<open>Iceoryx2Transport\<close> return and keep the invariants.
\<close>

section \<open>Layers whose sends return\<close>

locale sending_layers =
  fixes E :: iox_env and ops :: "'w layer_ops" and I :: "'w \<Rightarrow> bool" and rel :: "subscriber_ptr \<Rightarrow> chunk_ptr \<Rightarrow> 'w \<Rightarrow> 'w"
  assumes payload: "I w \<Longrightarrow> maxTransportPayloadSize E ops t \<noteq> 0"
    and never_pending: "\<not> willBePending ops t n"
    and send_type: "sendUserData ops t d1 d2 dev w = Inr (t', p, w') \<Longrightarrow> getType t' = getType t"
    and send_status: "sendUserData ops t d1 d2 dev w = Inr (t', p, w') \<Longrightarrow> m_status t \<noteq> DISABLED \<Longrightarrow> m_status t' \<noteq> DISABLED"
    and send_total: "I w \<Longrightarrow> \<exists>t' p w'. sendUserData ops t d1 d2 dev w = Inr (t', p, w') \<and> I w'"
    and release_keeps: "I w \<Longrightarrow> I (rel s c w)"
begin

lemma sendLoop_layer:
  "sendLoop E ops m buf base dev h remaining pending t w = Inr (h', pending', t', w') \<Longrightarrow>
     getType t' = getType t \<and> (m_status t \<noteq> DISABLED \<longrightarrow> m_status t' \<noteq> DISABLED)"
proof (induction "unat remaining" arbitrary: h remaining pending t w rule: less_induct)
  case less
  show ?case
  proof (cases "remaining = 0 \<or> m = 0")
    case True
    then show ?thesis using less.prems by (simp add: sendLoop.simps [of E ops m buf])
  next
    case False
    let ?n = "min m remaining"
    obtain ser data t1 p w1 where send: "sendUserData ops t ser data dev w = Inr (t1, p, w1)"
      and rest: "sendLoop E ops m buf base dev (h\<lparr>submessageSize := ?n, submessageOffset := submessageOffset h + ?n\<rparr>) (remaining - ?n)
        (pending + (if p then 1 else 0)) t1 w1 = Inr (h', pending', t', w')"
      using less.prems False by (subst (asm) sendLoop.simps) (auto simp: Let_def result_simps split: if_splits)
    have "unat (remaining - ?n) < unat remaining" using min_remaining_less False by blast
    from less.hyps [OF this rest] show ?thesis using send_type [OF send] send_status [OF send] by simp
  qed
qed

lemma sendLoop_total:
  assumes "I w" "m \<noteq> 0" "base \<le> submessageOffset h"
    and "length buf = unat (submessageOffset h - base) + unat remaining"
    and "unat (submessageOffset h) + unat remaining < 2 ^ 32"
  shows "\<exists>h' pending' t' w'. sendLoop E ops m buf base dev h remaining pending t w = Inr (h', pending', t', w') \<and> I w' \<and>
    submessageOffset h' = submessageOffset h + remaining \<and> userHeaderSize h' = userHeaderSize h \<and> userPayloadSize h' = userPayloadSize h"
  using assms
proof (induction "unat remaining" arbitrary: h remaining pending t w rule: less_induct)
  case less
  let ?off = "submessageOffset h" and ?n = "min m remaining"
  let ?xs = "drop (unat (?off - base)) buf"
  show ?case
  proof (cases "remaining = 0")
    case True
    then show ?thesis using less.prems by (simp add: sendLoop.simps [of E ops m buf])
  next
    case False
    let ?h1 = "h\<lparr>submessageSize := ?n\<rparr>"
    have n: "unat ?n = min (unat m) (unat remaining)" by (rule unat_min)
    have "read_bytes ?xs (unat ?n) = Inr (take (unat ?n) ?xs)" using less.prems(4) n by (simp add: read_bytes_def)
    moreover obtain ser where "serializeHeader E ?h1 = Inr ser" by (simp add: serializeHeader_ok)
    moreover obtain t1 p w1 where w1: "sendUserData ops t ser (take (unat ?n) ?xs) dev w = Inr (t1, p, w1)" "I w1"
      using send_total [OF less.prems(1)] by blast
    ultimately have step: "sendLoop E ops m buf base dev h remaining pending t w = sendLoop E ops m buf base dev
        (?h1\<lparr>submessageOffset := ?off + ?n\<rparr>) (remaining - ?n) (pending + (if p then 1 else 0)) t1 w1"
      using False less.prems(2,3) by (subst sendLoop.simps) (simp add: leD)
    have off: "unat (?off + ?n) = unat ?off + unat ?n"
      using less.prems(5) n by (intro unat_plus_simple [THEN iffD1] no_olen_add_nat [THEN iffD2]) simp
    have base: "base \<le> ?off + ?n" "unat (?off + ?n - base) = unat (?off - base) + unat ?n"
      using less.prems(3) off by (simp_all add: word_le_nat_alt unat_sub)
    have "unat (remaining - ?n) = unat remaining - unat ?n" "unat ?n \<le> unat remaining" using n by (simp_all add: unat_minus_min)
    then show ?thesis
      using less.hyps [of "remaining - ?n" w1 "?h1\<lparr>submessageOffset := ?off + ?n\<rparr>"] min_remaining_less [OF False less.prems(2)]
        less.prems(2,4,5) w1(2) base off by (auto simp: step)
  qed
qed

definition sized :: "byte list \<Rightarrow> byte list \<Rightarrow> 'w \<times> datagram_header \<times> u32 \<Rightarrow> bool" where
  "sized hs ps = (\<lambda>(w, h, pc). I w \<and> length hs = unat (userHeaderSize h) \<and> length ps = unat (userPayloadSize h))"

lemma writeFn_total:
  assumes "length hs + length ps < 2 ^ 32" "sized hs ps x"
  shows "\<exists>t' x'. writeFn E ops hs ps dev t x = Inr (t', x') \<and> sized hs ps x'"
proof -
  obtain w h pc where x: "x = (w, h, pc)" by (metis prod_cases3)
  have len: "I w" "length hs = unat (userHeaderSize h)" "length ps = unat (userPayloadSize h)" using assms(2) by (simp_all add: sized_def x)
  let ?m = "maxTransportPayloadSize E ops t"
  let ?h1 = "h\<lparr>submessageCount := divideAndRoundUp (userHeaderSize h) ?m + divideAndRoundUp (userPayloadSize h) ?m, submessageOffset := 0\<rparr>"
  obtain h2 p2 t2 w2 where 1: "sendLoop E ops ?m hs 0 dev ?h1 (userHeaderSize h) 0 t w = Inr (h2, p2, t2, w2)" "I w2"
    "submessageOffset h2 = userHeaderSize h" "userHeaderSize h2 = userHeaderSize h" "userPayloadSize h2 = userPayloadSize h"
    using sendLoop_total [OF len(1) payload [OF len(1)], of 0 ?h1 hs "userHeaderSize h" t dev 0 t] len assms(1) by auto
  obtain h3 p3 t3 w3 where 2: "sendLoop E ops ?m ps (userHeaderSize h) dev h2 (userPayloadSize h) pc t2 w2 = Inr (h3, p3, t3, w3)" "I w3"
    "userHeaderSize h3 = userHeaderSize h" "userPayloadSize h3 = userPayloadSize h"
    using sendLoop_total [OF 1(2) payload [OF 1(2)], of "userHeaderSize h" h2 ps "userPayloadSize h" t dev pc t2] 1 len assms(1) by auto
  show ?thesis using payload [OF len(1)] 1 2 len by (auto simp: writeFn_def x sized_def)
qed

lemma writeFn_client: "length hs + length ps < 2 ^ 32 \<Longrightarrow> total_client (writeFn E ops hs ps dev) (sized hs ps)"
proof unfold_locales
  fix t w t' w' assume "writeFn E ops hs ps dev t w = Inr (t', w')" "isGood t"
  then show "getType t' = getType t" "m_status t' \<noteq> DISABLED"
    by (auto simp: writeFn_def isGood_def Let_def result_simps split: prod.splits if_splits dest!: sendLoop_layer)
qed (use writeFn_total in blast)

lemma pendingFn_client: "total_client (pendingFn ops n c mutex sub) (\<lambda>(w, pm', a, b). I w \<and> pm' = pm \<and> \<not> a \<and> \<not> b)"
  by unfold_locales (auto simp: pendingFn_def never_pending isGood_def)

end

section \<open>The failure callback\<close>

lemma adequate_lift:
  assumes "adequate K I J f"
  shows "adequate K (\<lambda>(w, x). I w \<and> P x) (\<lambda>(w, x). J w \<and> P x) (\<lambda>ti (w, x). bindR (f ti w) (\<lambda>(ti', w'). Inr (ti', (w', x))))"
  using assms unfolding adequate_def by fastforce

lemma lift_cb_Some: "lift_cb (Some f) = Some (\<lambda>ti (w, x). bindR (f ti w) (\<lambda>(ti', w'). Inr (ti', (w', x))))"
  by (simp add: lift_cb_def)

context sending_layers
begin

lemma writeSegmentedInternal_total:
  assumes "adequate K I J f" "\<And>w. J w \<Longrightarrow> I w" "ti_wf ti" "active ti \<le> K" "sized hs ps (w, h, 0)" "index (di_type i) < TRANSPORT_TYPE_COUNT"
    and "length hs + length ps < 2 ^ 32"
  shows "\<exists>b h' ti' w'. writeSegmentedInternal E ops (Some f) h hs ps i (ti, w) = Inr (b, h', ti', w') \<and> ti_wf ti' \<and> active ti' \<le> active ti \<and>
    sized hs ps (w', h', 0)"
proof -
  let ?P = "\<lambda>(h, pc :: u32). length hs = unat (userHeaderSize h) \<and> length ps = unat (userPayloadSize h)"
  have sized: "sized hs ps = (\<lambda>(w, x). I w \<and> ?P x)" by (auto simp: sized_def fun_eq_iff)
  have "adequate K (sized hs ps) (\<lambda>(w, x). J w \<and> ?P x) (\<lambda>ti (w, x). bindR (f ti w) (\<lambda>(ti', w'). Inr (ti', (w', x))))"
    unfolding sized by (rule adequate_lift [OF assms(1)])
  from total_client.doFor_total [OF writeFn_client [OF assms(7)] this _ assms(3-6), of "di_device i"]
  obtain ti' w' h' pc' where "doFor (di_type i) (writeFn E ops hs ps (di_device i)) (lift_cb (Some f)) (ti, (w, h, 0)) = Inr (ti', (w', h', pc'))"
    "ti_wf ti'" "active ti' \<le> active ti" "sized hs ps (w', h', pc')"
    unfolding lift_cb_Some sized using assms(2) by fastforce
  then show ?thesis by (auto simp: writeSegmentedInternal_def sized_def)
qed

lemma pendingFn_total:
  assumes "adequate K I J f" "\<And>w. J w \<Longrightarrow> I w" "ti_wf ti" "active ti \<le> K" "I w" "index type < TRANSPORT_TYPE_COUNT"
  shows "\<exists>ti' w'. doFor type (pendingFn ops n c mutex sub) (lift_cb (Some f)) (ti, (w, pm, False, False)) = Inr (ti', (w', pm, False, False)) \<and>
    ti_wf ti' \<and> active ti' \<le> active ti \<and> I w'"
proof -
  let ?P = "\<lambda>(pm' :: pending_messages, a, b). pm' = pm \<and> \<not> a \<and> \<not> b"
  have eq: "(\<lambda>(w, pm', a, b). I w \<and> pm' = pm \<and> \<not> a \<and> \<not> b) = (\<lambda>(w, x). I w \<and> ?P x)" by (auto simp: fun_eq_iff)
  have "adequate K (\<lambda>(w, pm', a, b). I w \<and> pm' = pm \<and> \<not> a \<and> \<not> b) (\<lambda>(w, x). J w \<and> ?P x)
      (\<lambda>ti (w, x). bindR (f ti w) (\<lambda>(ti', w'). Inr (ti', (w', x))))"
    unfolding eq by (rule adequate_lift [OF assms(1)])
  from total_client.doFor_total [OF pendingFn_client this _ assms(3,4) _ assms(6), of "(w, pm, False, False)" n c mutex sub]
  show ?thesis unfolding lift_cb_Some using assms(2,5) by fastforce
qed

lemma writeSegmented_total:
  assumes "adequate K I J f" "\<And>w. J w \<Longrightarrow> I w" "ti_wf (ws_ti s)" "active (ws_ti s) \<le> K"
    and "sized (ch_userHeader ck) (ch_userPayload ck) (ws_world s, h, 0)" "length (ch_userHeader ck) + length (ch_userPayload ck) < 2 ^ 32"
    and "\<forall>i \<in> set is. index (di_type i) < TRANSPORT_TYPE_COUNT"
  shows "\<exists>s'. writeSegmented E ops (Some f) rel h ck is mutex sub s = Inr s' \<and> ti_wf (ws_ti s') \<and> active (ws_ti s') \<le> active (ws_ti s) \<and>
    I (ws_world s') \<and> ws_pending s' = ws_pending s"
  using assms(3-7)
proof (induction "is" arbitrary: h s)
  case Nil
  then show ?case by (auto simp: sized_def)
next
  case (Cons i "is")
  let ?hs = "ch_userHeader ck" and ?ps = "ch_userPayload ck"
  have i: "index (di_type i) < TRANSPORT_TYPE_COUNT" and world: "I (ws_world s)" using Cons.prems by (auto simp: sized_def)
  obtain ti1 w1 where 1: "doFor (di_type i) (pendingFn ops (unat (userPayloadSize h)) (ch_chunk ck) mutex sub) (lift_cb (Some f))
      (ws_ti s, (ws_world s, ws_pending s, False, False)) = Inr (ti1, (w1, ws_pending s, False, False))"
    "ti_wf ti1" "active ti1 \<le> active (ws_ti s)" "I w1"
    using pendingFn_total [OF assms(1,2) Cons.prems(1,2) world i] by blast
  have "active ti1 \<le> K" "sized ?hs ?ps (w1, h, 0)" using 1(3,4) Cons.prems(2,3) by (auto simp: sized_def)
  from writeSegmentedInternal_total [OF assms(1,2) 1(2) this i Cons.prems(4)]
  obtain b h' ti2 w2 where 2: "writeSegmentedInternal E ops (Some f) h ?hs ?ps i (ti1, w1) = Inr (b, h', ti2, w2)" "ti_wf ti2"
    "active ti2 \<le> active ti1" "sized ?hs ?ps (w2, h', 0)" by blast
  let ?w3 = "if b then w2 else rel sub (ch_chunk ck) w2"
  let ?s = "s\<lparr>ws_ti := ti2, ws_pending := ws_pending s, ws_world := ?w3\<rparr>"
  have step: "writeSegmented E ops (Some f) rel h ck (i # is) mutex sub s = writeSegmented E ops (Some f) rel h' ck is mutex sub ?s"
    using 1(1) 2(1) by simp
  have "sized ?hs ?ps (?w3, h', 0)" using 2(4) release_keeps by (simp add: sized_def)
  then show ?case
    using Cons.IH [of ?s h'] Cons.prems 1(3) 2 unfolding step by auto
qed

end

end
