(* ===== verification/GatewaySystem.thy ===== *)
theory GatewaySystem
  imports GatewayApp Sending TcpSessions Runs
begin

text \<open>
  The running gateway as one system: what arrives on the sockets of the UDP and the TCP layer, samples of
  the port introspection, chunks of local publishers and turns of the main loop, in any order. Every event
  runs the handler of the layer, hands what it delivers to the gateway and runs the gateway's own callback,
  with all components of the previous theories in one state. Handlers are atomic here; what the
  threads do in between is the subject of \<open>WaitsetThreads\<close> and \<open>LockOrder\<close>.
\<close>

section \<open>Sending\<close>

definition gw_sendUserData ::
  "'n send_to \<Rightarrow> 'c stream_write \<Rightarrow> transport_layer \<Rightarrow> byte list \<Rightarrow> byte list \<Rightarrow> u32 \<Rightarrow> discovery \<times> ('n, 'c) gw_world
     \<Rightarrow> (transport_layer \<times> bool \<times> discovery \<times> ('n, 'c) gw_world) result" where
  "gw_sendUserData send wr t data1 data2 dev = (\<lambda>(d, w).
     if getType t = TCP
     then bindR (tcpSendUserData wr t data1 data2 dev (gw_tcp w)) (\<lambda>(t', isPending, u). Inr (t', isPending, (d, w\<lparr>gw_tcp := u\<rparr>)))
     else case udpSendUserData send t data1 data2 dev (gw_udp w) of (t', isPending, u) \<Rightarrow> Inr (t', isPending, (d, w\<lparr>gw_udp := u\<rparr>)))"

definition gw_ops :: "'n send_to \<Rightarrow> 'c stream_write \<Rightarrow> (discovery \<times> ('n, 'c) gw_world) layer_ops" where
  "gw_ops send wr = \<lparr>sendUserData = gw_sendUserData send wr, willBePending = (\<lambda>_ _. False),
     maxMessageSize = (\<lambda>t. if getType t = TCP then MAX_PACKET_SIZE else MAX_DATAGRAM_SIZE)\<rparr>"

definition gw_release :: "subscriber_ptr \<Rightarrow> chunk_ptr \<Rightarrow> discovery \<times> ('n, 'c) gw_world \<Rightarrow> discovery \<times> ('n, 'c) gw_world" where
  "gw_release sub c = (\<lambda>(d, w). (d, w\<lparr>gw_i2t := (gw_i2t w)\<lparr>i2t_released := i2t_released (gw_i2t w) @ [(sub, c)]\<rparr>\<rparr>))"

text \<open>
  A notification of \<^verbatim>\<open>Iceoryx2Transport\<close>: the device indices are looked up, and cached, before the chunk is
  written, so that the failure callback finds the manager with its cache filled.
\<close>

definition gw_chunkTaken ::
  "iox_env \<Rightarrow> pub_env \<Rightarrow> sub_env \<Rightarrow> 'n send_to \<Rightarrow> 'c stream_write \<Rightarrow> subscriber \<Rightarrow> taken_chunk option \<Rightarrow> hash
     \<Rightarrow> transport_info \<times> (discovery \<times> ('n, 'c) gw_world) \<Rightarrow> (transport_info \<times> (discovery \<times> ('n, 'c) gw_world)) result" where
  "gw_chunkTaken E G S send wr sub taken msgHash = (\<lambda>(ti, (d, w)).
     let d1 = (case taken of None \<Rightarrow> d
               | Some tc \<Rightarrow> fst (generateDeviceIndices E ti d (tc_originId tc) (getClassHash E (sub_service sub))))
     in bindR (i2t_notification E (gw_ops send wr) (Some (transportFailCallback (gw_env E G S send) callback_fuel)) gw_release 0 sub taken msgHash
                 (d, \<lparr>ws_ti = ti, ws_pending = i2t_pending (gw_i2t w), ws_world = (d1, w)\<rparr>))
          (\<lambda>(_, s). case ws_world s of (d2, w2) \<Rightarrow>
             Inr (ws_ti s, (d2, w2\<lparr>gw_i2t := (gw_i2t w2)\<lparr>i2t_pending := ws_pending s\<rparr>\<rparr>))))"

section \<open>Events\<close>

datatype gw_event =
    Udp_Discovery bool "byte list" endpoint bool
  | Udp_Data bool "byte list" endpoint bool
  | Tcp_Event tcp_event
  | Port_Sample "port_sample option"
  | Chunk_Taken subscriber "taken_chunk option" hash
  | Buffer_Needed "byte list"
  | Buffer_Released "byte list" bool device_index
  | Buffer_Sent chunk_ptr
  | Main_Turn time_point

text \<open>
  What the handler of a layer leaves behind and delivers. A handler of the TCP layer calls the gateway before
  it starts its next operation; these are independent, since the gateway only uses the layer's broadcast object.
\<close>

definition gw_layerEvent ::
  "iox_env \<Rightarrow> gw_event \<Rightarrow> ('n, 'c) app_state \<Rightarrow> (('n, 'c) app_state \<times> tcp_delivery option) result" where
  "gw_layerEvent E ev = (\<lambda>((ti, (d, w)), last).
     case ev of
       Udp_Discovery ec bytes e rearmed \<Rightarrow>
         (case discoverySocketCallback ec bytes e rearmed (gw_udp w) of (u, out) \<Rightarrow>
            Inr (((ti, (d, w\<lparr>gw_udp := u\<rparr>)), last), map_option (\<lambda>(b, i). Discovery_Info b i) out))
     | Udp_Data ec bytes e rearmed \<Rightarrow>
         (case s_transports ti ! index UDP of
            None \<Rightarrow> Inr (((ti, (d, w)), last), None)
          | Some t \<Rightarrow> (case dataSocketCallback ec bytes e rearmed t (gw_udp w) of (t', out) \<Rightarrow>
              Inr (((put_transport (index UDP) t' ti, (d, w)), last), map_option (\<lambda>(b, i). User_Data b i) out)))
     | Tcp_Event tev \<Rightarrow>
         (case s_transports ti ! index TCP of
            None \<Rightarrow> Inr (((ti, (d, w)), last), None)
          | Some t \<Rightarrow> bindR (tcp_handle E tev (t, gw_tcp w)) (\<lambda>(t', st, out).
              Inr (((put_transport (index TCP) t' ti, (d, w\<lparr>gw_tcp := st\<rparr>)), last), out)))
     | _ \<Rightarrow> Inr (((ti, (d, w)), last), None))"

text \<open>The callbacks that the discovery manager and \<^verbatim>\<open>Transport2Iceoryx\<close> have registered with the layers.\<close>

definition gw_discoveryCallback ::
  "iox_env \<Rightarrow> pub_env \<Rightarrow> sub_env \<Rightarrow> 'n send_to \<Rightarrow> byte list \<Rightarrow> device_index \<Rightarrow> ('n, 'c) app_state \<Rightarrow> ('n, 'c) app_state result" where
  "gw_discoveryCallback E G S send bytes dev = (\<lambda>(s, last).
     bindR (receiveRemoteDiscoveryInfo (gw_env E G S send) bytes (length bytes) dev s) (\<lambda>s'. Inr (s', last)))"

definition gw_userDataCallback ::
  "iox_env \<Rightarrow> pub_env \<Rightarrow> time_point \<Rightarrow> byte list \<Rightarrow> device_index \<Rightarrow> ('n, 'c) app_state \<Rightarrow> ('n, 'c) app_state result" where
  "gw_userDataCallback E G now bytes dev = (\<lambda>((ti, (d, w)), last).
     bindR (receive E G now 0 bytes (length bytes) dev (gw_publishers w, gw_t2i w)) (\<lambda>x. Inr ((ti, (d, w\<lparr>gw_t2i := x\<rparr>)), last)))"

definition gw_deliver ::
  "iox_env \<Rightarrow> pub_env \<Rightarrow> sub_env \<Rightarrow> 'n send_to \<Rightarrow> time_point \<Rightarrow> ('n, 'c) app_state \<times> tcp_delivery option \<Rightarrow> ('n, 'c) app_state result" where
  "gw_deliver E G S send now = (\<lambda>(s, out).
     case out of
       None \<Rightarrow> Inr s
     | Some (Discovery_Info bytes dev) \<Rightarrow> gw_discoveryCallback E G S send bytes dev s
     | Some (User_Data bytes dev) \<Rightarrow> gw_userDataCallback E G now bytes dev s)"

text \<open>The callbacks for layers that receive into loaned chunks and send without copying.\<close>

definition gw_bufferNeededCallback ::
  "iox_env \<Rightarrow> pub_env \<Rightarrow> time_point \<Rightarrow> byte list \<Rightarrow> ('n, 'c) app_state \<Rightarrow> (('n, 'c) app_state \<times> loaned_buffer option) result" where
  "gw_bufferNeededCallback E G now bytes = (\<lambda>((ti, (d, w)), last).
     bindR (loanBuffer E G now 0 bytes (length bytes) (gw_publishers w, gw_t2i w)) (\<lambda>(x, buffer).
     Inr (((ti, (d, w\<lparr>gw_t2i := x\<rparr>)), last), buffer)))"

definition gw_bufferReleasedCallback ::
  "iox_env \<Rightarrow> byte list \<Rightarrow> bool \<Rightarrow> device_index \<Rightarrow> ('n, 'c) app_state \<Rightarrow> ('n, 'c) app_state result" where
  "gw_bufferReleasedCallback E bytes shouldRelease dev = (\<lambda>((ti, (d, w)), last).
     bindR (releaseBuffer E bytes (length bytes) shouldRelease dev (gw_publishers w, gw_t2i w)) (\<lambda>x.
     Inr ((ti, (d, w\<lparr>gw_t2i := x\<rparr>)), last)))"

definition gw_bufferSentCallback :: "chunk_ptr \<Rightarrow> ('n, 'c) app_state \<Rightarrow> ('n, 'c) app_state" where
  "gw_bufferSentCallback userPayload = (\<lambda>((ti, (d, w)), last).
     case pm_release (i2t_pending (gw_i2t w)) userPayload of (pm, msgToRelease) \<Rightarrow>
       ((ti, (d, w\<lparr>gw_i2t := (gw_i2t w)\<lparr>i2t_pending := pm,
          i2t_released := i2t_released (gw_i2t w) @ (case msgToRelease of None \<Rightarrow> [] | Some r \<Rightarrow> [r])\<rparr>\<rparr>)), last))"

definition gw_handle ::
  "iox_env \<Rightarrow> pub_env \<Rightarrow> sub_env \<Rightarrow> 'n send_to \<Rightarrow> 'c stream_write \<Rightarrow> time_point \<Rightarrow> gw_event \<Rightarrow> ('n, 'c) app_state \<Rightarrow> ('n, 'c) app_state result" where
  "gw_handle E G S send wr now ev s =
     (case ev of
        Port_Sample sample \<Rightarrow> bindR (readPortSubscriber (gw_env E G S send) sample (fst s)) (\<lambda>s'. Inr (s', snd s))
      | Chunk_Taken sub taken msgHash \<Rightarrow> bindR (gw_chunkTaken E G S send wr sub taken msgHash (fst s)) (\<lambda>s'. Inr (s', snd s))
      | Buffer_Needed bytes \<Rightarrow> bindR (gw_bufferNeededCallback E G now bytes s) (\<lambda>(s', buffer). Inr s')
      | Buffer_Released bytes shouldRelease dev \<Rightarrow> gw_bufferReleasedCallback E bytes shouldRelease dev s
      | Buffer_Sent userPayload \<Rightarrow> Inr (gw_bufferSentCallback userPayload s)
      | Main_Turn t \<Rightarrow> mainLoopTurn (gw_env E G S send) t s
      | _ \<Rightarrow> bindR (gw_layerEvent E ev s) (gw_deliver E G S send now))"

section \<open>The invariant\<close>

definition typed :: "device_index \<Rightarrow> bool" where
  "typed i \<longleftrightarrow> index (di_type i) < TRANSPORT_TYPE_COUNT"

text \<open>The device indices that are stored, in records or in the cache, name transports of the registry.\<close>

definition disc_typed :: "discovery \<Rightarrow> bool" where
  "disc_typed d \<longleftrightarrow> (\<forall>r \<in> set (records (m_remoteState d)). list_all typed (dr_deviceIndices r)) \<and>
     (\<forall>h is. vm_lookup (deviceIndicesCache (m_remoteState d)) h = Some is \<longrightarrow> list_all typed is)"

definition sys_world :: "('n, 'c) gw_world \<Rightarrow> bool" where
  "sys_world w \<longleftrightarrow> gw_inv w \<and> tcp_inv (gw_tcp w)"

definition gw_records :: "transport_info \<times> (discovery \<times> ('n, 'c) gw_world) \<Rightarrow> device_record list" where
  "gw_records = (\<lambda>(ti, (d, w)). records (m_remoteState d))"

definition sys_inv :: "iox_env \<Rightarrow> ('n, 'c) app_state \<Rightarrow> bool" where
  "sys_inv E = (\<lambda>((ti, (d, w)), last). ti_wf ti \<and> wf_local E d \<and> sys_world w \<and> disc_inv d \<and> disc_typed d)"

lemma gw_updateCallback_tcp: "gw_updateCallback E G S ss (d, w) = Inr (d', w') \<Longrightarrow> gw_tcp w' = gw_tcp w"
  by (auto simp: gw_updateCallback_def result_simps)

lemma tcp_inv_broadcast [simp]: "tcp_inv (st\<lparr>m_broadcast := b\<rparr>) = tcp_inv st"
  by (simp add: tcp_inv_def)

interpretation sys: discovery_env "gw_env E G S send" sys_world for E G S send
proof
  show "\<exists>uids w'. updateCallback (gw_env E G S send) ss (d, w) = Inr (d\<lparr>m_gatewayPublisherUids := uids\<rparr>, w') \<and> sys_world w'"
    if "sys_world w" for w :: "('a, 'b) gw_world" and d ss
  proof -
    note w = that
    obtain uids w' where "gw_updateCallback E G S ss (d, w) = Inr (d\<lparr>m_gatewayPublisherUids := uids\<rparr>, w')" "gw_inv w'"
      using gw_updateCallback_ok [of w E G S ss d] w by (auto simp: sys_world_def)
    then show ?thesis using w gw_updateCallback_tcp by (fastforce simp: gw_env_def sys_world_def)
  qed
qed (auto simp: gw_env_def gw_sendBroadcast_def udpSendBroadcast_def tcpSendBroadcast_def sys_world_def gw_inv_def isGood_def split: if_splits)

subsection \<open>Discovery\<close>

lemma disc_typed_cong:
  "records (m_remoteState d') = records (m_remoteState d) \<Longrightarrow>
   deviceIndicesCache (m_remoteState d') \<in> {deviceIndicesCache (m_remoteState d), vm_empty} \<Longrightarrow>
   disc_inv d \<Longrightarrow> disc_typed d \<Longrightarrow> disc_inv d' \<and> disc_typed d'"
  by (auto simp: disc_inv_def disc_typed_def vm.invar_empty vm.lookup_empty)

lemma kept_typed:
  "d' = d \<or> d' = clear_cache d \<Longrightarrow> disc_inv d \<Longrightarrow> disc_typed d \<Longrightarrow> disc_inv d' \<and> disc_typed d'"
  using disc_typed_cong [of d' d] by auto

lemma updateRecord_typed:
  "list_all typed (dr_deviceIndices r) \<Longrightarrow> typed i \<Longrightarrow> list_all typed (dr_deviceIndices (updateRecord info i r))"
  by (auto simp: updateRecord_def push_back_def Let_def)

lemma storeRecord_typed:
  assumes "wf_records rs" "\<forall>r \<in> set rs. list_all typed (dr_deviceIndices r)" "typed i"
  shows "\<forall>r \<in> set (storeRecord info i rs). list_all typed (dr_deviceIndices r)"
proof (cases "gatewayHash info \<in> set (record_hashes rs)")
  case True
  then obtain k where k: "k < length rs" "storeRecord info i rs = rs[k := updateRecord info i (rs ! k)]"
    using storeRecord_known by blast
  then show ?thesis using assms updateRecord_typed [of "rs ! k" i info] set_update_subset_insert [of rs k "updateRecord info i (rs ! k)"] by auto
next
  case False
  show ?thesis
  proof (cases "length rs < MAX_DEVICE_COUNT")
    case True
    then show ?thesis using assms storeRecord_new [OF False True] by auto
  next
    case full: False
    then have len: "length rs = MAX_DEVICE_COUNT" using assms(1) by (simp add: wf_records_def)
    then have "rs \<noteq> []" by (auto simp: MAX_DEVICE_COUNT_def)
    then show ?thesis
      using assms updateRecord_typed [of "last rs" i info] storeRecord_full [OF False len] in_set_butlastD [of _ rs] by auto
  qed
qed

lemma recordIndex_typed:
  "list_all typed (dr_deviceIndices r) \<Longrightarrow> recordIndex d ti r = Some i \<Longrightarrow> typed i"
  by (auto simp: recordIndex_def Let_def list_all_iff find_Some_iff split: if_splits)

lemma computeDeviceIndices_typed:
  assumes "disc_inv d" "disc_typed d"
  shows "list_all typed (computeDeviceIndices E ti d h)"
proof -
  have "length (records (m_remoteState d)) \<le> MAX_DEVICE_COUNT" using assms(1) by (simp add: disc_inv_def wf_records_def)
  then show ?thesis
    using computeDeviceIndices_set [of d E ti h] recordIndex_typed assms(2) by (auto simp: list_all_iff disc_typed_def)
qed

lemma generateDeviceIndices_typed:
  assumes "disc_inv d" "disc_typed d" "generateDeviceIndices E ti d uid h = (d', is)"
  shows "disc_inv d' \<and> disc_typed d' \<and> list_all typed is \<and> m_localState d' = m_localState d \<and>
    records (m_remoteState d') = records (m_remoteState d)"
proof (cases "known_publisher d uid")
  case False
  then show ?thesis using assms generateDeviceIndices_unknown [of uid d E ti h] by simp
next
  case True
  let ?cache = "deviceIndicesCache (m_remoteState d)" and ?v = "computeDeviceIndices E ti d h"
  have inv: "vm_invar MAX_TOPICS ?cache" and wf: "vm_wf MAX_TOPICS ?cache" using assms(1) by (simp_all add: disc_inv_def vm_invar_def)
  note v = computeDeviceIndices_typed [OF assms(1,2), of E ti h]
  have gen: "generateDeviceIndices E ti d uid h =
      (if vm_find ?cache h = vm_end ?cache
       then case vm_emplace MAX_TOPICS ?cache h ?v of (cache', emplaced) \<Rightarrow>
         let d' = d\<lparr>m_remoteState := (m_remoteState d)\<lparr>deviceIndicesCache := cache'\<rparr>\<rparr>
         in if \<not> emplaced then (d', []) else (d', last (m_elems cache'))
       else (d, m_elems ?cache ! vm_find ?cache h))"
    using True by (simp add: generateDeviceIndices_def Let_def)
  show ?thesis
  proof (cases "vm_lookup ?cache h")
    case None
    from wf None have "vm_find ?cache h = vm_end ?cache" by (cases rule: vm_find_cases [where k = h]) (simp_all add: vm_end_wf)
    moreover have "snd (vm_emplace MAX_TOPICS ?cache h ?v) \<Longrightarrow> last (m_elems (fst (vm_emplace MAX_TOPICS ?cache h ?v))) = ?v"
      using vm_emplace_snd [OF wf] by (simp add: vm_emplace_room [OF wf])
    moreover have "vm_invar MAX_TOPICS (fst (vm_emplace MAX_TOPICS ?cache h ?v))" using vm.invar_emplace [OF inv None] .
    moreover have "vm_lookup (fst (vm_emplace MAX_TOPICS ?cache h ?v)) = vm_lookup ?cache \<or>
        vm_lookup (fst (vm_emplace MAX_TOPICS ?cache h ?v)) = (vm_lookup ?cache)(h \<mapsto> ?v)"
      using vm_lookup_emplace_fresh [OF inv _ None, of ?v] vm_emplace_rejects [OF inv, of h ?v] by (metis (mono_tags, lifting))
    ultimately show ?thesis
      using assms v by (auto simp: gen disc_inv_def disc_typed_def split: prod.splits if_splits)
  next
    case (Some js)
    have "vm_find ?cache h \<noteq> vm_end ?cache \<and> m_elems ?cache ! vm_find ?cache h = js"
      using wf Some by (cases rule: vm_find_cases [where k = h]) (simp_all add: vm_end_wf [OF wf])
    then show ?thesis using assms gen Some by (auto simp: disc_typed_def)
  qed
qed

subsection \<open>Layers\<close>

lemma setFailed_fields [simp]: "getType (setFailed t) = getType t" "m_status (setFailed t) = DISABLED \<longleftrightarrow> m_status t = DISABLED"
  by (simp_all add: setFailed_def status_defs)

lemma put_failed_wf:
  assumes "ti_wf ti" "i < TRANSPORT_TYPE_COUNT" "s_transports ti ! i = Some t" "t' = t \<or> t' = setFailed t"
  shows "ti_wf (put_transport i t' ti)"
proof -
  have "getType t' = getType t" "m_status t' = DISABLED \<longleftrightarrow> m_status t = DISABLED" using assms(4) by auto
  then show ?thesis
    using put_transport_wf [OF assms(1,2), of t' "s_bitset ti"] ti_wfD [OF assms(1)] assms(2,3) by auto
qed

lemma tcp_handle_layer: "tcp_handle E ev (t, st) = Inr (t', st', out) \<Longrightarrow> t' = t \<or> t' = setFailed t"
  by (cases ev) (auto simp: acceptHandler_def result_simps split: if_splits option.splits prod.splits async_op.splits)

definition info_typed :: "tcp_delivery option \<Rightarrow> bool" where
  "info_typed out = (case out of Some (Discovery_Info bytes i) \<Rightarrow> typed i | _ \<Rightarrow> True)"

lemma handleSessionOpen_typed: "handleSessionOpen p st = Inr (st', out) \<Longrightarrow> info_typed out"
  by (auto simp: handleSessionOpen_def info_typed_def typed_def remoteDiscoveryHandler_def TRANSPORT_TYPE_COUNT_def Let_def
      split: option.splits if_splits prod.splits)

lemma info_typed_None [simp]: "info_typed None"
  by (simp add: info_typed_def)

lemma completes_out:
  assumes "completes p oper handler st = Inr (st', out)" "\<And>s st0. handler s st0 = Inr (st', out) \<Longrightarrow> P"
  shows P
  using assms by (auto simp: completes_def split: option.splits)

lemma completion_typed:
  assumes "tcp_handle E (Completed p oper ec bytes) (t, st) = Inr (t', st', out)"
  shows "info_typed out"
proof -
  have "connectHandler p ec st = Inr (st', out) \<Longrightarrow> info_typed out"
    unfolding connectHandler_def by (erule completes_out) (auto simp: result_simps dest!: handleSessionOpen_typed split: if_splits)
  moreover have "retryHandler p ec st = Inr (st', out) \<Longrightarrow> info_typed out"
    unfolding retryHandler_def by (erule completes_out) auto
  moreover have "readOuter p ec bytes st = Inr (st', out) \<Longrightarrow> info_typed out"
    unfolding readOuter_def by (erule completes_out) auto
  moreover have "readInner p n ec bytes st = Inr (st', out) \<Longrightarrow> info_typed out" for n
    unfolding readInner_def
    by (erule completes_out) (auto simp: info_typed_def handleUserDataCallback_def split: if_splits option.splits)
  ultimately show ?thesis using assms by (auto simp: result_simps split: async_op.splits)
qed

lemma acceptHandler_typed: "acceptHandler ec peer nd (t, st) = Inr (t', st', out) \<Longrightarrow> info_typed out"
  by (auto simp: acceptHandler_def addServerSession_def result_simps dest!: handleSessionOpen_typed split: if_splits option.splits prod.splits)

lemma udpDiscoveryCallback_typed: "udpDiscoveryCallback E nd bytes i st = Inr (st', out) \<Longrightarrow> info_typed out"
  by (auto simp: udpDiscoveryCallback_def info_typed_def typed_def remoteDiscoveryHandler_def TRANSPORT_TYPE_COUNT_def Let_def result_simps
      split: if_splits prod.splits)

lemma tcp_handle_typed: "tcp_handle E ev (t, st) = Inr (t', st', out) \<Longrightarrow> info_typed out"
  using acceptHandler_typed completion_typed
  by (cases ev) (auto simp: result_simps dest!: udpDiscoveryCallback_typed simp del: tcp_handle.simps(3) split: prod.splits option.splits)

lemma discoverySocketCallback_typed:
  "discoverySocketCallback ec bytes e rearmed u = (u', out) \<Longrightarrow> info_typed (map_option (\<lambda>(b, i). Discovery_Info b i) out)"
  by (auto simp: discoverySocketCallback_def info_typed_def typed_def TRANSPORT_TYPE_COUNT_def Let_def split: if_splits prod.splits)

section \<open>Every event is handled\<close>

text \<open>What is relied on of \<^verbatim>\<open>asio::write\<close>: it writes all bytes, or throws.\<close>

definition writes_all :: "'c stream_write \<Rightarrow> bool" where
  "writes_all wr \<longleftrightarrow> (\<forall>p bytes net. snd (wr p bytes net) \<in> {None, Some (word_of_nat (length bytes))})"

lemma writes_allD: "writes_all wr \<Longrightarrow> snd (wr p bytes net) \<in> {None, Some (word_of_nat (length bytes))}"
  by (simp add: writes_all_def)

lemma sessionSendData_total: "writes_all wr \<Longrightarrow> \<exists>net'. sessionSendData wr p data1 data2 net = Inr (False, net')"
proof -
  assume all: "writes_all wr"
  let ?size = "nat_bytes 8 (unat (word_of_nat (length data1) + word_of_nat (length data2) :: u64))"
  obtain n1 r1 where 1: "wr p ?size net = (n1, r1)" by fastforce
  obtain n2 r2 where 2: "wr p (data1 @ data2) n1 = (n2, r2)" by fastforce
  have "snd (wr p ?size net) \<in> {None, Some 8}" "snd (wr p (data1 @ data2) n1) \<in> {None, Some (word_of_nat (length data1) + word_of_nat (length data2))}"
    using writes_allD [OF all, of p ?size net] writes_allD [OF all, of p "data1 @ data2" n1] by simp_all
  then show ?thesis using 1 2 by (auto simp: sessionSendData_def expects_def)
qed

definition gw_sizes :: "iox_env \<Rightarrow> bool" where
  "gw_sizes E \<longleftrightarrow> maxIoxChunkDatagramHeaderSerializationSize E < MAX_DATAGRAM_SIZE \<and> maxIoxChunkDatagramHeaderSerializationSize E < MAX_PACKET_SIZE"

lemma gw_payload: "gw_sizes E \<Longrightarrow> maxTransportPayloadSize E (gw_ops send wr) t \<noteq> 0"
  using payload_size [of E "gw_ops send wr" t]
  by (cases "getType t = TCP") (auto simp: gw_sizes_def gw_ops_def MAX_PACKET_SIZE_def MAX_DATAGRAM_SIZE_def)

text \<open>What holds while a chunk is written: the table of pending messages stays as it is, since no layer keeps a chunk.\<close>

definition sending :: "iox_env \<Rightarrow> 'c stream_write \<Rightarrow> pending_messages \<Rightarrow> ('n, 'c) gw_world \<Rightarrow> bool" where
  "sending E wr pm w \<longleftrightarrow> writes_all wr \<and> gw_sizes E \<and> sys_world w \<and> i2t_pending (gw_i2t w) = pm"

interpretation sends: broadcast_layer "gw_env E G S send" "sending E wr pm" for E G S send wr pm
  by unfold_locales
    (auto simp: gw_env_def gw_sendBroadcast_def udpSendBroadcast_def tcpSendBroadcast_def sending_def sys_world_def gw_inv_def isGood_def split: if_splits)

lemma gw_sendUserData_total:
  assumes "sending E wr pm w"
  shows "\<exists>t' p w'. gw_sendUserData send wr t d1 d2 dev (d, w) = Inr (t', p, (d, w')) \<and> sending E wr pm w'"
proof (cases "getType t = TCP")
  case True
  have wr: "writes_all wr" and "tcp_inv (gw_tcp w)" using assms by (simp_all add: sending_def sys_world_def)
  have "\<exists>p u. tcpSendUserData wr t d1 d2 dev (gw_tcp w) = Inr (t, p, u)"
    using sessionSendData_total [OF wr, of "ts_ptr (m_transportSessions (gw_tcp w) ! unat dev)" d1 d2 "tcp_net (gw_tcp w)"]
    by (auto simp: tcpSendUserData_def Let_def)
  then obtain p u where u: "tcpSendUserData wr t d1 d2 dev (gw_tcp w) = Inr (t, p, u)" by blast
  then have "tcp_inv u" using tcp_send_inv \<open>tcp_inv (gw_tcp w)\<close> by blast
  then show ?thesis using assms u True by (simp add: gw_sendUserData_def sending_def sys_world_def gw_inv_def)
next
  case False
  then show ?thesis
    using assms by (cases "udpSendUserData send t d1 d2 dev (gw_udp w)") (simp add: gw_sendUserData_def sending_def sys_world_def gw_inv_def)
qed

lemma completions_come_released [simp]: "completions_come (x\<lparr>i2t_released := r\<rparr>) = completions_come x"
  by (simp add: completions_come_def)

interpretation gw_sends: sending_layers E "gw_ops send wr" "\<lambda>s. at_most_cleared d s \<and> sending E wr pm (snd s)" gw_release for E send wr d pm
proof
  show "maxTransportPayloadSize E (gw_ops send wr) t \<noteq> 0" if "at_most_cleared d s \<and> sending E wr pm (snd s)" for s t
    using that gw_payload by (auto simp: sending_def)
  show "\<not> willBePending (gw_ops send wr) t n" for t n by (simp add: gw_ops_def)
  fix t d1 d2 dev w t' p w' assume run: "sendUserData (gw_ops send wr) t d1 d2 dev w = Inr (t', p, w')"
  from run show "m_status t' \<noteq> DISABLED" if "m_status t \<noteq> DISABLED"
    using that by (auto simp: gw_ops_def gw_sendUserData_def tcpSendUserData_def udpSendUserData_def result_simps Let_def
        split: if_splits prod.splits option.splits)
  from run show "getType t' = getType t"
    by (auto simp: gw_ops_def gw_sendUserData_def tcpSendUserData_def udpSendUserData_def result_simps Let_def
        split: if_splits prod.splits option.splits)
next
  show "\<exists>t' p w'. sendUserData (gw_ops send wr) t d1 d2 dev s = Inr (t', p, w') \<and> at_most_cleared d w' \<and> sending E wr pm (snd w')"
    if "at_most_cleared d s \<and> sending E wr pm (snd s)" for t d1 d2 dev s
  proof -
    note inv = that
    obtain d0 w where s: "s = (d0, w)" by fastforce
    with inv have "sending E wr pm w" by simp
    from gw_sendUserData_total [OF this, of send t d1 d2 dev d0] show ?thesis using inv by (force simp: s gw_ops_def)
  qed
  show "at_most_cleared d (gw_release sub c s) \<and> sending E wr pm (snd (gw_release sub c s))"
    if "at_most_cleared d s \<and> sending E wr pm (snd s)" for sub c s
    using that by (auto simp: gw_release_def sending_def sys_world_def gw_inv_def i2t_keeps_def split: prod.splits)
qed

definition chunk_sized :: "taken_chunk \<Rightarrow> bool" where
  "chunk_sized tc \<longleftrightarrow> length (ch_userHeader (tc_chunk tc)) = (if tc_hasUserHeader tc then unat (tc_userHeaderSize tc) else 0) \<and>
     length (ch_userPayload (tc_chunk tc)) = unat (tc_userPayloadSize tc) \<and>
     length (ch_userHeader (tc_chunk tc)) + length (ch_userPayload (tc_chunk tc)) < 2 ^ 32"

lemma header_sizes:
  "userHeaderSize (datagramHeader h m tc) = (if tc_hasUserHeader tc then tc_userHeaderSize tc else 0)"
  "userPayloadSize (datagramHeader h m tc) = tc_userPayloadSize tc"
  by (simp_all add: datagramHeader_def)

lemma pending_kept:
  "sending E wr (i2t_pending (gw_i2t w)) w' \<Longrightarrow> sys_world (w'\<lparr>gw_i2t := (gw_i2t w')\<lparr>i2t_pending := i2t_pending (gw_i2t w)\<rparr>\<rparr>)"
  by (auto simp: sending_def sys_world_def gw_inv_def i2t_keeps_def completions_come_def)

lemma written_inv:
  assumes "wf_local E d" "disc_inv d" "disc_typed d" "ti_wf ti" "d' = d \<or> d' = clear_cache d" "sending E wr (i2t_pending (gw_i2t w)) w'"
  shows "sys_inv E ((ti, (d', w'\<lparr>gw_i2t := (gw_i2t w')\<lparr>i2t_pending := i2t_pending (gw_i2t w)\<rparr>\<rparr>)), t0) \<and>
    records (m_remoteState d') = records (m_remoteState d)"
  using assms kept_typed [OF assms(5)] pending_kept [OF assms(6)] wf_local_cong [of "clear_cache d" d E]
  by (auto simp: sys_inv_def clear_cache_def)

lemma gw_chunkTaken_ok:
  assumes "writes_all wr" "gw_sizes E" "sys_inv E (s, t0)" "\<And>tc. taken = Some tc \<Longrightarrow> chunk_sized tc"
  shows "\<exists>s'. gw_chunkTaken E G S send wr sub taken msgHash s = Inr s' \<and> sys_inv E (s', t0) \<and> gw_records s' = gw_records s"
proof (cases taken)
  case None
  then show ?thesis
    using assms(3) by (cases s) (auto simp: gw_chunkTaken_def gw_records_def i2t_notification_def sys_inv_def sys_world_def gw_inv_def i2t_keeps_def completions_come_def)
next
  case (Some tc)
  obtain ti d w where s: "s = (ti, (d, w))" by (metis prod_cases3)
  have inv: "ti_wf ti" "wf_local E d" "sys_world w" "disc_inv d" "disc_typed d" using assms(3) by (simp_all add: sys_inv_def s)
  let ?h = "getClassHash E (sub_service sub)" and ?cb = "transportFailCallback (gw_env E G S send) callback_fuel"
  let ?pm = "i2t_pending (gw_i2t w)"
  obtain d1 js where gen: "generateDeviceIndices E ti d (tc_originId tc) ?h = (d1, js)" by fastforce
  note d1 = generateDeviceIndices_typed [OF inv(4,5) gen]
  have wf: "wf_local E d1" using inv(2) d1 wf_local_cong by blast
  let ?s = "\<lparr>ws_ti = ti, ws_pending = ?pm, ws_world = (d1, w)\<rparr>" and ?dh = "datagramHeader ?h msgHash tc" and ?ck = "tc_chunk tc"
  have world: "sending E wr ?pm w" using inv(3) assms(1,2) by (simp add: sending_def)
  note fine = written_inv [where w = w and wr = wr, OF wf conjunct1 [OF d1] conjunct1 [OF conjunct2 [OF d1]]]
  show ?thesis
  proof (cases "js = []")
    case True
    have rel: "sending E wr ?pm (snd (gw_release (sub_ptr sub) (ch_chunk ?ck) (d1, w)))"
      using gw_sends.release_keeps [where d = d1 and w = "(d1, w)" and wr = wr and pm = ?pm] world by simp
    show ?thesis
      using True Some gen fine [OF inv(1) disjI1 [OF refl] rel] d1 by (simp add: gw_chunkTaken_def gw_records_def s i2t_notification_def gw_release_def)
  next
    case False
    have "wf_local (iox (gw_env E G S send)) d1" using wf by simp
    note cb = sends.callback_adequate [OF this, of callback_fuel wr ?pm]
    have sized: "gw_sends.sized d1 E wr ?pm (ch_userHeader ?ck) (ch_userPayload ?ck) (ws_world ?s, ?dh, 0)"
      "length (ch_userHeader ?ck) + length (ch_userPayload ?ck) < 2 ^ 32"
      using assms(4) [OF Some] world by (auto simp: gw_sends.sized_def chunk_sized_def header_sizes)
    obtain s' where "writeSegmented E (gw_ops send wr) (Some ?cb) gw_release ?dh ?ck js 0 (sub_ptr sub) ?s = Inr s'"
      "ti_wf (ws_ti s')" "at_most_cleared d1 (ws_world s')" "sending E wr ?pm (snd (ws_world s'))" "ws_pending s' = ?pm"
      using gw_sends.writeSegmented_total [OF cb _ _ _ sized, of js send 0 "sub_ptr sub"] inv(1) active_le [OF inv(1)] d1
      by (auto simp: callback_fuel_def list_all_iff typed_def)
    then show ?thesis
      using False Some gen d1 fine [of "ws_ti s'" "fst (ws_world s')" "snd (ws_world s')"]
      by (cases "ws_world s'") (auto simp: gw_chunkTaken_def gw_records_def s i2t_notification_def)
  qed
qed

subsection \<open>Events of the layers\<close>

definition sample_services :: "port_sample option \<Rightarrow> service_description list" where
  "sample_services sample = ls_userSubscribers (case sample of None \<Rightarrow> empty_local | Some p \<Rightarrow> readSample p)"

text \<open>
  When an event can happen: a TCP completion belongs to an operation under way, the table of segmented messages and
  the list of sessions have room for what arrives, names are within their capacity, and a chunk has the sizes of its header.
\<close>

definition gw_ready :: "iox_env \<Rightarrow> gw_event \<Rightarrow> ('n, 'c) app_state \<Rightarrow> bool" where
  "gw_ready E ev = (\<lambda>((ti, (d, w)), t0).
     case ev of
       Udp_Data ec bytes e rearmed \<Rightarrow> table_room (gw_t2i w)
     | Tcp_Event tev \<Rightarrow> tcp_enabled tev (gw_tcp w) \<and> tcp_room E tev (gw_tcp w) \<and> table_room (gw_t2i w)
     | Port_Sample sample \<Rightarrow> list_all (wf_service E) (sample_services sample)
     | Chunk_Taken sub taken msgHash \<Rightarrow> pred_option chunk_sized taken
     | Buffer_Needed bytes \<Rightarrow> table_room (gw_t2i w)
     | _ \<Rightarrow> True)"

definition gw_receiver :: "('n, 'c) app_state \<Rightarrow> (publisher, t2i_state) gateway" where
  "gw_receiver = (\<lambda>((ti, (d, w)), t0). (gw_publishers w, gw_t2i w))"

lemma put_failed_inv:
  assumes "sys_inv E ((ti, (d, w)), t0)" "s_transports ti ! index type = Some t" "index type < TRANSPORT_TYPE_COUNT" "t' = t \<or> t' = setFailed t"
    and "sys_world w'"
  shows "sys_inv E ((put_transport (index type) t' ti, (d, w')), t0)"
  using assms put_failed_wf [of ti "index type" t t'] by (simp add: sys_inv_def)

lemma tcp_event_ok:
  assumes "sys_inv E s" "gw_ready E (Tcp_Event tev) s"
  shows "\<exists>s1 out. gw_layerEvent E (Tcp_Event tev) s = Inr (s1, out) \<and> sys_inv E s1 \<and> info_typed out \<and> gw_receiver s1 = gw_receiver s"
proof -
  obtain ti d w t0 where s: "s = ((ti, (d, w)), t0)" by (metis prod.collapse)
  show ?thesis
  proof (cases "s_transports ti ! index TCP")
    case None
    then show ?thesis using assms(1) by (simp add: s gw_layerEvent_def)
  next
    case (Some t)
    have w: "sys_world w" using assms(1) by (simp add: s sys_inv_def)
    then obtain t' st out where h: "tcp_handle E tev (t, gw_tcp w) = Inr (t', st, out)" "tcp_inv st"
      using tcp_handle_ok [of "gw_tcp w" tev E t] assms(2) by (auto simp: s gw_ready_def sys_world_def)
    have "sys_world (w\<lparr>gw_tcp := st\<rparr>)" using w h(2) by (simp add: sys_world_def gw_inv_def)
    from put_failed_inv [OF assms(1) [unfolded s] Some _ tcp_handle_layer [OF h(1)] this] show ?thesis
      using Some h(1) tcp_handle_typed [OF h(1)] by (simp add: s gw_layerEvent_def gw_receiver_def TRANSPORT_TYPE_COUNT_def)
  qed
qed

lemma gw_layerEvent_ok:
  assumes "sys_inv E s" "gw_ready E ev s"
  shows "\<exists>s1 out. gw_layerEvent E ev s = Inr (s1, out) \<and> sys_inv E s1 \<and> info_typed out \<and> gw_receiver s1 = gw_receiver s"
proof -
  obtain ti d w t0 where s: "s = ((ti, (d, w)), t0)" by (metis prod.collapse)
  show ?thesis
  proof (cases ev)
    case (Udp_Discovery ec bytes e rearmed)
    obtain u out where "discoverySocketCallback ec bytes e rearmed (gw_udp w) = (u, out)" by fastforce
    with discoverySocketCallback_typed [OF this] show ?thesis
      using assms(1) by (simp add: s Udp_Discovery gw_layerEvent_def gw_receiver_def sys_inv_def sys_world_def gw_inv_def)
  next
    case (Udp_Data ec bytes e rearmed)
    show ?thesis
    proof (cases "s_transports ti ! index UDP")
      case None
      then show ?thesis using assms(1) by (simp add: s Udp_Data gw_layerEvent_def)
    next
      case (Some t)
      obtain t' out where h: "dataSocketCallback ec bytes e rearmed t (gw_udp w) = (t', out)" by fastforce
      then have "t' = t \<or> t' = setFailed t" by (auto simp: dataSocketCallback_def split: if_splits)
      moreover have "info_typed (map_option (\<lambda>(b, i). User_Data b i) out)" by (auto simp: info_typed_def split: option.splits)
      ultimately show ?thesis
        using put_failed_inv [OF assms(1) [unfolded s] Some, of t' w] assms(1) Some h
        by (simp add: s Udp_Data gw_layerEvent_def gw_receiver_def TRANSPORT_TYPE_COUNT_def sys_inv_def)
    qed
  next
    case (Tcp_Event tev)
    then show ?thesis using tcp_event_ok [OF assms(1)] assms(2) by blast
  qed (use assms(1) in \<open>auto simp: s gw_layerEvent_def\<close>)
qed

subsection \<open>What the layers deliver\<close>

lemma receiveInfo_ok:
  assumes "sys_inv E (s, t0)" "typed i" "deserializeInfo E bytes sz = Inr (info, n)"
  shows "\<exists>s'. receiveRemoteDiscoveryInfo (gw_env E G S send) bytes sz i s = Inr s' \<and> sys_inv E (s', t0) \<and>
    gw_records s' = (if isTermination info then filter (\<lambda>r. gatewayHash (dr_info r) \<noteq> gatewayHash info) (gw_records s)
                     else storeRecord info i (gw_records s))"
proof -
  obtain ti d w where s: "s = (ti, (d, w))" by (metis prod_cases3)
  let ?D = "gw_env E G S send" and ?rs = "records (m_remoteState d)"
  have inv: "ti_wf ti" "wf_local (iox ?D) d" "sys_world w" "disc_inv d" "disc_typed d" using assms(1) by (simp_all add: sys_inv_def s)
  have des: "deserializeInfo (iox ?D) bytes sz = Inr (info, n)" using assms(3) by simp
  have wf: "wf_records ?rs" using inv(4) by (simp add: disc_inv_def)
  show ?thesis
  proof (cases "isTermination info")
    case True
    obtain d' where d': "receiveRemoteDiscoveryInfo ?D bytes sz i (ti, (d, w)) = Inr (ti, (d', w))"
      "records (m_remoteState d') = filter (\<lambda>r. gatewayHash (dr_info r) \<noteq> gatewayHash info) ?rs" "d' = set_records (records (m_remoteState d')) d"
      using receive_termination [OF des True, of i ti d w] erase_record wf by (auto simp: wf_records_def)
    have same: "m_localState d' = m_localState d" "deviceIndicesCache (m_remoteState d') = deviceIndicesCache (m_remoteState d)"
      by (subst d'(3), simp add: set_records_def)+
    have "disc_inv d' \<and> disc_typed d'"
      using inv(4,5) d'(2) same(2)
      by (auto simp: disc_inv_def disc_typed_def wf_records_def distinct_map_filter intro: order.trans [OF length_filter_le])
    then show ?thesis using True d'(1,2) inv same(1) wf_local_cong [of d' d E] by (simp add: s sys_inv_def gw_records_def)
  next
    case False
    obtain ti' d' w' where r: "receiveRemoteDiscoveryInfo ?D bytes sz i (ti, (d, w)) = Inr (ti', (d', w'))" "ti_wf ti'" "sys_world w'"
      "records (m_remoteState d') = storeRecord info i ?rs" "deviceIndicesCache (m_remoteState d') = vm_empty" "m_localState d' = m_localState d"
      using sys.receive_ok [OF inv(1-3) des False, of i] by blast
    have "disc_inv d' \<and> disc_typed d'"
      using r(4,5) storeRecord_wf [OF wf] storeRecord_typed [OF wf _ assms(2)] inv(5)
      by (simp add: disc_inv_def disc_typed_def vm.invar_empty vm.lookup_empty)
    then show ?thesis using False r inv wf_local_cong [of d' d E] by (simp add: s sys_inv_def gw_records_def)
  qed
qed

lemma receiveData_ok:
  assumes "sys_inv E s" "loans_fresh G" "table_room (snd (gw_receiver s))"
  shows "\<exists>r. receive E G now 0 bytes (length bytes) dev (gw_receiver s) = r \<and> r \<noteq> Inl Use_After_Release \<and>
    (\<forall>x. r = Inr x \<longrightarrow> receiver_inv x)"
  using assms receive_outcome [of "snd (gw_receiver s)" G MAX_TOPICS "fst (gw_receiver s)" "length bytes" bytes E now 0 dev]
  by (cases s) (auto simp: gw_receiver_def sys_inv_def sys_world_def gw_inv_def)

text \<open>The outcome of a delivery: it is absorbed, or the message itself raises the fault.\<close>

definition message_fault :: "iox_env \<Rightarrow> pub_env \<Rightarrow> time_point \<Rightarrow> ('n, 'c) app_state \<Rightarrow> tcp_delivery option \<Rightarrow> fault \<Rightarrow> bool" where
  "message_fault E G now s out f = (case out of
     None \<Rightarrow> False
   | Some (Discovery_Info bytes dev) \<Rightarrow> deserializeInfo E bytes (length bytes) = Inl f
   | Some (User_Data bytes dev) \<Rightarrow> receive E G now 0 bytes (length bytes) dev (gw_receiver s) = Inl f \<and> f \<noteq> Use_After_Release)"

definition event_fault :: "iox_env \<Rightarrow> pub_env \<Rightarrow> time_point \<Rightarrow> gw_event \<Rightarrow> ('n, 'c) app_state \<Rightarrow> fault \<Rightarrow> bool" where
  "event_fault E G now ev s f = (case ev of
     Buffer_Needed bytes \<Rightarrow> deserializeHeader E bytes (length bytes) = Inl f
   | Buffer_Released bytes shouldRelease dev \<Rightarrow> deserializeHeader E bytes (length bytes) = Inl f
   | _ \<Rightarrow> (\<exists>s1 out. gw_layerEvent E ev s = Inr (s1, out) \<and> message_fault E G now s1 out f))"

lemma gw_deliver_ok:
  assumes "sys_inv E s" "info_typed out" "loans_fresh G" "\<And>bytes dev. out = Some (User_Data bytes dev) \<Longrightarrow> table_room (snd (gw_receiver s))"
  shows "(\<exists>s'. gw_deliver E G S send now (s, out) = Inr s' \<and> sys_inv E s') \<or>
    (\<exists>f. gw_deliver E G S send now (s, out) = Inl f \<and> message_fault E G now s out f)"
proof -
  obtain ti d w t0 where s: "s = ((ti, (d, w)), t0)" by (metis prod.collapse)
  consider "out = None" | bytes dev where "out = Some (Discovery_Info bytes dev)" | bytes dev where "out = Some (User_Data bytes dev)"
    by (metis option.exhaust tcp_delivery.exhaust)
  then show ?thesis
  proof cases
    case 1
    then show ?thesis using assms(1) by (simp add: s gw_deliver_def gw_discoveryCallback_def gw_userDataCallback_def)
  next
    case 2
    have dev: "typed dev" using assms(2) by (simp add: 2 info_typed_def)
    show ?thesis
    proof (cases "deserializeInfo E bytes (length bytes)")
      case (Inl f)
      then show ?thesis by (simp add: s 2 gw_deliver_def gw_discoveryCallback_def gw_userDataCallback_def message_fault_def receiveRemoteDiscoveryInfo_def)
    next
      case (Inr r)
      then obtain info n where "deserializeInfo E bytes (length bytes) = Inr (info, n)" by (cases r) simp
      from receiveInfo_ok [OF assms(1) [unfolded s] dev this, of G S send] show ?thesis
        by (auto simp: s 2 gw_deliver_def gw_discoveryCallback_def gw_userDataCallback_def)
    qed
  next
    case 3
    have room: "table_room (snd (gw_receiver s))" using assms(4) 3 by blast
    show ?thesis
    proof (cases "receive E G now 0 bytes (length bytes) dev (gw_receiver s)")
      case (Inl f)
      then show ?thesis
        using receiveData_ok [OF assms(1,3) room, of now bytes dev] by (simp add: s 3 gw_deliver_def gw_discoveryCallback_def gw_userDataCallback_def message_fault_def gw_receiver_def)
    next
      case (Inr x)
      then have "receiver_inv x" using receiveData_ok [OF assms(1,3) room, of now bytes dev] by simp
      then show ?thesis
        using Inr assms(1) by (simp add: s 3 gw_deliver_def gw_discoveryCallback_def gw_userDataCallback_def gw_receiver_def sys_inv_def sys_world_def gw_inv_def)
    qed
  qed
qed

subsection \<open>The gateway's own events\<close>

lemma readPort_ok:
  assumes "sys_inv E (s, t0)" "list_all (wf_service E) (sample_services sample)"
  shows "\<exists>s'. readPortSubscriber (gw_env E G S send) sample s = Inr s' \<and> sys_inv E (s', t0) \<and> gw_records s' = gw_records s"
proof -
  obtain ti d w where s: "s = (ti, (d, w))" by (metis prod_cases3)
  let ?new = "case sample of None \<Rightarrow> empty_local | Some p \<Rightarrow> readSample p"
  have inv: "ti_wf ti" "sys_world w" "disc_inv d" "disc_typed d" using assms(1) by (simp_all add: sys_inv_def s)
  have wf: "\<forall>x \<in> set (ls_userSubscribers ?new). wf_service (iox (gw_env E G S send)) x"
    using assms(2) by (simp add: sample_services_def list_all_iff)
  obtain ti' d' w' where r: "readPortSubscriber (gw_env E G S send) sample (ti, (d, w)) = Inr (ti', (d', w'))" "ti_wf ti'" "sys_world w'"
    "m_localState d' = ?new" "records (m_remoteState d') = records (m_remoteState d)"
    "deviceIndicesCache (m_remoteState d') \<in> {deviceIndicesCache (m_remoteState d), vm_empty}"
    using sys.read_ok [OF inv(1,2) refl wf, of d] by blast
  have "length (ls_userSubscribers ?new) \<le> MAX_TOPICS"
    by (auto simp: readSample_def push_all_take empty_local_def split: option.splits)
  then have "wf_local E d'" using wf r(4) by (simp add: wf_local_def)
  then show ?thesis using r disc_typed_cong [OF r(5,6) inv(3,4)] by (simp add: s sys_inv_def gw_records_def)
qed

lemma resend_sys:
  assumes "sys_inv E (s, t0)" "index type < TRANSPORT_TYPE_COUNT"
  shows "\<exists>s'. resendDiscoveryInfoToTransport (gw_env E G S send) type s = Inr s' \<and> sys_inv E (s', t0) \<and> gw_records s' = gw_records s"
proof -
  obtain ti d w where s: "s = (ti, (d, w))" by (metis prod_cases3)
  have inv: "ti_wf ti" "wf_local (iox (gw_env E G S send)) d" "sys_world w" "disc_inv d" "disc_typed d"
    using assms(1) by (simp_all add: sys_inv_def s)
  obtain ti' d' w' where "resendDiscoveryInfoToTransport (gw_env E G S send) type (ti, (d, w)) = Inr (ti', (d', w'))" "ti_wf ti'"
    "d' = d \<or> d' = clear_cache d" "sys_world w'"
    using sys.resend_total [OF inv(1-3) assms(2)] by fastforce
  then show ?thesis
    using inv kept_typed [of d' d] wf_local_cong [of d' d E] by (auto simp: s sys_inv_def gw_records_def)
qed

lemma mainLoopTurn_sys:
  assumes "sys_inv E st"
  shows "\<exists>st'. mainLoopTurn (gw_env E G S send) now st = Inr st' \<and> sys_inv E st' \<and> gw_records (fst st') = gw_records (fst st)"
proof -
  obtain ti d w t0 where st: "st = ((ti, (d, w)), t0)" by (metis prod.collapse)
  let ?s = "(ti, (d, w\<lparr>gw_t2i := checkTimeouts now (gw_t2i w)\<rparr>))"
  have ok: "sys_inv E (?s, t)" for t
    using assms by (simp add: st sys_inv_def sys_world_def gw_inv_def checkTimeouts_receiver)
  obtain s1 where 1: "resendDiscoveryInfoToTransport (gw_env E G S send) UDP ?s = Inr s1" "sys_inv E (s1, now)" "gw_records s1 = gw_records ?s"
    using resend_sys [OF ok [of now], of UDP G S send] by (auto simp: TRANSPORT_TYPE_COUNT_def)
  obtain s2 where "resendDiscoveryInfoToTransport (gw_env E G S send) TCP s1 = Inr s2" "sys_inv E (s2, now)" "gw_records s2 = gw_records s1"
    using resend_sys [OF 1(2), of TCP G S send] by (auto simp: TRANSPORT_TYPE_COUNT_def)
  then show ?thesis
    using ok 1(1,3) by (cases s2) (simp add: st mainLoopTurn_def LOSSY_TRANSPORT_TYPES_def gw_records_def)
qed

lemma initialize_sys:
  assumes "ti_wf ti" "sys_world w"
  shows "\<exists>s. initialize (gw_env E G S send) (ti, (new_discovery h preferred, w)) = Inr s \<and> sys_inv E (s, t0) \<and> gw_records s = []"
proof -
  let ?d = "(new_discovery h preferred)\<lparr>m_updateCallback := Callback_Gateway\<rparr>"
  have d: "wf_local (iox (gw_env E G S send)) ?d" "disc_inv ?d" "disc_typed ?d"
    using new_discovery_inv [of h preferred]
    by (simp_all add: wf_local_def new_discovery_def disc_inv_def disc_typed_def vm.lookup_empty)
  obtain ti' d' w' where "announce (gw_env E G S send) (ti, (?d, w)) = Inr (ti', (d', w'))" "ti_wf ti'" "d' = ?d \<or> d' = clear_cache ?d" "sys_world w'"
    using sys.announce_total [OF assms(1) d(1) assms(2)] by fastforce
  then show ?thesis
    using d kept_typed [of d' ?d] wf_local_cong [of d' ?d E] by (auto simp: initialize_def sys_inv_def gw_records_def new_discovery_def)
qed

section \<open>Runs of the gateway\<close>

definition gw_step ::
  "iox_env \<Rightarrow> pub_env \<Rightarrow> sub_env \<Rightarrow> 'n send_to \<Rightarrow> 'c stream_write \<Rightarrow> time_point \<times> gw_event \<Rightarrow> ('n, 'c) app_state \<Rightarrow> ('n, 'c) app_state option" where
  "gw_step E G S send wr = (\<lambda>(now, ev) s.
     if gw_ready E ev s then (case gw_handle E G S send wr now ev s of Inl f \<Rightarrow> None | Inr s' \<Rightarrow> Some s') else None)"

definition handled ::
  "iox_env \<Rightarrow> pub_env \<Rightarrow> sub_env \<Rightarrow> 'n send_to \<Rightarrow> 'c stream_write \<Rightarrow> time_point \<Rightarrow> gw_event \<Rightarrow> ('n, 'c) app_state \<Rightarrow> bool" where
  "handled E G S send wr now ev s \<longleftrightarrow>
     (\<exists>s'. gw_handle E G S send wr now ev s = Inr s' \<and> sys_inv E s') \<or>
     (\<exists>f. gw_handle E G S send wr now ev s = Inl f \<and> event_fault E G now ev s f)"

lemma buffer_event_handled:
  assumes "loans_fresh G" "sys_inv E s" "gw_ready E (Buffer_Needed bytes) s"
  shows "handled E G S send wr now (Buffer_Needed bytes) s"
proof -
  obtain ti d w t0 where s: "s = ((ti, (d, w)), t0)" by (metis prod.collapse)
  have inv: "receiver_inv (gw_t2i w)" "table_room (gw_t2i w)" "vm_wf MAX_TOPICS (gw_publishers w)"
    using assms(2,3) by (simp_all add: s sys_inv_def sys_world_def gw_inv_def gw_ready_def)
  show ?thesis
  proof (cases "deserializeHeader E bytes (length bytes)")
    case (Inl f)
    then show ?thesis by (simp add: s handled_def gw_handle_def gw_bufferNeededCallback_def loanBuffer_def event_fault_def)
  next
    case (Inr r)
    then obtain h n where "deserializeHeader E bytes (length bytes) = Inr (h, n)" by (cases r) simp
    from loan_safe [OF inv(1) assms(1) inv(2,3) this, of now 0] show ?thesis
      using assms(2) by (auto simp: s handled_def gw_handle_def gw_bufferNeededCallback_def sys_inv_def sys_world_def gw_inv_def)
  qed
qed

lemma released_event_handled:
  assumes "sys_inv E s"
  shows "handled E G S send wr now (Buffer_Released bytes shouldRelease dev) s"
proof -
  obtain ti d w t0 where s: "s = ((ti, (d, w)), t0)" by (metis prod.collapse)
  have inv: "receiver_inv (gw_t2i w)" "vm_wf MAX_TOPICS (gw_publishers w)"
    using assms by (simp_all add: s sys_inv_def sys_world_def gw_inv_def)
  show ?thesis
  proof (cases "deserializeHeader E bytes (length bytes)")
    case (Inl f)
    then show ?thesis by (simp add: s handled_def gw_handle_def gw_bufferReleasedCallback_def releaseBuffer_def event_fault_def)
  next
    case (Inr r)
    then obtain h n where "deserializeHeader E bytes (length bytes) = Inr (h, n)" by (cases r) simp
    then have "\<exists>x. releaseBuffer E bytes (length bytes) shouldRelease dev (gw_publishers w, gw_t2i w) = Inr x \<and> receiver_inv x"
      using releaseChannel_inv [OF inv(1)] inv(1)
      by (cases "vm_lookup (gw_publishers w) (serviceHash h)") (auto simp: releaseBuffer_def doForChannel_eq [OF inv(2)])
    then show ?thesis
      using assms by (auto simp: s handled_def gw_handle_def gw_bufferReleasedCallback_def sys_inv_def sys_world_def gw_inv_def)
  qed
qed

lemma bufferSent_sys:
  assumes "sys_inv E s"
  shows "sys_inv E (gw_bufferSentCallback p s)"
proof -
  obtain ti d w t0 where s: "s = ((ti, (d, w)), t0)" by (metis prod.collapse)
  let ?pm = "i2t_pending (gw_i2t w)"
  have pm: "pm_invar ?pm" "dom (pm_abs ?pm) \<subseteq> set (i2t_completions (gw_i2t w))"
    using assms by (simp_all add: s sys_inv_def sys_world_def gw_inv_def i2t_keeps_def completions_come_def)
  have "dom (pm_abs (fst (pm_release ?pm p))) \<subseteq> dom (pm_abs ?pm)" using pm_release_abs [OF pm(1), of p] by auto
  then show ?thesis
    using assms pm pm_release_invar [OF pm(1), of p]
    by (cases "pm_release ?pm p") (auto simp: s gw_bufferSentCallback_def sys_inv_def sys_world_def gw_inv_def i2t_keeps_def completions_come_def)
qed

lemma layer_event_handled:
  assumes "loans_fresh G" "sys_inv E s" "gw_ready E ev s" "gw_handle E G S send wr now ev s = bindR (gw_layerEvent E ev s) (gw_deliver E G S send now)"
    and "\<And>f s1 out. gw_layerEvent E ev s = Inr (s1, out) \<Longrightarrow> message_fault E G now s1 out f \<Longrightarrow> event_fault E G now ev s f"
    and "\<And>s1 bytes dev. gw_layerEvent E ev s = Inr (s1, Some (User_Data bytes dev)) \<Longrightarrow> table_room (snd (gw_receiver s))"
  shows "handled E G S send wr now ev s"
proof -
  obtain s1 out where h: "gw_layerEvent E ev s = Inr (s1, out)" "sys_inv E s1" "info_typed out" "gw_receiver s1 = gw_receiver s"
    using gw_layerEvent_ok [OF assms(2,3)] by blast
  show ?thesis
    using gw_deliver_ok [OF h(2,3) assms(1), of S send now] h(1,4) assms(4,6) assms(5) [OF h(1)] by (auto simp: handled_def)
qed

lemma gw_handle_handled:
  assumes "loans_fresh G" "writes_all wr" "gw_sizes E" "sys_inv E s" "gw_ready E ev s"
  shows "handled E G S send wr now ev s"
proof (cases ev)
  case (Udp_Discovery ec bytes e rearmed)
  then show ?thesis
    using layer_event_handled [OF assms(1,4,5)] by (fastforce simp: event_fault_def gw_handle_def gw_layerEvent_def split: prod.splits)
next
  case (Udp_Data ec bytes e rearmed)
  then show ?thesis
    using layer_event_handled [OF assms(1,4,5)] assms(5) by (fastforce simp: event_fault_def gw_handle_def gw_ready_def gw_receiver_def split: prod.splits)
next
  case (Tcp_Event tev)
  then show ?thesis
    using layer_event_handled [OF assms(1,4,5)] assms(5) by (fastforce simp: event_fault_def gw_handle_def gw_ready_def gw_receiver_def split: prod.splits)
next
  case (Port_Sample sample)
  then show ?thesis
    using readPort_ok [of E "fst s" "snd s" sample G S send] assms(4,5)
    by (auto simp: handled_def gw_handle_def gw_ready_def split: prod.splits)
next
  case (Chunk_Taken sub taken msgHash)
  then have "chunk_sized tc" if "taken = Some tc" for tc using assms(5) that by (auto simp: gw_ready_def split: prod.splits)
  then show ?thesis
    using gw_chunkTaken_ok [OF assms(2,3), of "fst s" "snd s" taken G S send sub msgHash] assms(4) Chunk_Taken
    by (auto simp: handled_def gw_handle_def)
next
  case (Buffer_Needed bytes)
  then show ?thesis using buffer_event_handled [OF assms(1,4)] assms(5) by blast
next
  case (Buffer_Released bytes shouldRelease dev)
  then show ?thesis using released_event_handled [OF assms(4)] by blast
next
  case (Buffer_Sent p)
  then show ?thesis using bufferSent_sys [OF assms(4)] by (auto simp: handled_def gw_handle_def)
next
  case (Main_Turn t)
  then show ?thesis using mainLoopTurn_sys [OF assms(4), of G S send t] by (auto simp: handled_def gw_handle_def)
qed

interpretation gateway: step_invariant "gw_step E G S send wr" "\<lambda>s. loans_fresh G \<and> writes_all wr \<and> gw_sizes E \<and> sys_inv E s"
  for E G S send wr
proof
  fix s s' and ev :: "time_point \<times> gw_event"
  assume I: "loans_fresh G \<and> writes_all wr \<and> gw_sizes E \<and> sys_inv E s" and step: "gw_step E G S send wr ev s = Some s'"
  obtain now e where ev: "ev = (now, e)" by fastforce
  have ready: "gw_ready E e s" and run: "gw_handle E G S send wr now e s = Inr s'"
    using step by (auto simp: gw_step_def ev split: if_splits sum.splits)
  then show "loans_fresh G \<and> writes_all wr \<and> gw_sizes E \<and> sys_inv E s'"
    using gw_handle_handled [OF _ _ _ _ ready, of G wr S send now] I by (auto simp: handled_def)
qed

section \<open>Properties\<close>


definition sample_write :: "unit stream_write" where
  "sample_write p bytes net = (net, Some (word_of_nat (length bytes)))"

lemma sample_writes: "writes_all sample_write" "gw_sizes sample_env"
  by (simp_all add: writes_all_def sample_write_def gw_sizes_def sample_env_def maxIoxChunkDatagramHeaderSerializationSize_def
      MAX_DATAGRAM_SIZE_def MAX_PACKET_SIZE_def)

lemma sample_sys_world: "sys_world sample_world"
  using sample_world_inv newTcpTransport_inv by (simp add: sys_world_def) (simp add: sample_world_def)


end
