(* ===== verification/Directory.thy ===== *)
theory Directory
  imports GatewaySystem
begin

text \<open>
  What a gateway knows of the others, abstractly: a map from gateway hashes to the message each announced itself with
  last. The running gateway refines a specification over such maps, in which an announcement is stored, a goodbye
  removes its gateway, and an announcement that finds the table full takes the place of some other gateway.
\<close>

section \<open>The specification\<close>

type_synonym directory = "hash \<rightharpoonup> pub_sub_info"

inductive dir_run :: "pub_sub_info list \<Rightarrow> directory \<Rightarrow> directory \<Rightarrow> bool" where
  silent: "dir_run [] m m"
| goodbye: "isTermination info \<Longrightarrow> dir_run infos (m(gatewayHash info := None)) m' \<Longrightarrow> dir_run (info # infos) m m'"
| learns: "\<not> isTermination info \<Longrightarrow> gatewayHash info \<in> dom m \<or> card (dom m) < MAX_DEVICE_COUNT \<Longrightarrow>
    dir_run infos (m(gatewayHash info \<mapsto> info)) m' \<Longrightarrow> dir_run (info # infos) m m'"
| replaces: "\<not> isTermination info \<Longrightarrow> gatewayHash info \<notin> dom m \<Longrightarrow> card (dom m) = MAX_DEVICE_COUNT \<Longrightarrow> victim \<in> dom m \<Longrightarrow>
    dir_run infos (m(victim := None, gatewayHash info \<mapsto> info)) m' \<Longrightarrow> dir_run (info # infos) m m'"

definition dir_op :: "pub_sub_info \<Rightarrow> directory \<Rightarrow> directory" where
  "dir_op info m = (if isTermination info then m(gatewayHash info := None) else m(gatewayHash info \<mapsto> info))"

lemma dir_run_append: "dir_run infos m m1 \<Longrightarrow> dir_run infos' m1 m2 \<Longrightarrow> dir_run (infos @ infos') m m2"
  by (induction rule: dir_run.induct) (auto intro: dir_run.intros)

lemma dir_op_fits:
  assumes "finite (dom m)" "card (dom m \<union> gatewayHash ` set (info # infos)) \<le> K"
  shows "finite (dom (dir_op info m)) \<and> card (dom (dir_op info m) \<union> gatewayHash ` set infos) \<le> K"
proof -
  have "dom (dir_op info m) \<subseteq> insert (gatewayHash info) (dom m)" by (auto simp: dir_op_def)
  then have "dom (dir_op info m) \<union> gatewayHash ` set infos \<subseteq> dom m \<union> gatewayHash ` set (info # infos)"
    "finite (dom (dir_op info m))"
    using assms(1) by (auto intro: finite_subset)
  then show ?thesis using assms card_mono by (metis (no_types, lifting) List.finite_set finite_Un finite_imageI order.trans)
qed

text \<open>As long as the gateways fit the table, the specification is deterministic.\<close>

lemma dir_run_fold:
  "dir_run infos m m' \<Longrightarrow> finite (dom m) \<Longrightarrow> card (dom m \<union> gatewayHash ` set infos) \<le> MAX_DEVICE_COUNT \<Longrightarrow>
     m' = fold dir_op infos m"
proof (induction rule: dir_run.induct)
  case (goodbye info infos m m')
  then have "m(gatewayHash info := None) = dir_op info m" by (simp add: dir_op_def)
  then show ?case using goodbye dir_op_fits [OF goodbye.prems] by simp
next
  case (learns info m infos m')
  then have "m(gatewayHash info \<mapsto> info) = dir_op info m" by (simp add: dir_op_def)
  then show ?case using learns dir_op_fits [OF learns.prems] by simp
next
  case (replaces info m victim infos m')
  have "card (insert (gatewayHash info) (dom m)) \<le> card (dom m \<union> gatewayHash ` set (info # infos))"
    using replaces.prems(1) by (intro card_mono) auto
  then show ?case using replaces by simp
qed simp

section \<open>The records as a directory\<close>

abbreviation record_entry :: "device_record \<Rightarrow> hash \<times> pub_sub_info" where
  "record_entry r \<equiv> (gatewayHash (dr_info r), dr_info r)"

definition record_directory :: "device_record list \<Rightarrow> directory" where
  "record_directory rs = map_of (map record_entry rs)"

lemma dom_record_directory: "dom (record_directory rs) = set (record_hashes rs)"
  by (force simp: record_directory_def dom_map_of_conv_image_fst)

lemma card_record_directory: "distinct (record_hashes rs) \<Longrightarrow> card (dom (record_directory rs)) = length rs"
  unfolding dom_record_directory using distinct_card by fastforce

lemma record_directory_Cons: "record_directory (r # rs) = (record_directory rs)(gatewayHash (dr_info r) \<mapsto> dr_info r)"
  by (simp add: record_directory_def)

lemma record_directory_snoc:
  "gatewayHash (dr_info r) \<notin> set (record_hashes rs) \<Longrightarrow>
     record_directory (rs @ [r]) = (record_directory rs)(gatewayHash (dr_info r) \<mapsto> dr_info r)"
  by (induction rs) (auto simp: record_directory_def)

lemma record_directory_filter:
  "record_directory (filter (\<lambda>r. gatewayHash (dr_info r) \<noteq> h) rs) = (record_directory rs)(h := None)"
  by (induction rs) (auto simp: record_directory_def fun_eq_iff)

lemma record_directory_update:
  assumes "distinct (record_hashes rs)" "k < length rs" "gatewayHash (dr_info r) = gatewayHash (dr_info (rs ! k))"
  shows "record_directory (rs[k := r]) = (record_directory rs)(gatewayHash (dr_info r) \<mapsto> dr_info r)"
  using assms
proof (induction rs arbitrary: k)
  case (Cons x rs)
  show ?case
  proof (cases k)
    case (Suc j)
    then have "gatewayHash (dr_info x) \<noteq> gatewayHash (dr_info r)" using Cons.prems by force
    then show ?thesis using Cons Suc by (auto simp: record_directory_Cons fun_eq_iff)
  qed (use Cons.prems in \<open>auto simp: record_directory_Cons fun_eq_iff\<close>)
qed simp

lemma storeRecord_refines:
  assumes "wf_records rs" "\<not> isTermination info"
  shows "dir_run [info] (record_directory rs) (record_directory (storeRecord info i rs))"
proof (cases "gatewayHash info \<in> set (record_hashes rs)")
  case True
  then obtain k where "k < length rs" "gatewayHash (dr_info (rs ! k)) = gatewayHash info"
    "storeRecord info i rs = rs[k := updateRecord info i (rs ! k)]"
    using storeRecord_known by blast
  then have "record_directory (storeRecord info i rs) = (record_directory rs)(gatewayHash info \<mapsto> info)"
    using record_directory_update [of rs k "updateRecord info i (rs ! k)"] assms(1) by (simp add: wf_records_def)
  then show ?thesis
    using learns [OF assms(2) disjI1 silent, of "record_directory rs"] True by (simp add: dom_record_directory)
next
  case False
  have len: "length rs \<le> MAX_DEVICE_COUNT" and dist: "distinct (record_hashes rs)" using assms(1) by (simp_all add: wf_records_def)
  show ?thesis
  proof (cases "length rs < MAX_DEVICE_COUNT")
    case True
    then have "record_directory (storeRecord info i rs) = (record_directory rs)(gatewayHash info \<mapsto> info)"
      using record_directory_snoc [of "\<lparr>dr_info = info, dr_deviceIndices = [i]\<rparr>" rs] storeRecord_new [OF False True] False by simp
    then show ?thesis
      using learns [OF assms(2) disjI2 silent, of "record_directory rs"] True card_record_directory [OF dist] by simp
  next
    case full: False
    then have full: "length rs = MAX_DEVICE_COUNT" using len by simp
    then obtain ys r where rs: "rs = ys @ [r]" by (cases rs rule: rev_cases) (auto simp: MAX_DEVICE_COUNT_def)
    let ?v = "gatewayHash (dr_info r)"
    have "storeRecord info i rs = ys @ [updateRecord info i r]" using storeRecord_full [OF False full] by (simp add: rs)
    then have "record_directory (storeRecord info i rs) = (record_directory ys)(gatewayHash info \<mapsto> info)"
      using record_directory_snoc [of "updateRecord info i r" ys] False by (simp add: rs)
    moreover have "(record_directory rs)(?v := None) = record_directory ys"
      using record_directory_snoc [of r ys] dist dom_record_directory [of ys] by (force simp: rs)
    moreover have "?v \<in> dom (record_directory rs)" by (simp add: dom_record_directory rs)
    ultimately show ?thesis
      using replaces [OF assms(2) _ _ _ silent, of "record_directory rs" ?v] False full card_record_directory [OF dist]
      by (simp add: dom_record_directory)
  qed
qed

section \<open>The gateway refines the specification\<close>

text \<open>The announcement that an event delivers to the discovery manager, if any.\<close>

definition announced :: "iox_env \<Rightarrow> time_point \<times> gw_event \<Rightarrow> ('n, 'c) app_state \<Rightarrow> pub_sub_info list" where
  "announced E = (\<lambda>(now, ev) s.
     case gw_layerEvent E ev s of
       Inr (s1, Some (Discovery_Info bytes dev)) \<Rightarrow>
         (case deserializeInfo E bytes (length bytes) of Inr (info, n) \<Rightarrow> [info] | Inl f \<Rightarrow> [])
     | _ \<Rightarrow> [])"

definition gw_directory :: "('n, 'c) app_state \<Rightarrow> directory" where
  "gw_directory s = record_directory (gw_records (fst s))"

lemma gw_layerEvent_records: "gw_layerEvent E ev s = Inr (s1, out) \<Longrightarrow> gw_records (fst s1) = gw_records (fst s)"
  by (auto simp: gw_layerEvent_def gw_records_def result_simps split: prod.splits gw_event.splits option.splits)

lemma sys_inv_records: "sys_inv E s \<Longrightarrow> wf_records (gw_records (fst s))"
  by (auto simp: sys_inv_def disc_inv_def gw_records_def)

fun layer_event :: "gw_event \<Rightarrow> bool" where
  "layer_event (Udp_Discovery ec bytes e rearmed) = True"
| "layer_event (Udp_Data ec bytes e rearmed) = True"
| "layer_event (Tcp_Event tev) = True"
| "layer_event _ = False"

lemma own_event_records:
  assumes "loans_fresh G" "writes_all wr" "gw_sizes E" "sys_inv E s" "gw_ready E ev s" "\<not> layer_event ev"
    and "gw_handle E G S send wr now ev s = Inr s'"
  shows "announced E (now, ev) s = [] \<and> gw_records (fst s') = gw_records (fst s)"
proof -
  obtain ti d w t0 where s: "s = ((ti, (d, w)), t0)" by (metis prod.collapse)
  have "announced E (now, ev) s = []" using assms(6) by (cases ev) (simp_all add: s announced_def gw_layerEvent_def)
  moreover have "gw_records (fst s') = gw_records (fst s)"
  proof (cases ev)
    case (Port_Sample sample)
    then show ?thesis
      using readPort_ok [of E "fst s" "snd s" sample G S send] assms(4,5,7) by (auto simp: gw_handle_def gw_ready_def s)
  next
    case (Chunk_Taken sub taken msgHash)
    then have "chunk_sized tc" if "taken = Some tc" for tc using assms(5) that by (simp add: gw_ready_def s)
    then show ?thesis
      using gw_chunkTaken_ok [OF assms(2,3), of "fst s" "snd s" taken G S send sub msgHash] assms(4,7) Chunk_Taken
      by (auto simp: gw_handle_def)
  next
    case (Main_Turn t)
    then show ?thesis using mainLoopTurn_sys [OF assms(4), of G S send t] assms(7) by (auto simp: gw_handle_def)
  qed (use assms(6,7) in \<open>auto simp: s gw_handle_def gw_records_def gw_bufferNeededCallback_def gw_bufferReleasedCallback_def
        gw_bufferSentCallback_def result_simps split: prod.splits\<close>)
  ultimately show ?thesis by blast
qed

lemma delivery_refines:
  assumes "sys_inv E s1" "info_typed out" "gw_deliver E G S send now (s1, out) = Inr s'"
  shows "dir_run (case out of Some (Discovery_Info bytes dev) \<Rightarrow>
        (case deserializeInfo E bytes (length bytes) of Inr (info, n) \<Rightarrow> [info] | Inl f \<Rightarrow> []) | _ \<Rightarrow> [])
      (gw_directory s1) (gw_directory s')"
proof (cases "\<exists>bytes dev. out = Some (Discovery_Info bytes dev)")
  case False
  then have "gw_records (fst s') = gw_records (fst s1)"
    using assms(3) by (auto simp: gw_deliver_def gw_userDataCallback_def gw_records_def result_simps split: option.splits tcp_delivery.splits prod.splits)
  then show ?thesis using False by (auto simp: gw_directory_def intro: silent split: option.splits tcp_delivery.splits)
next
  case True
  then obtain bytes dev where out: "out = Some (Discovery_Info bytes dev)" by blast
  obtain s t0 where s1: "s1 = (s, t0)" by fastforce
  have run: "bindR (receiveRemoteDiscoveryInfo (gw_env E G S send) bytes (length bytes) dev s) (\<lambda>s'. Inr (s', t0)) = Inr s'"
    using assms(3) by (simp add: out s1 gw_deliver_def gw_discoveryCallback_def)
  then obtain info n where des: "deserializeInfo E bytes (length bytes) = Inr (info, n)"
    by (cases s) (auto simp: receiveRemoteDiscoveryInfo_def result_simps)
  have dev: "typed dev" using assms(2) by (simp add: out info_typed_def)
  have wf: "wf_records (gw_records s)" using sys_inv_records [OF assms(1)] by (simp add: s1)
  have "gw_records (fst s') = (if isTermination info then filter (\<lambda>r. gatewayHash (dr_info r) \<noteq> gatewayHash info) (gw_records s)
      else storeRecord info dev (gw_records s))"
    using receiveInfo_ok [OF assms(1) [unfolded s1] dev des, of G S send] run by auto
  then have "dir_run [info] (gw_directory s1) (gw_directory s')"
    using goodbye [OF _ silent, of info "record_directory (gw_records s)"] storeRecord_refines [OF wf, of info dev]
    by (auto simp: gw_directory_def s1 record_directory_filter)
  then show ?thesis by (simp add: out des)
qed

lemma gw_step_refines:
  assumes "loans_fresh G" "writes_all wr" "gw_sizes E" "sys_inv E s" "gw_step E G S send wr ev s = Some s'"
  shows "dir_run (announced E ev s) (gw_directory s) (gw_directory s')"
proof -
  obtain now e where ev: "ev = (now, e)" by fastforce
  have ready: "gw_ready E e s" and run: "gw_handle E G S send wr now e s = Inr s'"
    using assms(5) by (auto simp: gw_step_def ev split: if_splits sum.splits)
  show ?thesis
  proof (cases "layer_event e")
    case False
    then show ?thesis
      using own_event_records [OF assms(1-4) ready False run] by (simp add: ev gw_directory_def silent)
  next
    case True
    obtain s1 out where h: "gw_layerEvent E e s = Inr (s1, out)" "sys_inv E s1" "info_typed out"
      using gw_layerEvent_ok [OF assms(4) ready] by blast
    have "gw_deliver E G S send now (s1, out) = Inr s'"
      using True run h(1) by (cases e) (simp_all add: gw_handle_def)
    from delivery_refines [OF h(2,3) this] show ?thesis
      using h(1) gw_layerEvent_records [OF h(1)] by (cases out) (simp_all add: ev announced_def gw_directory_def)
  qed
qed

interpretation directory: simulation "gw_step E G S send wr" "\<lambda>s. loans_fresh G \<and> writes_all wr \<and> gw_sizes E \<and> sys_inv E s"
    "announced E" gw_directory dir_run
  for E G S send wr
  by unfold_locales (use gw_step_refines silent dir_run_append in blast)+

text \<open>Announcing and updating the channels leave the interfaces and the devices of the UDP layer as they are.\<close>

definition udp_tables :: "'n udp_state \<Rightarrow> endpoint list \<times> endpoint list" where
  "udp_tables u = (m_interfaceEndpoints u, m_devices u)"

lemma sendBroadcastLoop_tables: "udp_tables (sendBroadcastLoop send bytes es u) = udp_tables u"
  by (induction es arbitrary: u) (simp_all add: udp_tables_def setBroadcastFailed_def split: option.splits)

lemma gw_updateCallback_udp: "gw_updateCallback E G S ss (d, w) = Inr (d', w') \<Longrightarrow> gw_udp w' = gw_udp w"
  by (auto simp: gw_updateCallback_def result_simps)

interpretation tables: discovery_env "gw_env E G S send" "\<lambda>w. sys_world w \<and> udp_tables (gw_udp w) = T" for E G S send T
proof
  show "\<exists>uids w'. updateCallback (gw_env E G S send) ss (d, w) = Inr (d\<lparr>m_gatewayPublisherUids := uids\<rparr>, w') \<and>
      sys_world w' \<and> udp_tables (gw_udp w') = T"
    if "sys_world w \<and> udp_tables (gw_udp w) = T" for w :: "('a, 'b) gw_world" and d ss
  proof -
    note w = that
    obtain uids w' where run: "gw_updateCallback E G S ss (d, w) = Inr (d\<lparr>m_gatewayPublisherUids := uids\<rparr>, w')" "sys_world w'"
      using sys.update_ok [of w E G S send ss d] w by (auto simp: gw_env_def)
    then show ?thesis using gw_updateCallback_udp [OF run(1)] w by (auto simp: gw_env_def)
  qed
qed (auto simp: gw_env_def gw_sendBroadcast_def udpSendBroadcast_def tcpSendBroadcast_def sys_world_def gw_inv_def isGood_def
    sendBroadcastLoop_tables split: if_splits)

section \<open>Properties\<close>

text \<open>
  C2. A gateway knows its peers: after any run, what its discovery manager has recorded of the other gateways is
  what the specification allows after the announcements that were received, in their order, over either transport. As long as
  the gateways that were ever heard of fit the table, that is exactly the last announcement of every gateway
  that has not said goodbye since.
\<close>

theorem directory_refined:
  fixes evs :: "(time_point \<times> gw_event) list"
  assumes "loans_fresh G" "writes_all wr" "gw_sizes E" "ti_wf ti" "sys_world w"
    and "initialize (gw_env E G S send) (ti, (new_discovery h preferred, w)) = Inr s0"
    and "run_events (gw_step E G S send wr) evs (s0, start) = Some s"
    and "heard = run_labels (gw_step E G S send wr) (announced E) evs (s0, start)"
  shows "dir_run heard Map.empty (gw_directory s) \<and>
    (card (gatewayHash ` set heard) \<le> MAX_DEVICE_COUNT \<longrightarrow> gw_directory s = fold dir_op heard Map.empty)"
proof -
  have init: "sys_inv E (s0, start)" "gw_records s0 = []"
    using initialize_sys [OF assms(4,5), of E G S send h preferred start] assms(6) by auto
  then have "gw_directory (s0, start) = Map.empty" by (simp add: gw_directory_def record_directory_def)
  then have run: "dir_run heard Map.empty (gw_directory s)"
    using directory.run_simulated [OF assms(7)] assms(1-3,8) init(1) by simp
  then show ?thesis using dir_run_fold [OF run] by simp
qed

lemma sample_announcement:
  "\<exists>bytes. serializeInfo sample_env sample_info = Inr bytes \<and> deserializeInfo sample_env bytes (length bytes) = Inr (sample_info, length bytes)"
proof -
  have wf: "wf_info sample_env sample_info"
    by (simp add: wf_info_def wf_service_def wf_id_def sample_env_def sample_info_def MAX_TOPICS_def)
  obtain bytes where "serializeInfo sample_env sample_info = Inr bytes" using serializeInfo_ok [OF wf] by blast
  then show ?thesis using deserialize_serialize_info [OF sample_env_assigns wf, of bytes "length bytes" "[]"] by simp
qed

lemma initialize_tables:
  assumes "ti_wf ti" "sys_world w"
  shows "\<exists>ti' d' w'. initialize (gw_env E G S send) (ti, (new_discovery h preferred, w)) = Inr (ti', (d', w')) \<and>
    sys_inv E ((ti', (d', w')), t0) \<and> udp_tables (gw_udp w') = udp_tables (gw_udp w)"
proof -
  have d: "wf_local (iox (gw_env E G S send)) ((new_discovery h preferred)\<lparr>m_updateCallback := Callback_Gateway\<rparr>)"
    by (simp add: wf_local_def new_discovery_def)
  have w: "sys_world w \<and> udp_tables (gw_udp w) = udp_tables (gw_udp w)" using assms(2) by simp
  from tables.announce_total [OF assms(1) d w] show ?thesis
    using initialize_sys [OF assms, of E G S send h preferred t0] by (fastforce simp: initialize_def)
qed

theorem directory_refined_witness:
  "\<exists>bytes s0 s. serializeInfo sample_env sample_info = Inr bytes \<and>
    initialize sample_gw_env (sample_registry, (new_discovery 1 NONE, sample_world)) = Inr s0 \<and>
    run_events (gw_step sample_env pool_env numbered_subscribers ideal_send sample_write)
      [(0, Udp_Discovery False bytes \<lparr>address = 9, port = DISCOVERY_PORT\<rparr> True)] (s0, 0) = Some s \<and>
    gw_directory s = [gatewayHash sample_info \<mapsto> sample_info]"
proof -
  let ?step = "gw_step sample_env pool_env numbered_subscribers ideal_send sample_write"
  obtain bytes where bytes: "serializeInfo sample_env sample_info = Inr bytes"
    "deserializeInfo sample_env bytes (length bytes) = Inr (sample_info, length bytes)"
    using sample_announcement by blast
  obtain ti d w where s0: "initialize sample_gw_env (sample_registry, (new_discovery 1 NONE, sample_world)) = Inr (ti, (d, w))"
    "sys_inv sample_env ((ti, (d, w)), 0)" "udp_tables (gw_udp w) = udp_tables (gw_udp sample_world)"
    using initialize_tables [OF sample_registry_wf sample_sys_world] by blast
  let ?s = "((ti, (d, w)), 0)" and ?ev = "Udp_Discovery False bytes \<lparr>address = 9, port = DISCOVERY_PORT\<rparr> True"
  have "m_interfaceEndpoints (gw_udp w) = []" using s0(3) by (simp add: udp_tables_def sample_world_def sample_udp_def)
  then obtain s1 dev where layer: "gw_layerEvent sample_env ?ev ?s = Inr (s1, Some (Discovery_Info bytes dev))"
    by (auto simp: gw_layerEvent_def discoverySocketCallback_def Let_def)
  then have "\<not> event_fault sample_env pool_env 0 ?ev ?s f" for f by (simp add: event_fault_def message_fault_def bytes(2))
  moreover have ready: "gw_ready sample_env ?ev ?s" by (simp add: gw_ready_def)
  ultimately obtain s where "gw_handle sample_env pool_env numbered_subscribers ideal_send sample_write 0 ?ev ?s = Inr s"
    using gw_handle_handled [OF pool_loans_fresh sample_writes s0(2) ready, of numbered_subscribers ideal_send 0] by (auto simp: handled_def)
  then have run: "run_events ?step [(0, ?ev)] ?s = Some s" using ready by (simp add: gw_step_def)
  have "announced sample_env (0, ?ev) ?s = [sample_info]" by (simp add: announced_def layer bytes(2))
  then have "gw_directory s = fold dir_op [sample_info] Map.empty"
    using directory_refined [OF pool_loans_fresh sample_writes sample_registry_wf sample_sys_world s0(1) run refl] run
    by (simp add: MAX_DEVICE_COUNT_def split: option.splits)
  then have "gw_directory s = [gatewayHash sample_info \<mapsto> sample_info]" by (simp add: dir_op_def sample_info_def)
  with bytes(1) s0(1) run show ?thesis by blast
qed

end
