(* ===== verification/Delivery.thy ===== *)
theory Delivery
  imports ReceiverRuns
begin

text \<open>
  The receiver's half of a transmission: whatever order the datagrams of a message arrive in, receiving them
  publishes the message once. Both the transmission over a single layer and the run of two whole
  gateways rest on it.
\<close>

section \<open>Arrivals in any order\<close>

lemma mset_map_permute:
  "mset (map f xs) = mset zs \<Longrightarrow> \<exists>ys. mset ys = mset xs \<and> map f ys = zs"
proof (induction zs arbitrary: xs)
  case (Cons z zs)
  then have "z \<in> set (map f xs)" by (metis list.set_intros(1) mset_eq_setD)
  then obtain x where x: "x \<in> set xs" "z = f x" by auto
  then have "mset (map f (remove1 x xs)) = mset zs" using Cons.prems by (simp add: image_mset_Diff)
  then obtain ys where "mset ys = mset (remove1 x xs)" "map f ys = zs" using Cons.IH by blast
  then show ?case using x by (intro exI [of _ "x # ys"]) simp
qed simp

lemma arrivals_of_segments:
  assumes "mset (map (\<lambda>(now, dev, bytes). bytes) arrivals) = mset (map (datagram E) segs)"
  shows "\<exists>as. arrivals = map (\<lambda>(now, dev, s). (now, dev, datagram E s)) as \<and> mset (arrived as) = mset segs"
proof -
  obtain ys where ys: "mset ys = mset segs" "map (datagram E) ys = map (\<lambda>(now, dev, bytes). bytes) arrivals"
    using mset_map_permute [OF assms [symmetric]] by blast
  then have len: "length ys = length arrivals" by (metis length_map)
  let ?as = "map (\<lambda>((now, dev, bytes), s). (now, dev, s)) (zip arrivals ys)"
  have "map (\<lambda>(now, dev, s). (now, dev, datagram E s)) ?as = arrivals"
    using ys(2) len
  proof (intro nth_equalityI)
    fix i assume i: "i < length (map (\<lambda>(now, dev, s). (now, dev, datagram E s)) ?as)"
    then have "datagram E (ys ! i) = (case arrivals ! i of (now, dev, bytes) \<Rightarrow> bytes)"
      using ys(2) len by (metis (no_types, lifting) length_map length_zip min_less_iff_conj nth_map)
    then show "map (\<lambda>(now, dev, s). (now, dev, datagram E s)) ?as ! i = arrivals ! i"
      using i by (auto split: prod.splits)
  qed simp
  moreover have "arrived ?as = ys" using len by (auto simp: comp_def case_prod_unfold intro!: nth_equalityI)
  ultimately show ?thesis using ys(1) by (metis (no_types, lifting))
qed

lemma messageSegments_ne:
  assumes "m \<noteq> 0" "hs @ ps \<noteq> []"
  shows "messageSegments h m hs ps \<noteq> []"
proof -
  have "segmentsFrom f (unat m) off xs \<noteq> []" if "xs \<noteq> []" for f off xs
    using segmentsFrom_step [of "unat m" xs f off] assms(1) that by (simp add: unat_eq_0)
  then show ?thesis using assms(2) by (auto simp: messageSegments_def)
qed

text \<open>The receiver's half: any arrival order of a message's datagrams publishes it once.\<close>

lemma receive_message:
  assumes "loans_fresh G" "receiver_inv x" "table_room x" "vm_lookup (segmented x) (messageHash h) = None"
    and "vm_wf cap m" "vm_lookup m (serviceHash h) = Some pub" "wf_header E h"
    and "loan G (pub_ptr pub) (request_for G h) (chunks x) = Some (p, c)"
    and "length hs = unat (userHeaderSize h)" "length ps = unat (userPayloadSize h)" "length hs + length ps + unat k \<le> 2 ^ 32"
    and "k \<noteq> 0" "maxIoxChunkDatagramHeaderSerializationSize E + unat k < 2 ^ 32" "hs @ ps \<noteq> []"
    and "mset (map (\<lambda>(now, dev, bytes). bytes) arrivals) = mset (map (datagram E) (messageSegments h k hs ps))"
  shows "\<exists>x' c'. receiveAll E G mutex m arrivals x = Inr x' \<and> ck_userPayload c' = ps \<and> (hs \<noteq> [] \<longrightarrow> ck_userHeader c' = hs) \<and>
    iox_events x' = iox_events x @ [Published (pub_ptr pub) p c'] \<and> chunks x' = chunks x \<and>
    vm_lookup (segmented x') = vm_lookup (segmented x)"
proof -
  let ?segs = "messageSegments h k hs ps"
  let ?h = "h\<lparr>submessageCount := divideAndRoundUp (userHeaderSize h) k + divideAndRoundUp (userPayloadSize h) k\<rparr>"
  have k: "0 < unat k" using assms(12) by (simp add: unat_gt_0)
  then have small: "length hs + length ps < 2 ^ 32" using assms(11) by linarith
  obtain as where as: "arrivals = map (\<lambda>(now, dev, s). (now, dev, datagram E s)) as" "mset (arrived as) = mset ?segs"
    using arrivals_of_segments [OF assms(15)] by blast
  have "as \<noteq> []" using as(2) messageSegments_ne [OF assms(12,14)] by auto
  have "segment_of ?h hs ps s \<and> maxIoxChunkDatagramHeaderSerializationSize E + length (snd s) < 2 ^ 32"
    if "s \<in> set (arrived as)" for s
  proof -
    have s: "s \<in> set ?segs" using that mset_eq_setD [OF as(2)] by simp
    then have "length (snd s) \<le> unat k" using messageSegments_data [of "fst s" "snd s"] by simp
    then show ?thesis using messageSegments_segment_of [OF s small] assms(13) by simp
  qed
  then have "receiveAll E G mutex m arrivals x = foldR (arrive G mutex pub) as x"
    unfolding as(1) using receiveAll_arrive [of cap m ?h pub E as hs ps G mutex x] assms(5-7)
    by (simp add: wf_header_def)
  then show ?thesis
    using arrive_all [OF assms(1) receiver_invD(3) [OF assms(2)] assms(4,3,8) as(2) \<open>as \<noteq> []\<close> assms(12,9,10) _ _ small, of mutex]
      assms(11) by auto
qed

end
