(* ===== verification/EndToEnd.thy ===== *)
theory EndToEnd
  imports Directory Delivery
begin

text \<open>
  Two whole gateways and the network between them: one learns of the other from its announcement, takes a chunk of a local publisher
  and sends it; the other receives the datagrams on its data socket, in any order, and publishes the chunk.
\<close>

section \<open>Sending to all devices\<close>

text \<open>
  What the sender's world is after the datagrams \<open>gs\<close> were sent to the endpoint \<open>e\<close>: only the UDP
  layer has changed, and of that neither the devices nor what was sent before.
\<close>

definition has_sent ::
  "('n \<Rightarrow> bool) \<Rightarrow> ('n \<Rightarrow> (byte list \<times> endpoint) list) \<Rightarrow> discovery \<times> ('n, 'c) gw_world \<Rightarrow> (byte list \<times> endpoint) list \<Rightarrow> discovery \<times> ('n, 'c) gw_world \<Rightarrow> bool" where
  "has_sent up sent s0 ms s \<longleftrightarrow> fst s = fst s0 \<and> (\<exists>u. snd s = (snd s0)\<lparr>gw_udp := u\<rparr> \<and> up (udp_net u) \<and>
     m_devices u = m_devices (gw_udp (snd s0)) \<and> sent (udp_net u) = sent (udp_net (gw_udp (snd s0))) @ ms)"

definition new_bytes :: "('n \<Rightarrow> (byte list \<times> endpoint) list) \<Rightarrow> discovery \<times> ('n, 'c) gw_world \<Rightarrow> discovery \<times> ('n, 'c) gw_world \<Rightarrow> byte list list" where
  "new_bytes sent s0 s = map fst (drop (length (sent (udp_net (gw_udp (snd s0))))) (sent (udp_net (gw_udp (snd s)))))"

abbreviation sent_data ::
  "('n \<Rightarrow> bool) \<Rightarrow> ('n \<Rightarrow> (byte list \<times> endpoint) list) \<Rightarrow> transport_layer \<Rightarrow> u32 \<Rightarrow> discovery \<times> ('n, 'c) gw_world \<Rightarrow> discovery \<times> ('n, 'c) gw_world \<Rightarrow> bool" where
  "sent_data up sent t dev s0 s \<equiv> getType t \<noteq> TCP \<and>
     has_sent up sent s0 (map (\<lambda>g. (g, data_endpoint (m_devices (gw_udp (snd s0))) dev)) (new_bytes sent s0 s)) s"

sublocale udp_network \<subseteq> gw: accepting_layer "gw_ops send wr" "sent_data up sent t dev s0" "new_bytes sent s0" t dev
  for wr :: "'c stream_write" and t dev and s0 :: "discovery \<times> ('n, 'c) gw_world"
proof
  fix s :: "discovery \<times> ('n, 'c) gw_world" and ser data
  assume ok: "sent_data up sent t dev s0 s"
  let ?e = "data_endpoint (m_devices (gw_udp (snd s0))) dev" and ?n0 = "sent (udp_net (gw_udp (snd s0)))"
  obtain u where u: "s = (fst s0, (snd s0)\<lparr>gw_udp := u\<rparr>)" "up (udp_net u)" "m_devices u = m_devices (gw_udp (snd s0))"
    "sent (udp_net u) = ?n0 @ map (\<lambda>g. (g, ?e)) (new_bytes sent s0 s)"
    using ok by (auto simp: has_sent_def prod_eq_iff)
  obtain u1 e where ep: "getEndpoint dev u = (u1, e)" by fastforce
  note e = getEndpoint_data [OF ep]
  obtain n where n: "send (ser @ data) (e\<lparr>port := DATA_PORT\<rparr>) (udp_net u) = Some n" "up n"
    "sent n = sent (udp_net u) @ [(ser @ data, e\<lparr>port := DATA_PORT\<rparr>)]"
    using sends [OF u(2)] by blast
  let ?s = "(fst s0, (snd s0)\<lparr>gw_udp := u1\<lparr>udp_net := n\<rparr>\<rparr>)"
  have "sendUserData (gw_ops send wr) t ser data dev s = Inr (t, False, ?s)"
    using ok ep e n(1) by (simp add: u(1) gw_ops_def gw_sendUserData_def udpSendUserData_def)
  moreover have "new_bytes sent s0 ?s = new_bytes sent s0 s @ [ser @ data]" using n(3) u(4) by (simp add: new_bytes_def)
  moreover have "has_sent up sent s0 (map (\<lambda>g. (g, ?e)) (new_bytes sent s0 ?s)) ?s"
    unfolding calculation(2) using e n(2,3) u(3,4) by (auto simp: has_sent_def)
  ultimately show "\<exists>s'. sendUserData (gw_ops send wr) t ser data dev s = Inr (t, False, s') \<and> sent_data up sent t dev s0 s' \<and>
      new_bytes sent s0 s' = new_bytes sent s0 s @ [ser @ data]"
    using ok by blast
qed

lemma udp_gw_payload: "getType t = UDP \<Longrightarrow> maxTransportPayloadSize E (gw_ops send wr) t = maxTransportPayloadSize E (udp_ops send) t"
  by (simp add: maxTransportPayloadSize_def gw_ops_def udp_ops_def)

context udp_network
begin

lemma gw_fan_out:
  assumes "up (udp_net (gw_udp w))" "\<forall>i \<in> set is. di_type i = UDP"
    and "s_transports ti ! index UDP = Some t" "isGood t" "getType t = UDP" "gw_sizes E"
    and "length (ch_userHeader ck) = unat (userHeaderSize h)" "length (ch_userPayload ck) = unat (userPayloadSize h)"
    and "length (ch_userHeader ck) + length (ch_userPayload ck) < 2 ^ 32"
  defines "grams \<equiv> map (datagram E) (messageSegments h (maxTransportPayloadSize E (udp_ops send) t) (ch_userHeader ck) (ch_userPayload ck))"
  shows "\<exists>u. writeSegmented E (gw_ops send wr) cb gw_release h ck is mutex sub \<lparr>ws_ti = ti, ws_pending = pm, ws_world = (d, w)\<rparr>
      = Inr \<lparr>ws_ti = ti, ws_pending = pm, ws_world = (d, w\<lparr>gw_udp := u,
          gw_i2t := (gw_i2t w)\<lparr>i2t_released := i2t_released (gw_i2t w) @ replicate (length is) (sub, ch_chunk ck)\<rparr>\<rparr>)\<rparr> \<and>
    up (udp_net u) \<and> m_devices u = m_devices (gw_udp w) \<and>
    sent (udp_net u) = sent (udp_net (gw_udp w)) @
      concat (map (\<lambda>i. map (\<lambda>g. (g, data_endpoint (m_devices (gw_udp w)) (di_device i))) grams) is)"
  using assms(1,2,7,8) unfolding grams_def
proof (induction "is" arbitrary: h w)
  case Nil
  show ?case using Nil.prems(1) by (auto intro!: exI [of _ "gw_udp w"])
next
  case (Cons i "is")
  let ?m = "maxTransportPayloadSize E (udp_ops send) t" and ?s = "\<lparr>ws_ti = ti, ws_pending = pm, ws_world = (d, w)\<rparr>"
  let ?hs = "ch_userHeader ck" and ?ps = "ch_userPayload ck" and ?e = "data_endpoint (m_devices (gw_udp w)) (di_device i)"
  let ?grams = "map (datagram E) (messageSegments h ?m ?hs ?ps)"
  have m: "?m = maxTransportPayloadSize E (gw_ops send wr) t" "?m \<noteq> 0"
    using gw_payload [OF assms(6), of send wr t] udp_gw_payload [OF assms(5), of E send wr] by simp_all
  have start: "sent_data up sent t (di_device i) (d, w) (ws_world ?s)"
    using Cons.prems(1) assms(5) by (auto simp: has_sent_def new_bytes_def intro: exI [of _ "gw_udp w"])
  have ty: "di_type i = UDP" "index (di_type i) < TRANSPORT_TYPE_COUNT" "s_transports (ws_ti ?s) ! index (di_type i) = Some t"
    using Cons.prems(2) assms(3) by (simp_all add: TRANSPORT_TYPE_COUNT_def)
  obtain h' w1 where 1: "writeSegmented E (gw_ops send wr) cb gw_release h ck (i # is) mutex sub ?s
      = writeSegmented E (gw_ops send wr) cb gw_release h' ck is mutex sub (?s\<lparr>ws_world := gw_release sub (ch_chunk ck) w1\<rparr>)"
    "sent_data up sent t (di_device i) (d, w) w1" "new_bytes sent (d, w) w1 = new_bytes sent (d, w) (ws_world ?s) @ ?grams" "same_message h' h"
    using gw.writeSegmented_next [OF start refl _ ty(2,3) assms(4) m Cons.prems(3,4) assms(9), of cb gw_release "is" mutex sub]
    by (auto simp: gw_ops_def)
  have "new_bytes sent (d, w) w1 = ?grams" using 1(3) by (simp add: new_bytes_def)
  then obtain u where u: "w1 = (d, w\<lparr>gw_udp := u\<rparr>)" "up (udp_net u)" "m_devices u = m_devices (gw_udp w)"
    "sent (udp_net u) = sent (udp_net (gw_udp w)) @ map (\<lambda>g. (g, ?e)) ?grams"
    using 1(2) by (auto simp: has_sent_def prod_eq_iff)
  let ?w = "w\<lparr>gw_udp := u, gw_i2t := (gw_i2t w)\<lparr>i2t_released := i2t_released (gw_i2t w) @ [(sub, ch_chunk ck)]\<rparr>\<rparr>"
  have "gw_release sub (ch_chunk ck) w1 = (d, ?w)" by (simp add: u(1) gw_release_def)
  moreover have "messageSegments h' ?m ?hs ?ps = messageSegments h ?m ?hs ?ps" using messageSegments_cong [OF 1(4)] .
  ultimately show ?case
    using Cons.IH [of ?w h'] Cons.prems u(2-4) same_message_fields [OF 1(4)] 1(1) by (simp add: replicate_append_same [symmetric])
qed

end

lemma chunk_fan_out:
  fixes msgHash :: hash
  assumes net: "udp_network send up sent" "up (udp_net (gw_udp w))"
    and layer: "s_transports ti ! index UDP = Some t" "isGood t" "getType t = UDP" "gw_sizes E"
    and dest: "generateDeviceIndices E ti d (tc_originId tc) (getClassHash E (sub_service sub)) = (d', is)" "\<forall>i \<in> set is. di_type i = UDP"
    and chunk: "chunk_sized tc"
  defines "grams \<equiv> map (datagram E) (messageSegments (datagramHeader (getClassHash E (sub_service sub)) msgHash tc)
     (maxTransportPayloadSize E (udp_ops send) t) (ch_userHeader (tc_chunk tc)) (ch_userPayload (tc_chunk tc)))"
  shows "\<exists>u. gw_chunkTaken E G S send wr sub (Some tc) msgHash (ti, (d, w)) = Inr (ti, (d', w\<lparr>gw_udp := u,
      gw_i2t := (gw_i2t w)\<lparr>i2t_released := i2t_released (gw_i2t w) @ replicate (max 1 (length is)) (sub_ptr sub, ch_chunk (tc_chunk tc))\<rparr>\<rparr>)) \<and>
    up (udp_net u) \<and> m_devices u = m_devices (gw_udp w) \<and>
    sent (udp_net u) = sent (udp_net (gw_udp w)) @
      concat (map (\<lambda>i. map (\<lambda>g. (g, data_endpoint (m_devices (gw_udp w)) (di_device i))) grams) is)"
proof (cases "is = []")
  case True
  then show ?thesis
    using dest net(2) by (auto simp: gw_chunkTaken_def i2t_notification_def gw_release_def intro!: exI [of _ "gw_udp w"])
next
  case False
  let ?ck = "tc_chunk tc" and ?h = "datagramHeader (getClassHash E (sub_service sub)) msgHash tc"
  have "length (ch_userHeader ?ck) = unat (userHeaderSize ?h)" "length (ch_userPayload ?ck) = unat (userPayloadSize ?h)"
    "length (ch_userHeader ?ck) + length (ch_userPayload ?ck) < 2 ^ 32"
    using chunk by (auto simp: chunk_sized_def header_sizes)
  from udp_network.gw_fan_out [OF net dest(2) layer this, where cb = "Some (transportFailCallback (gw_env E G S send) callback_fuel)"
      and mutex = 0 and sub = "sub_ptr sub" and pm = "i2t_pending (gw_i2t w)" and d = d' and wr = wr]
  obtain u where u: "writeSegmented E (gw_ops send wr) (Some (transportFailCallback (gw_env E G S send) callback_fuel)) gw_release ?h ?ck is 0
      (sub_ptr sub) \<lparr>ws_ti = ti, ws_pending = i2t_pending (gw_i2t w), ws_world = (d', w)\<rparr>
      = Inr \<lparr>ws_ti = ti, ws_pending = i2t_pending (gw_i2t w), ws_world = (d', w\<lparr>gw_udp := u,
          gw_i2t := (gw_i2t w)\<lparr>i2t_released := i2t_released (gw_i2t w) @ replicate (length is) (sub_ptr sub, ch_chunk ?ck)\<rparr>\<rparr>)\<rparr>"
    "up (udp_net u)" "m_devices u = m_devices (gw_udp w)" "sent (udp_net u) = sent (udp_net (gw_udp w)) @
      concat (map (\<lambda>i. map (\<lambda>g. (g, data_endpoint (m_devices (gw_udp w)) (di_device i))) grams) is)"
    unfolding grams_def by blast
  have "max 1 (length is) = length is" using False by (cases "is") auto
  then show ?thesis using u False dest(1) by (auto simp: gw_chunkTaken_def i2t_notification_def)
qed

section \<open>Receiving\<close>

definition data_event :: "time_point \<times> endpoint \<times> byte list \<Rightarrow> time_point \<times> gw_event" where
  "data_event = (\<lambda>(now, src, bytes). (now, Udp_Data False bytes src True))"

lemma data_event_receive:
  assumes "s_transports ti ! index UDP = Some t" "getIndex (address src) (gw_udp w) = Some j"
  shows "gw_handle E G S send wr now (Udp_Data False bytes src True) ((ti, (d, w)), t0) =
    bindR (receive E G now 0 bytes (length bytes) \<lparr>di_type = UDP, di_device = j\<rparr> (gw_publishers w, gw_t2i w))
      (\<lambda>x. Inr ((ti, (d, w\<lparr>gw_t2i := x\<rparr>)), t0))"
proof -
  have "put_transport (index UDP) t ti = ti" using assms(1) list_update_id [of "s_transports ti" "index UDP"] by (simp add: put_transport_def)
  then show ?thesis
    using assms by (simp add: gw_handle_def gw_layerEvent_def dataSocketCallback_def gw_deliver_def gw_userDataCallback_def)
qed

lemma data_events_receive:
  assumes "s_transports ti ! index UDP = Some t" "\<forall>(now, src, bytes) \<in> set arrivals. getIndex (address src) (gw_udp w) \<noteq> None"
  shows "foldR (\<lambda>(now, ev). gw_handle E G S send wr now ev) (map data_event arrivals) ((ti, (d, w)), t0) =
    bindR (receiveAll E G 0 (gw_publishers w)
        (map (\<lambda>(now, src, bytes). (now, \<lparr>di_type = UDP, di_device = the (getIndex (address src) (gw_udp w))\<rparr>, bytes)) arrivals) (gw_t2i w))
      (\<lambda>x. Inr ((ti, (d, w\<lparr>gw_t2i := x\<rparr>)), t0))"
  using assms(2)
proof (induction arrivals arbitrary: w)
  case Nil
  then show ?case by (simp add: receiveAll_def)
next
  case (Cons a arrivals)
  obtain now src bytes where a: "a = (now, src, bytes)" by (metis prod_cases3)
  then obtain j where j: "getIndex (address src) (gw_udp w) = Some j" using Cons.prems by auto
  show ?case
  proof (cases "receive E G now 0 bytes (length bytes) \<lparr>di_type = UDP, di_device = j\<rparr> (gw_publishers w, gw_t2i w)")
    case (Inl f)
    then show ?thesis by (simp add: a data_event_def data_event_receive [OF assms(1) j] receiveAll_def j)
  next
    case (Inr x)
    then show ?thesis
      using Cons.IH [of "w\<lparr>gw_t2i := x\<rparr>"] Cons.prems
      by (simp add: a data_event_def data_event_receive [OF assms(1) j] receiveAll_def j)
  qed
qed

section \<open>Learning of a peer\<close>

text \<open>
  The announcement of an unknown gateway, arriving from the endpoint \<open>e\<close>: its record is appended with a device index
  under which the UDP layer has that endpoint, and the cache is emptied.
\<close>

lemma peer_learned:
  assumes "sys_inv E ((ti0, (d0, w0)), t0)" "e \<notin> set (m_interfaceEndpoints (gw_udp w0))" "length (m_devices (gw_udp w0)) < MAX_DEVICE_COUNT"
    and "deserializeInfo E bytes (length bytes) = Inr (info, n)" "\<not> isTermination info"
    and "gatewayHash info \<notin> set (record_hashes (records (m_remoteState d0)))" "length (records (m_remoteState d0)) < MAX_DEVICE_COUNT"
    and "gw_handle E G S send wr now (Udp_Discovery False bytes e rearmed) ((ti0, (d0, w0)), t0) = Inr ((ti, (d, w)), t1)"
  obtains i where "di_type i = UDP" "unat (di_device i) < length (m_devices (gw_udp w))" "m_devices (gw_udp w) ! unat (di_device i) = e"
    "records (m_remoteState d) = records (m_remoteState d0) @ [\<lparr>dr_info = info, dr_deviceIndices = [i]\<rparr>]"
    "deviceIndicesCache (m_remoteState d) = vm_empty" "sys_inv E ((ti, (d, w)), t1)" "m_preferredType d = m_preferredType d0"
proof -
  obtain u out where cb: "discoverySocketCallback False bytes e rearmed (gw_udp w0) = (u, out)" by fastforce
  then obtain i where i: "out = Some (bytes, i)"
    using assms(2) find_if_end [of "\<lambda>x. x = e" "m_interfaceEndpoints (gw_udp w0)"]
    by (auto simp: discoverySocketCallback_def Let_def split: if_splits)
  note ep = getEndpoint_index [OF cb [unfolded i] assms(3)]
  let ?D = "gw_env E G S send" and ?w = "w0\<lparr>gw_udp := u\<rparr>"
  have inv: "ti_wf ti0" "wf_local (iox ?D) d0" "sys_world ?w \<and> udp_tables (gw_udp ?w) = udp_tables u"
    using assms(1) by (simp_all add: sys_inv_def sys_world_def gw_inv_def)
  have des: "deserializeInfo (iox ?D) bytes (length bytes) = Inr (info, n)" using assms(4) by simp
  have run: "receiveRemoteDiscoveryInfo ?D bytes (length bytes) i (ti0, (d0, ?w)) = Inr (ti, (d, w))" "t1 = t0"
    using assms(8) by (auto simp: gw_handle_def gw_layerEvent_def cb i gw_deliver_def gw_discoveryCallback_def result_simps)
  have r: "udp_tables (gw_udp w) = udp_tables u" "records (m_remoteState d) = storeRecord info i (records (m_remoteState d0))"
    "deviceIndicesCache (m_remoteState d) = vm_empty" "m_preferredType d = m_preferredType d0"
    using tables.receive_ok [OF inv des assms(5), of i] run(1) by auto
  have dev: "typed i" using ep by (simp add: typed_def TRANSPORT_TYPE_COUNT_def)
  have "sys_inv E ((ti0, (d0, ?w)), t0)" using assms(1) by (simp add: sys_inv_def sys_world_def gw_inv_def)
  from receiveInfo_ok [OF this dev assms(4), of G S send] have "sys_inv E ((ti, (d, w)), t1)" using run by auto
  moreover have "m_devices (gw_udp w) = m_devices u" using r(1) by (simp add: udp_tables_def)
  moreover have "records (m_remoteState d) = records (m_remoteState d0) @ [\<lparr>dr_info = info, dr_deviceIndices = [i]\<rparr>]"
    using r(2) storeRecord_new [OF assms(6,7)] by simp
  ultimately show thesis using that [of i] ep r(3,4) by simp
qed

text \<open>The only destination of a service that nobody else subscribes to.\<close>

lemma peer_destination:
  assumes "records (m_remoteState d) = rs @ [\<lparr>dr_info = info, dr_deviceIndices = [i]\<rparr>]" "deviceIndicesCache (m_remoteState d) = vm_empty"
    and "disc_inv d" "known_publisher d uid" "\<forall>r \<in> set rs. \<not> subscribes E h r" "srv \<in> set (userSubscribers info)" "getClassHash E srv = h"
    and "di_type i = UDP" "findMatchingType (gatewayBitset info) (m_preferredType d) ti = UDP"
  shows "\<exists>d'. generateDeviceIndices E ti d uid h = (d', [i])"
proof -
  let ?r = "\<lparr>dr_info = info, dr_deviceIndices = [i]\<rparr>" and ?dest = "destination E d ti (\<lambda>_. True) h"
  have none: "?dest r = None" if "r \<in> set rs" for r using assms(5) that by (auto simp: destination_def subscribes_def)
  then have "List.map_filter ?dest rs = []" by (induction rs) (simp_all add: map_filter_simps)
  moreover have "?dest ?r = Some i" using assms(6-9) by (auto simp: destination_def recordIndex_def)
  ultimately have "List.map_filter ?dest (records (m_remoteState d)) = [i]"
    by (simp add: assms(1) List.map_filter_def)
  then have dest: "computeDeviceIndices E ti d h = [i]"
    using assms(3) by (simp add: computeDeviceIndices_def collectIndices_all disc_inv_def wf_records_def)
  have coh: "cache_coherent E ti d" by (simp add: cache_coherent_def assms(2) vm.lookup_empty)
  have "vm_size (vm_empty :: (class_hash, device_index list) vector_map) \<noteq> MAX_TOPICS" by (simp add: vm_size_def vm_empty_def MAX_TOPICS_def)
  then show ?thesis using generateDeviceIndices_known [OF assms(3) coh assms(4), of h] dest assms(2) by auto
qed

section \<open>The two halves\<close>

lemma udp_payload_bounds:
  fixes send :: "'n send_to" and t :: transport_layer
  assumes "gw_sizes E" "n + MAX_DATAGRAM_SIZE \<le> 2 ^ 32"
  defines "k \<equiv> maxTransportPayloadSize E (udp_ops send) t"
  shows "n + unat k \<le> 2 ^ 32" "k \<noteq> 0" "maxIoxChunkDatagramHeaderSerializationSize E + unat k < 2 ^ 32"
proof -
  have max: "maxIoxChunkDatagramHeaderSerializationSize E < MAX_DATAGRAM_SIZE" using assms(1) by (simp add: gw_sizes_def)
  have k: "unat k = MAX_DATAGRAM_SIZE - maxIoxChunkDatagramHeaderSerializationSize E"
    unfolding k_def by (rule udp_payload_size [OF max])
  show "n + unat k \<le> 2 ^ 32" using assms(2) k by simp
  show "k \<noteq> 0" using k max by auto
  show "maxIoxChunkDatagramHeaderSerializationSize E + unat k < 2 ^ 32" using k max by (simp add: MAX_DATAGRAM_SIZE_def)
qed

text \<open>The receiving half: the datagrams of a message at the data socket publish it once.\<close>

lemma socket_publishes:
  assumes "sys_inv E ((ti, (d, w)), t0)" "s_transports ti ! index UDP = Some t" "loans_fresh G" "table_room (gw_t2i w)"
    and "vm_lookup (segmented (gw_t2i w)) (messageHash h) = None" "vm_lookup (gw_publishers w) (serviceHash h) = Some pub" "wf_header E h"
    and "loan G (pub_ptr pub) (request_for G h) (chunks (gw_t2i w)) = Some (p, c)"
    and "length hs = unat (userHeaderSize h)" "length ps = unat (userPayloadSize h)" "length hs + length ps + MAX_DATAGRAM_SIZE \<le> 2 ^ 32"
    and "hs @ ps \<noteq> []" "gw_sizes E"
    and "mset (map (\<lambda>(now, src, g). g) arrivals) = mset (map (datagram E) (messageSegments h (maxTransportPayloadSize E (udp_ops sendA) tA) hs ps))"
    and "\<forall>(now, src, g) \<in> set arrivals. getIndex (address src) (gw_udp w) \<noteq> None"
  shows "\<exists>x' c'. foldR (\<lambda>(now, ev). gw_handle E G S send wr now ev) (map data_event arrivals) ((ti, (d, w)), t0)
      = Inr ((ti, (d, w\<lparr>gw_t2i := x'\<rparr>)), t0) \<and> iox_events x' = iox_events (gw_t2i w) @ [Published (pub_ptr pub) p c'] \<and>
    ck_userPayload c' = ps \<and> (hs \<noteq> [] \<longrightarrow> ck_userHeader c' = hs)"
proof -
  let ?as = "map (\<lambda>(now, src, bytes). (now, \<lparr>di_type = UDP, di_device = the (getIndex (address src) (gw_udp w))\<rparr>, bytes)) arrivals"
  have inv: "receiver_inv (gw_t2i w)" "vm_wf MAX_TOPICS (gw_publishers w)"
    using assms(1) by (simp_all add: sys_inv_def sys_world_def gw_inv_def)
  have "map (\<lambda>(now, dev, bytes). bytes) ?as = map (\<lambda>(now, src, g). g) arrivals" by auto
  then have "mset (map (\<lambda>(now, dev, bytes). bytes) ?as) =
      mset (map (datagram E) (messageSegments h (maxTransportPayloadSize E (udp_ops sendA) tA) hs ps))" using assms(14) by (simp only:)
  from receive_message [OF assms(3) inv(1) assms(4,5) inv(2) assms(6-10) udp_payload_bounds [OF assms(13,11)] assms(12) this, of 0]
  show ?thesis using data_events_receive [OF assms(2,15)] by auto
qed

text \<open>The sending half: a chunk for the gateway that was heard goes to where it was heard from.\<close>

lemma peer_sent:
  assumes net: "udp_network send up sent" "up (udp_net (gw_udp w))"
    and peer: "sys_inv E ((ti, (d, w)), t1)" "records (m_remoteState d) = rs @ [\<lparr>dr_info = info, dr_deviceIndices = [i]\<rparr>]"
      "deviceIndicesCache (m_remoteState d) = vm_empty" "\<forall>r \<in> set rs. \<not> subscribes E (getClassHash E (sub_service sub)) r"
      "sub_service sub \<in> set (userSubscribers info)" "findMatchingType (gatewayBitset info) (m_preferredType d) ti = UDP"
    and dev: "di_type i = UDP" "unat (di_device i) < length (m_devices (gw_udp w))" "m_devices (gw_udp w) ! unat (di_device i) = e"
    and layer: "s_transports ti ! index UDP = Some t" "isGood t" "gw_sizes E" "known_publisher d (tc_originId tc)" "chunk_sized tc"
  shows "\<exists>d' w'. gw_handle E G S send wr now (Chunk_Taken sub (Some tc) msgHash) ((ti, (d, w)), t1) = Inr ((ti, (d', w')), t1) \<and>
    sent (udp_net (gw_udp w')) = sent (udp_net (gw_udp w)) @ map (\<lambda>g. (g, e\<lparr>port := DATA_PORT\<rparr>)) (map (datagram E)
      (messageSegments (datagramHeader (getClassHash E (sub_service sub)) msgHash tc) (maxTransportPayloadSize E (udp_ops send) t)
        (ch_userHeader (tc_chunk tc)) (ch_userPayload (tc_chunk tc)))) \<and>
    i2t_released (gw_i2t w') = i2t_released (gw_i2t w) @ [(sub_ptr sub, ch_chunk (tc_chunk tc))]"
proof -
  have inv: "disc_inv d" "ti_wf ti" using peer(1) by (simp_all add: sys_inv_def)
  obtain d' where dest: "generateDeviceIndices E ti d (tc_originId tc) (getClassHash E (sub_service sub)) = (d', [i])"
    using peer_destination [OF peer(2,3) inv(1) layer(4) peer(4,5) refl dev(1) peer(6)] by blast
  have ty: "getType t = UDP"
    using ti_wfD(2,3) [OF inv(2) _ layer(1)] by (auto simp: TRANSPORT_TYPE_COUNT_def)
  show ?thesis
    using chunk_fan_out [where G = G and S = S and wr = wr and msgHash = msgHash, OF net layer(1,2) ty layer(3) dest _ layer(5)] dev
    by (auto simp: gw_handle_def data_endpoint_def)
qed

section \<open>Properties\<close>

text \<open>
  C1. From host to host. A gateway that hears the announcement of another gateway from some endpoint, and then takes a chunk of a user
  publisher of a service that the other one, and no other, subscribes to, sends datagrams to the data port of that
  endpoint and nothing else. In whatever order, at whatever times these reach the data socket of the other gateway, from
  senders it has discovered, that gateway publishes exactly one chunk, with the header and the payload of the original.
\<close>

theorem end_to_end:
  assumes net: "udp_network send up sent"
    and peer: "assigns_c_strings E" "wf_local E peer" "generateDiscoveryInfo DP tip (peer, wp) = (info, wp')" "serializeInfo E info = Inr bytes"
      "card (set (ls_userSubscribers (m_localState peer))) \<le> MAX_TOPICS" "sub_service sub \<in> set (ls_userSubscribers (m_localState peer))"
    and before: "sys_inv E ((ti0, (d0, w0)), t0)" "m_gatewayHash peer \<notin> set (record_hashes (records (m_remoteState d0)))"
      "length (records (m_remoteState d0)) < MAX_DEVICE_COUNT" "length (m_devices (gw_udp w0)) < MAX_DEVICE_COUNT"
      "\<forall>r \<in> set (records (m_remoteState d0)). \<not> subscribes E (getClassHash E (sub_service sub)) r"
      "e \<notin> set (m_interfaceEndpoints (gw_udp w0))"
      "gw_handle E G S send wr now0 (Udp_Discovery False bytes e rearmed) ((ti0, (d0, w0)), t0) = Inr ((ti, (d, w)), t1)"
    and sender: "s_transports ti ! index UDP = Some t" "isGood t" "up (udp_net (gw_udp w))" "gw_sizes E" "known_publisher d (tc_originId tc)"
      "findMatchingType (s_bitset tip) (m_preferredType d) ti = UDP"
    and chunk: "chunk_sized tc" "hs = ch_userHeader (tc_chunk tc)" "ps = ch_userPayload (tc_chunk tc)"
      "length hs + length ps + MAX_DATAGRAM_SIZE \<le> 2 ^ 32" "hs @ ps \<noteq> []"
      "h = datagramHeader (getClassHash E (sub_service sub)) msgHash tc" "wf_header E h"
    and receiver: "sys_inv E ((tiB, (dB, wB)), tB)" "s_transports tiB ! index UDP = Some tr" "loans_fresh GB" "table_room (gw_t2i wB)"
      "vm_lookup (segmented (gw_t2i wB)) msgHash = None" "vm_lookup (gw_publishers wB) (serviceHash h) = Some pub"
      "loan GB (pub_ptr pub) (request_for GB h) (chunks (gw_t2i wB)) = Some (p, c)"
  shows "\<exists>d' w' grams. gw_handle E G S send wr now (Chunk_Taken sub (Some tc) msgHash) ((ti, (d, w)), t1) = Inr ((ti, (d', w')), t1) \<and>
    sent (udp_net (gw_udp w')) = sent (udp_net (gw_udp w)) @ map (\<lambda>g. (g, e\<lparr>port := DATA_PORT\<rparr>)) grams \<and>
    i2t_released (gw_i2t w') = i2t_released (gw_i2t w) @ [(sub_ptr sub, ch_chunk (tc_chunk tc))] \<and>
    (\<forall>arrivals. mset (map (\<lambda>(now, src, g). g) arrivals) = mset grams \<longrightarrow>
      (\<forall>(now, src, g) \<in> set arrivals. getIndex (address src) (gw_udp wB) \<noteq> None) \<longrightarrow>
      (\<exists>x' c'. foldR (\<lambda>(now, ev). gw_handle E GB SB sendB wrB now ev) (map data_event arrivals) ((tiB, (dB, wB)), tB)
          = Inr ((tiB, (dB, wB\<lparr>gw_t2i := x'\<rparr>)), tB) \<and>
        iox_events x' = iox_events (gw_t2i wB) @ [Published (pub_ptr pub) p c'] \<and>
        ck_userPayload c' = ps \<and> (hs \<noteq> [] \<longrightarrow> ck_userHeader c' = hs)))"
proof -
  note info = generateDiscoveryInfo_fields [OF peer(3)]
  have wf: "wf_info E info" by (rule generateDiscoveryInfo_wf [OF peer(2,3)])
  have des: "deserializeInfo E bytes (length bytes) = Inr (info, length bytes)"
    using deserialize_serialize_info [OF peer(1) wf peer(4), of "length bytes" "[]"] by simp
  obtain i where i: "di_type i = UDP" "unat (di_device i) < length (m_devices (gw_udp w))" "m_devices (gw_udp w) ! unat (di_device i) = e"
    "records (m_remoteState d) = records (m_remoteState d0) @ [\<lparr>dr_info = info, dr_deviceIndices = [i]\<rparr>]"
    "deviceIndicesCache (m_remoteState d) = vm_empty" "sys_inv E ((ti, (d, w)), t1)"
    using peer_learned [OF before(1,6,4) des info(4) _ before(3,7)] before(2) info(3) by metis
  have "sub_service sub \<in> set (userSubscribers info)"
    using info(1) peer(5,6) pushUnique_complete [of "[]" "ls_userSubscribers (m_localState peer)" MAX_TOPICS] by simp
  from peer_sent [OF net sender(3) i(6,4,5) before(5) this _ i(1-3) sender(1,2,4,5) chunk(1), of G S wr now msgHash]
  obtain d' w' where sent: "gw_handle E G S send wr now (Chunk_Taken sub (Some tc) msgHash) ((ti, (d, w)), t1) = Inr ((ti, (d', w')), t1)"
    "sent (udp_net (gw_udp w')) = sent (udp_net (gw_udp w)) @ map (\<lambda>g. (g, e\<lparr>port := DATA_PORT\<rparr>))
      (map (datagram E) (messageSegments h (maxTransportPayloadSize E (udp_ops send) t) hs ps))"
    "i2t_released (gw_i2t w') = i2t_released (gw_i2t w) @ [(sub_ptr sub, ch_chunk (tc_chunk tc))]"
    using sender(6) info(2) chunk(2,3,6) by auto
  have h: "vm_lookup (segmented (gw_t2i wB)) (messageHash h) = None" "length hs = unat (userHeaderSize h)" "length ps = unat (userPayloadSize h)"
    using receiver(5) chunk(1-3,6) by (simp_all add: chunk_sized_def header_sizes) (simp add: datagramHeader_def)
  note publishes = socket_publishes [OF receiver(1-4) h(1) receiver(6) chunk(7) receiver(7) h(2,3) chunk(4,5) sender(4), where S = SB and send = sendB and wr = wrB
      and sendA = send and tA = t]
  show ?thesis
    by (intro exI [of _ d'] exI [of _ w'] exI [of _ "map (datagram E) (messageSegments h (maxTransportPayloadSize E (udp_ops send) t) hs ps)"]
        conjI allI impI sent publishes)
qed

text \<open>
  Two gateways: the subscribing one announces itself to the publishing one, whose user publisher 7 then sends five bytes.
\<close>

definition subscribing_discovery :: discovery where
  "subscribing_discovery = (new_discovery 9 NONE)\<lparr>m_localState := \<lparr>userPublishers = [], ls_userSubscribers = [sample_service], userPublisherPorts = []\<rparr>\<rparr>"

definition publishing_discovery :: discovery where
  "publishing_discovery = (new_discovery 1 NONE)\<lparr>m_localState := \<lparr>userPublishers = [], ls_userSubscribers = [], userPublisherPorts = [7]\<rparr>\<rparr>"

definition subscribing_world :: "((byte list \<times> endpoint) list, unit) gw_world" where
  "subscribing_world = sample_world\<lparr>gw_publishers := \<lparr>m_keys = [sample_hash sample_service], m_elems = [sample_publisher]\<rparr>\<rparr>"

definition taken_sample :: taken_chunk where
  "taken_sample = \<lparr>tc_chunk = \<lparr>ch_chunk = 9, ch_userHeader = [], ch_userPayload = [1, 2, 3, 4, 5]\<rparr>, tc_originId = 7,
     tc_userPayloadSize = 5, tc_userPayloadAlignment = 1, tc_hasUserHeader = False, tc_userHeaderSize = 0\<rparr>"

lemma sample_registry_announce:
  assumes "wf_local sample_env d" "m_broadcastEndpoints (gw_udp w) = []"
  shows "announce sample_gw_env (sample_registry, (d, w)) = Inr (sample_registry, (d, w\<lparr>gw_drawn := Suc (gw_drawn w)\<rparr>))"
proof -
  obtain info w' where gen: "generateDiscoveryInfo sample_gw_env sample_registry (d, w) = (info, w')" by fastforce
  have w': "w' = w\<lparr>gw_drawn := Suc (gw_drawn w)\<rparr>" using gen by (auto simp: generateDiscoveryInfo_def gw_env_def)
  have "wf_info sample_env info" using generateDiscoveryInfo_wf [OF _ gen] assms(1) by simp
  then obtain bytes where bytes: "serializeInfo sample_env info = Inr bytes" using serializeInfo_ok by blast
  let ?t = "\<lparr>getType = UDP, m_status = GOOD\<rparr>"
  have quiet: "broadcastFn sample_gw_env bytes ?t (d, w') = Inr (?t, (d, w'))"
    using assms(2) by (simp add: w' broadcastFn_def gw_env_def gw_sendBroadcast_def udpSendBroadcast_def)
  then have "doForAllEnabled (broadcastFn sample_gw_env bytes) cb (sample_registry, (d, w')) = Inr (sample_registry, (d, w'))" for cb
    by (simp add: doForAllEnabled_def TRANSPORT_TYPE_COUNT_def upt_rec sample_registry_def callGood_def checkFailed_def put_transport_def status_defs)
  then show ?thesis using bytes by (simp add: announce_def gen sendDiscoveryInfo_def sendDiscoveryInfoWith_def w')
qed

lemma sample_gateways_inv:
  "sys_inv sample_env ((sample_registry, (publishing_discovery, sample_world)), t0)"
  "sys_inv sample_env ((sample_registry, (subscribing_discovery, subscribing_world)), t0)"
proof -
  have "wf_local sample_env publishing_discovery" "wf_local sample_env subscribing_discovery"
    by (simp_all add: publishing_discovery_def subscribing_discovery_def wf_local_def wf_service_def wf_id_def sample_service_def sample_env_def)
  moreover have "disc_inv publishing_discovery" "disc_inv subscribing_discovery" "disc_typed publishing_discovery" "disc_typed subscribing_discovery"
    by (simp_all add: publishing_discovery_def subscribing_discovery_def disc_inv_def disc_typed_def new_discovery_def wf_records_def
        vm.invar_empty vm.lookup_empty)
  moreover have "sys_world subscribing_world"
    using sample_sys_world by (auto simp: sys_world_def gw_inv_def subscribing_world_def vm_wf_def MAX_TOPICS_def)
  ultimately show "sys_inv sample_env ((sample_registry, (publishing_discovery, sample_world)), t0)"
    "sys_inv sample_env ((sample_registry, (subscribing_discovery, subscribing_world)), t0)"
    using sample_registry_wf sample_sys_world by (simp_all add: sys_inv_def)
qed

text \<open>The publishing gateway after the announcement.\<close>

lemma sample_learns:
  assumes "deserializeInfo sample_env bytes (length bytes) = Inr (info, n)" "\<not> isTermination info"
  shows "\<exists>d w. gw_handle sample_env pool_env numbered_subscribers ideal_send sample_write 0
      (Udp_Discovery False bytes \<lparr>address = 6, port = DISCOVERY_PORT\<rparr> True) ((sample_registry, (publishing_discovery, sample_world)), t0)
      = Inr ((sample_registry, (d, w)), t0) \<and> known_publisher d 7 \<and> m_preferredType d = NONE"
proof -
  have wf: "wf_local sample_env publishing_discovery" using sample_gateways_inv(1) by (simp add: sys_inv_def)
  have "deserializeInfo (iox sample_gw_env) bytes (length bytes) = Inr (info, n)" using assms(1) by simp
  obtain u i where u: "discoverySocketCallback False bytes \<lparr>address = 6, port = DISCOVERY_PORT\<rparr> True (gw_udp sample_world) = (u, Some (bytes, i))"
      "m_broadcastEndpoints u = []"
    by (auto simp: discoverySocketCallback_def Let_def sample_world_def sample_udp_def)
  have "m_broadcastEndpoints (gw_udp (sample_world\<lparr>gw_udp := u\<rparr>)) = []" using u(2) by simp
  note announce = sample_registry_announce [OF wf this]
  have d: "records (m_remoteState publishing_discovery) = []" "\<not> m_terminateFlag publishing_discovery"
    "m_updateCallback publishing_discovery = Callback_Unset" "userPublisherPorts (m_localState publishing_discovery) = [7]"
    "m_gatewayPublisherUids publishing_discovery = []" "m_preferredType publishing_discovery = NONE"
    by (simp_all add: publishing_discovery_def new_discovery_def)
  show ?thesis
    using assms announce d by (simp add: gw_handle_def gw_layerEvent_def u(1) gw_deliver_def gw_discoveryCallback_def
      receiveRemoteDiscoveryInfo_def callUpdate_def set_records_def clear_cache_def Let_def)
qed

lemma taken_sample_sized:
  "chunk_sized taken_sample" "[] = ch_userHeader (tc_chunk taken_sample)" "[1, 2, 3, 4, 5] = ch_userPayload (tc_chunk taken_sample)"
  "length ([] :: byte list) + length [1, 2, 3, 4, 5 :: byte] + MAX_DATAGRAM_SIZE \<le> 2 ^ 32" "[] @ [1, 2, 3, 4, 5 :: byte] \<noteq> []"
  "wf_header sample_env (datagramHeader (getClassHash sample_env sample_service) 77 taken_sample)"
  by (simp_all add: taken_sample_def chunk_sized_def MAX_DATAGRAM_SIZE_def wf_header_def datagramHeader_def sample_env_def sample_hash_def Let_def)

lemma subscribing_world_ready:
  defines "h \<equiv> datagramHeader (getClassHash sample_env sample_service) 77 taken_sample"
  shows "table_room (gw_t2i subscribing_world)" "vm_lookup (segmented (gw_t2i subscribing_world)) 77 = None"
    "vm_lookup (gw_publishers subscribing_world) (serviceHash h) = Some sample_publisher"
    "\<exists>c. loan pool_env (pub_ptr sample_publisher) (request_for pool_env h) (chunks (gw_t2i subscribing_world)) = Some (0, c)"
    "iox_events (gw_t2i subscribing_world) = []"
proof -
  have x: "gw_t2i subscribing_world = sample_receiver" by (simp add: subscribing_world_def sample_world_def)
  show "table_room (gw_t2i subscribing_world)" using sample_receiver_room by (simp add: x)
  show "vm_lookup (segmented (gw_t2i subscribing_world)) 77 = None" "iox_events (gw_t2i subscribing_world) = []"
    by (simp_all add: x sample_receiver_def t2i_initial_def vm.lookup_empty)
  show "vm_lookup (gw_publishers subscribing_world) (serviceHash h) = Some sample_publisher"
    by (simp add: h_def subscribing_world_def datagramHeader_def sample_env_def vm_lookup_def vm_defs)
  show "\<exists>c. loan pool_env (pub_ptr sample_publisher) (request_for pool_env h) (chunks (gw_t2i subscribing_world)) = Some (0, c)"
    by (simp add: pool_env_def pool_loan_def x sample_receiver_def t2i_initial_def upt_rec)
qed

theorem end_to_end_witness:
  "\<exists>bytes d w d' w' grams x' c'.
    serializeInfo sample_env (fst (generateDiscoveryInfo sample_gw_env sample_registry (subscribing_discovery, subscribing_world))) = Inr bytes \<and>
    gw_handle sample_env pool_env numbered_subscribers ideal_send sample_write 0
      (Udp_Discovery False bytes \<lparr>address = 6, port = DISCOVERY_PORT\<rparr> True) ((sample_registry, (publishing_discovery, sample_world)), 0)
      = Inr ((sample_registry, (d, w)), 0) \<and>
    gw_handle sample_env pool_env numbered_subscribers ideal_send sample_write 1
      (Chunk_Taken \<lparr>sub_ptr = 3, sub_service = sample_service\<rparr> (Some taken_sample) 77) ((sample_registry, (d, w)), 0)
      = Inr ((sample_registry, (d', w')), 0) \<and>
    udp_net (gw_udp w') = udp_net (gw_udp w) @ map (\<lambda>g. (g, \<lparr>address = 6, port = DATA_PORT\<rparr>)) grams \<and>
    foldR (\<lambda>(now, ev). gw_handle sample_env pool_env numbered_subscribers ideal_send sample_write now ev)
      (map data_event (map (\<lambda>g. (2, \<lparr>address = 5, port = DATA_PORT\<rparr>, g)) grams)) ((sample_registry, (subscribing_discovery, subscribing_world)), 0)
      = Inr ((sample_registry, (subscribing_discovery, subscribing_world\<lparr>gw_t2i := x'\<rparr>)), 0) \<and>
    iox_events x' = [Published 1 0 c'] \<and> ck_userPayload c' = [1, 2, 3, 4, 5]"
proof -
  let ?e = "\<lparr>address = 6, port = DISCOVERY_PORT\<rparr>" and ?sub = "\<lparr>sub_ptr = 3, sub_service = sample_service\<rparr>"
  let ?t = "\<lparr>getType = UDP, m_status = GOOD\<rparr>" and ?h = "datagramHeader (getClassHash sample_env sample_service) 77 taken_sample"
  obtain info wp where gen: "generateDiscoveryInfo sample_gw_env sample_registry (subscribing_discovery, subscribing_world) = (info, wp)" by fastforce
  have peer: "wf_local sample_env subscribing_discovery" "sub_service ?sub \<in> set (ls_userSubscribers (m_localState subscribing_discovery))"
    "card (set (ls_userSubscribers (m_localState subscribing_discovery))) \<le> MAX_TOPICS" "m_gatewayHash subscribing_discovery = 9"
    using sample_gateways_inv(2) by (simp_all add: sys_inv_def) (simp_all add: subscribing_discovery_def MAX_TOPICS_def new_discovery_def)
  have wf: "wf_info sample_env info" using generateDiscoveryInfo_wf [OF _ gen] peer(1) by simp
  obtain bytes where bytes: "serializeInfo sample_env info = Inr bytes" using serializeInfo_ok [OF wf] by blast
  have des: "deserializeInfo sample_env bytes (length bytes) = Inr (info, length bytes)"
    using deserialize_serialize_info [OF sample_env_assigns wf bytes, of "length bytes" "[]"] by simp
  obtain d w where learned: "gw_handle sample_env pool_env numbered_subscribers ideal_send sample_write 0 (Udp_Discovery False bytes ?e True)
      ((sample_registry, (publishing_discovery, sample_world)), 0) = Inr ((sample_registry, (d, w)), 0)" "known_publisher d (tc_originId taken_sample)"
    "m_preferredType d = NONE"
    using sample_learns [OF des generateDiscoveryInfo_fields(4) [OF gen], of 0] by (auto simp: taken_sample_def)
  have before: "m_gatewayHash subscribing_discovery \<notin> set (record_hashes (records (m_remoteState publishing_discovery)))"
    "length (records (m_remoteState publishing_discovery)) < MAX_DEVICE_COUNT" "length (m_devices (gw_udp sample_world)) < MAX_DEVICE_COUNT"
    "\<forall>r \<in> set (records (m_remoteState publishing_discovery)). \<not> subscribes sample_env (getClassHash sample_env (sub_service ?sub)) r"
    "?e \<notin> set (m_interfaceEndpoints (gw_udp sample_world))"
    by (simp_all add: publishing_discovery_def new_discovery_def MAX_DEVICE_COUNT_def sample_world_def sample_udp_def)
  have sender: "s_transports sample_registry ! index UDP = Some ?t" "isGood ?t" "findMatchingType (s_bitset sample_registry) (m_preferredType d) sample_registry = UDP"
    by (simp_all add: learned(3) findMatchingType_def sample_registry_def isGood_def bit_numeral_rec)
  obtain c where loan: "loan pool_env (pub_ptr sample_publisher) (request_for pool_env ?h) (chunks (gw_t2i subscribing_world)) = Some (0, c)"
    using subscribing_world_ready(4) by blast
  note receiver = subscribing_world_ready(1-3) loan
  have h: "?h = datagramHeader (getClassHash sample_env (sub_service ?sub)) 77 taken_sample" by simp
  from end_to_end [OF ideal.udp_network_axioms sample_env_assigns peer(1) gen bytes peer(3,2) sample_gateways_inv(1) before learned(1) sender(1,2) TrueI
      sample_writes(2) learned(2) sender(3) taken_sample_sized(1-5) h taken_sample_sized(6) sample_gateways_inv(2) sender(1) pool_loans_fresh receiver,
      where SB = numbered_subscribers and sendB = ideal_send and wrB = sample_write and now = 1 and tB = 0]
  obtain d' w' grams where sent: "gw_handle sample_env pool_env numbered_subscribers ideal_send sample_write 1 (Chunk_Taken ?sub (Some taken_sample) 77)
      ((sample_registry, (d, w)), 0) = Inr ((sample_registry, (d', w')), 0)"
    "udp_net (gw_udp w') = udp_net (gw_udp w) @ map (\<lambda>g. (g, ?e\<lparr>port := DATA_PORT\<rparr>)) grams"
    and recv: "\<forall>arrivals. mset (map (\<lambda>(now, src, g). g) arrivals) = mset grams \<longrightarrow>
      (\<forall>(now, src, g) \<in> set arrivals. getIndex (address src) (gw_udp subscribing_world) \<noteq> None) \<longrightarrow>
      (\<exists>x' c'. foldR (\<lambda>(now, ev). gw_handle sample_env pool_env numbered_subscribers ideal_send sample_write now ev) (map data_event arrivals)
          ((sample_registry, (subscribing_discovery, subscribing_world)), 0)
          = Inr ((sample_registry, (subscribing_discovery, subscribing_world\<lparr>gw_t2i := x'\<rparr>)), 0) \<and>
        iox_events x' = iox_events (gw_t2i subscribing_world) @ [Published (pub_ptr sample_publisher) 0 c'] \<and> ck_userPayload c' = [1, 2, 3, 4, 5] \<and>
        ([] \<noteq> [] \<longrightarrow> ck_userHeader c' = []))"
    by blast
  have "getIndex 5 (gw_udp subscribing_world) \<noteq> None" by (simp add: subscribing_world_def sample_world_def sample_udp_def getIndex_def)
  then obtain x' c' where "foldR (\<lambda>(now, ev). gw_handle sample_env pool_env numbered_subscribers ideal_send sample_write now ev)
      (map data_event (map (\<lambda>g. (2, \<lparr>address = 5, port = DATA_PORT\<rparr>, g)) grams)) ((sample_registry, (subscribing_discovery, subscribing_world)), 0)
      = Inr ((sample_registry, (subscribing_discovery, subscribing_world\<lparr>gw_t2i := x'\<rparr>)), 0)"
    "iox_events x' = [Published 1 0 c']" "ck_userPayload c' = [1, 2, 3, 4, 5]"
    using spec [OF recv, of "map (\<lambda>g. (2, \<lparr>address = 5, port = DATA_PORT\<rparr>, g)) grams"] by (auto simp: comp_def subscribing_world_ready(5) sample_publisher_def)
  with gen bytes learned(1) sent show ?thesis by auto
qed

text \<open>
  C9. A chunk goes to all its subscribers. A chunk taken from a user publisher of this host is sent to every gateway that subscribes to its service and is known
  on the transport chosen for it, once and in the order of the records: to the data port of the device under which that gateway is known go the datagrams of the whole message, one after the
  other, and nothing else is sent. The chunk is given back to iceoryx once for each of them, or once if there is none.
\<close>

theorem fan_out:
  assumes "udp_network send up sent" "up (udp_net (gw_udp w))" "sys_inv E ((ti, (d, w)), t0)" "cache_coherent E ti d"
    and "s_transports ti ! index UDP = Some t" "isGood t" "gw_sizes E" "known_publisher d (tc_originId tc)" "chunk_sized tc"
    and "srv = getClassHash E (sub_service sub)"
    and "vm_lookup (deviceIndicesCache (m_remoteState d)) srv \<noteq> None \<or> vm_size (deviceIndicesCache (m_remoteState d)) \<noteq> MAX_TOPICS"
    and "devices = List.map_filter (recordIndex d ti) (filter (subscribes E srv) (records (m_remoteState d)))" "\<forall>i \<in> set devices. di_type i = UDP"
    and "grams = map (datagram E) (messageSegments (datagramHeader srv msgHash tc) (maxTransportPayloadSize E (udp_ops send) t)
      (ch_userHeader (tc_chunk tc)) (ch_userPayload (tc_chunk tc)))"
  shows "\<exists>d' w'. gw_handle E G S send wr now (Chunk_Taken sub (Some tc) msgHash) ((ti, (d, w)), t0) = Inr ((ti, (d', w')), t0) \<and>
    sent (udp_net (gw_udp w')) = sent (udp_net (gw_udp w)) @
      concat (map (\<lambda>i. map (\<lambda>g. (g, data_endpoint (m_devices (gw_udp w)) (di_device i))) grams) devices) \<and>
    i2t_released (gw_i2t w') = i2t_released (gw_i2t w) @ replicate (max 1 (length devices)) (sub_ptr sub, ch_chunk (tc_chunk tc))"
proof -
  have inv: "disc_inv d" "ti_wf ti" using assms(3) by (simp_all add: sys_inv_def)
  have ty: "getType t = UDP" using ti_wfD(2,3) [OF inv(2) _ assms(5)] by (auto simp: TRANSPORT_TYPE_COUNT_def)
  have "computeDeviceIndices E ti d srv = List.map_filter (destination E d ti (\<lambda>_. True) srv) (records (m_remoteState d))"
    using inv(1) by (simp add: computeDeviceIndices_def collectIndices_all disc_inv_def wf_records_def)
  moreover have "List.map_filter (destination E d ti (\<lambda>_. True) srv) rs = List.map_filter (recordIndex d ti) (filter (subscribes E srv) rs)" for rs
    by (induction rs) (auto simp: map_filter_simps destination_def subscribes_def split: option.splits)
  ultimately obtain d' where "generateDeviceIndices E ti d (tc_originId tc) (getClassHash E (sub_service sub)) = (d', devices)"
    using generateDeviceIndices_known [OF inv(1) assms(4,8), of srv] assms(10-12) by auto
  from chunk_fan_out [where G = G and S = S and wr = wr and msgHash = msgHash, OF assms(1,2,5,6) ty assms(7) this assms(13,9)]
  show ?thesis using assms(10,14) by (auto simp: gw_handle_def)
qed

definition known_peers :: discovery where
  "known_peers = publishing_discovery\<lparr>m_remoteState := \<lparr>records =
     [\<lparr>dr_info = sample_info\<lparr>userSubscribers := [sample_service], gatewayHash := 9, gatewayBitset := 4\<rparr>, dr_deviceIndices = [\<lparr>di_type = UDP, di_device = 0\<rparr>]\<rparr>,
      \<lparr>dr_info = sample_info\<lparr>userSubscribers := [sample_service], gatewayHash := 10, gatewayBitset := 4\<rparr>, dr_deviceIndices = [\<lparr>di_type = UDP, di_device = 1\<rparr>]\<rparr>],
     deviceIndicesCache = vm_empty\<rparr>\<rparr>"

theorem fan_out_witness:
  "\<exists>d' w'. gw_handle sample_env pool_env numbered_subscribers ideal_send sample_write 1
      (Chunk_Taken \<lparr>sub_ptr = 3, sub_service = sample_service\<rparr> (Some taken_sample) 77) ((sample_registry, (known_peers, sample_world)), 0)
      = Inr ((sample_registry, (d', w')), 0) \<and>
    i2t_released (gw_i2t w') = [(3, 9), (3, 9)]"
proof -
  let ?sub = "\<lparr>sub_ptr = 3, sub_service = sample_service\<rparr>" and ?t = "\<lparr>getType = UDP, m_status = GOOD\<rparr>"
  have records: "records (m_remoteState known_peers) =
     [\<lparr>dr_info = sample_info\<lparr>userSubscribers := [sample_service], gatewayHash := 9, gatewayBitset := 4\<rparr>, dr_deviceIndices = [\<lparr>di_type = UDP, di_device = 0\<rparr>]\<rparr>,
      \<lparr>dr_info = sample_info\<lparr>userSubscribers := [sample_service], gatewayHash := 10, gatewayBitset := 4\<rparr>, dr_deviceIndices = [\<lparr>di_type = UDP, di_device = 1\<rparr>]\<rparr>]"
    and d: "deviceIndicesCache (m_remoteState known_peers) = vm_empty" "m_preferredType known_peers = NONE"
      "known_publisher known_peers (tc_originId taken_sample)"
    by (simp_all add: known_peers_def publishing_discovery_def new_discovery_def taken_sample_def)
  have "ti_wf sample_registry" "wf_local sample_env known_peers" "sys_world sample_world"
    using sample_gateways_inv(1) by (simp_all add: sys_inv_def wf_local_def known_peers_def)
  moreover have "disc_inv known_peers" "disc_typed known_peers"
    by (simp_all add: disc_inv_def disc_typed_def wf_records_def wf_record_def records d vm.invar_empty vm.lookup_empty typed_def
        MAX_DEVICE_COUNT_def TRANSPORT_TYPE_COUNT_def)
  ultimately have inv: "sys_inv sample_env ((sample_registry, (known_peers, sample_world)), 0)" "cache_coherent sample_env sample_registry known_peers"
    by (simp_all add: sys_inv_def cache_coherent_def d vm.lookup_empty)
  have layer: "s_transports sample_registry ! index UDP = Some ?t" "isGood ?t" "chunk_sized taken_sample"
    "vm_size (deviceIndicesCache (m_remoteState known_peers)) \<noteq> MAX_TOPICS"
    by (simp_all add: sample_registry_def isGood_def taken_sample_def chunk_sized_def d vm_size_def vm_empty_def MAX_TOPICS_def)
  have "findMatchingType 4 NONE sample_registry = UDP" by (simp add: findMatchingType_def sample_registry_def isGood_def bit_numeral_rec)
  then have devices: "[\<lparr>di_type = UDP, di_device = 0\<rparr>, \<lparr>di_type = UDP, di_device = 1\<rparr>] = List.map_filter (recordIndex known_peers sample_registry)
      (filter (subscribes sample_env (getClassHash sample_env (sub_service ?sub))) (records (m_remoteState known_peers)))"
    by (simp add: records subscribes_def recordIndex_def d map_filter_simps)
  have "\<forall>i \<in> set [\<lparr>di_type = UDP, di_device = 0\<rparr>, \<lparr>di_type = UDP, di_device = 1\<rparr>]. di_type i = UDP" by simp
  from fan_out [OF ideal.udp_network_axioms TrueI inv layer(1,2) sample_writes(2) d(3) layer(3) refl disjI2 [OF layer(4)] devices this refl,
      of pool_env numbered_subscribers sample_write 1 77]
  show ?thesis by (auto simp: sample_world_def taken_sample_def numeral_eq_Suc)
qed

end
