(* ===== verification/Spec2Isabelle.thy ===== *)
theory Spec2Isabelle
  imports Introspection TcpStream WaitsetProgress LockOrder Forwarding TcpObject Directory EndToEnd
begin

text \<open>
  This development models the p3com gateway, which connects the iceoryx middleware of several hosts
  over a network. A gateway process on each host subscribes to the local services that remote hosts
  need, sends their chunks as datagrams, and publishes locally what it receives.

  \<^bold>\<open>Parts and theories.\<close> Each theory opens with a description of its own; this is the order in which
  they build on each other. Paths are relative to \<^verbatim>\<open>src/\<close>.

  \<^item> \<open>Prelude\<close>: results with faults (a violated \<^verbatim>\<open>Expects\<close>, an access out of bounds, a null
    dereference, a use after release, a division by zero, a wait that does not end), bounded vectors, memory copies,
    little-endian bytes.
  \<^item> \<open>HelperFunctions\<close>: the container helpers and the two builds of \<^verbatim>\<open>neonMemcpy\<close>
    (\<^verbatim>\<open>include/p3com/utility/helper_functions.hpp\<close>).
  \<^item> \<open>VectorMap\<close>: \<^verbatim>\<open>cxx::vector_map\<close> (\<^verbatim>\<open>include/p3com/internal/utility/vector_map.inl\<close>), with the
    locale \<open>bounded_map\<close> for what its clients use of it.
  \<^item> \<open>Types\<close>, \<open>Serialization\<close>: the data types, limits and the two wire formats
    (\<^verbatim>\<open>include/p3com/generic/\<close>, \<^verbatim>\<open>source/p3com/generic/serialization.cpp\<close>).
  \<^item> \<open>Transport\<close>: the status of a transport layer and the registry \<^verbatim>\<open>TransportInfo\<close>. The static
    members are the record \<open>transport_info\<close>, the fail callback a function on the registry and the
    rest of the state. Locales \<open>layer_client\<close>, \<open>fail_handler\<close>, \<open>registry_client\<close> and \<open>total_client\<close>
    state what a function run on the layers and the callback promise.
  \<^item> \<open>PendingMessages\<close>, \<open>SegmentedMessages\<close>: the tables of chunks being sent and of messages under
    construction.
  \<^item> \<open>DataReader\<close>, \<open>DataWriter\<close>: segmentation and its inverse. Locale \<open>accepting_layer\<close> is the contract
    of a layer that accepts what it is given, \<open>nonpending_layers\<close> that of one without pending messages.
  \<^item> \<open>Discovery\<close>: \<^verbatim>\<open>DiscoveryManager\<close>, which keeps the local ports, the records of the remote gateways and
    the cache of device indices, and decides which channels exist and where chunks go.
  \<^item> \<open>UdpTransport\<close>, \<open>UdpReceive\<close>: the UDP layer and its broadcast discovery; the second theory has the construction,
    the receive loops and the destruction of the object.
  \<^item> \<open>Gateway\<close>, \<open>Iox2Transport\<close>, \<open>Transport2Iox\<close>: the channels of a gateway and the two directions.
    \<open>Transport2Iox\<close> keeps an explicit store of loaned chunks, so that touching a released chunk is
    a fault; \<open>Reassembly\<close>, \<open>ChunkSafety\<close> and \<open>ReceiverRuns\<close> hold the theory of that direction:
    the chunks of a message in any order, the invariant of single operations, and runs of all operations.
  \<^item> \<open>Forwarder\<close>, \<open>Forwarding\<close>: \<^verbatim>\<open>TransportForwarder\<close>, and the machine of the receiver publishing chunks and the forwarder
    taking them from its subscribers.
  \<^item> \<open>Runs\<close>: runs of machines whose steps are functions, with the locales \<open>step_invariant\<close>, \<open>progressing\<close> and \<open>simulation\<close> that
    \<open>WaitsetThreads\<close>, \<open>WaitsetProgress\<close>, \<open>UdpReceive\<close>, \<open>TcpObject\<close>, \<open>LockOrder\<close>, \<open>Forwarding\<close>, \<open>GatewaySystem\<close> and \<open>Directory\<close> interpret.
  \<^item> \<open>Config\<close>: command line, configuration file and construction of the registry.
  \<^item> \<open>TcpTransport\<close>, \<open>TcpSessions\<close>, \<open>TcpStream\<close>, \<open>TcpObject\<close>: the TCP layer (\<^verbatim>\<open>source/tcp/\<close>). The first has the sessions,
    their asynchronous operations and the handlers; the second the invariant of their life cycle and its
    runs; the third messages over the byte stream of a connection, with the locale \<open>tcp_connection\<close> for
    what is relied on of the socket; the fourth the object with its acceptor and thread.
  \<^item> \<open>WaitsetThreads\<close>, \<open>WaitsetProgress\<close>: \<^verbatim>\<open>Iceoryx2Transport\<close> as concurrent threads, step by step: the waitset loop, an
    update of the channels and threads that report sent buffers, with their two mutexes and the suspend flag.
  \<^item> \<open>LockOrder\<close>: what every function of the gateway does with mutexes, as a scoped program, and the threads composed of
    these programs.
  \<^item> \<open>GatewayApp\<close>: the composition of all of these, \<^verbatim>\<open>GatewayApp::run\<close> and \<^verbatim>\<open>main\<close>.
  \<^item> \<open>Sending\<close>, \<open>GatewaySystem\<close>: sending returns, whatever the layers do (locale \<open>sending_layers\<close>); and the running gateway,
    as the machine of everything that can reach it from the network, from the middleware and from its own clock.
  \<^item> \<open>Introspection\<close>: what the gateway publishes about itself and the functions that applications ask and
    wait for a registration with (\<^verbatim>\<open>source/p3com/introspection/gw_introspection.cpp\<close>).
  \<^item> \<open>Directory\<close>: the abstract specification of discovery, a directory of the gateways that have announced themselves, and
    that the running gateway simulates it.
  \<^item> \<open>Delivery\<close>, \<open>EndToEnd\<close>: a message received in any order; and two whole gateways with a network between them.
  \<^item> This theory: what holds across the layers and directions of two gateways.

  \<^bold>\<open>How state and operations correspond.\<close> A C++ object is a record with the names of its members, an
  operation a function that takes and returns it; operations on several objects take a tuple. An
  operation that can abort or touch memory it must not touch returns \<open>fault + 'a\<close>. Machine integers
  are words of their width where arithmetic on them is done. Operations are atomic, and interleavings are sequences
  of operations (\<open>status_run\<close>, \<open>pm_run\<close>, \<open>t2i_step\<close>, \<open>gw_step\<close>), except in \<open>WaitsetThreads\<close>, whose steps are the accesses
  between two lock operations, and in \<open>LockOrder\<close>, whose steps are the lock operations themselves. What
  the code takes from iceoryx, asio, \<^verbatim>\<open>getopt\<close> and the TOML library are parameters: records such
  as \<open>iox_env\<close>, \<open>pub_env\<close>, \<open>sub_env\<close>, or functions such as \<open>send_to\<close>, with the documented behaviour
  they are relied on for as named hypotheses (\<open>loans_fresh\<close>, \<open>assigns_c_strings\<close>, \<open>udp_network\<close>,
  \<open>publisher_factory\<close>, \<open>subscriber_factory\<close>, \<open>writes_all\<close>).

  \<^bold>\<open>What is shown.\<close> Messages: what a publisher of one host publishes, a gateway that was discovered publishes on
  another, once (\<open>end_to_end\<close>), and every subscribing gateway is sent it (\<open>fan_out\<close>); any arrival order of a message's datagrams publishes it exactly once and
  intact (\<open>message_gets_through\<close>), over TCP whatever the way the reads complete (\<open>tcp_message_gets_through\<close>); both wire
  formats and the framing of the TCP stream round trip (\<open>header_round_trip\<close>, \<open>info_round_trip\<close>, \<open>tcp_framing\<close>).
  Chunks: in every reachable receiver state the chunks in use are those of the messages under construction
  (\<open>chunks_accounted\<close>), with the exact effect of every handler (\<open>receive_safe\<close>, \<open>release_exact\<close>,
  \<open>timeouts_exact\<close>, \<open>loan_safe\<close>, \<open>close_exact\<close>); chunks being sent are released exactly once
  (\<open>pending_conservation\<close>, \<open>pending_refinement\<close>). Discovery: the records are the directory of those who
  announced themselves and did not leave (\<open>directory_refined\<close>), peers' subscribers are found (\<open>subscribers_found\<close>), channels and destinations are exactly the needed ones (\<open>channels_follow_discovery\<close>,
  \<open>device_indices\<close>, \<open>needed_channels\<close>), chunks are forwarded once, away from where they came from (\<open>forwarding_exact\<close>), every message and sample is absorbed with the
  invariants kept (\<open>discovery_message_absorbed\<close>, \<open>port_sample_read\<close>), and applications are told what is
  routed (\<open>registered_is_routed\<close>). Sessions: the asynchronous handlers of the TCP layer never run on a destroyed
  session as long as the vector of sessions has room (\<open>tcp_sessions_safe\<close>); layers in good state keep receiving and
  accepting (\<open>udp_keeps_receiving\<close>, \<open>tcp_keeps_accepting\<close>). The whole: after any sequence of events the next one is handled with all
  invariants kept, or a received message is at fault by itself (\<open>gateway_events_safe\<close>). Threads: exclusive use of the waitset and
  the subscribers (\<open>threads_exclusive\<close>), an update under way can be completed (\<open>update_can_finish\<close>), no destroyed
  subscriber is used in runs without the known races (\<open>clean_runs_safe\<close>), no deadlock on mutexes (\<open>no_lock_deadlock\<close>). Termination: announcing under layer
  failures (\<open>announcing_ends\<close>), channel deletion (\<open>channel_deletion_ends\<close>), connecting (\<open>tcp_gives_up\<close>), waiting for a registration
  (\<open>registration_wait\<close>) and the whole program (\<open>program_ends\<close>). Failures of layers are
  handled once (\<open>failure_reported_once\<close>). Some theorems pin down where the code departs from its intent, among them
  \<open>udp_release_per_device\<close>, \<open>preferred_name_off_by_one\<close>, \<open>full_table_use_after_release\<close>, \<open>stale_cache_after_termination\<close>,
  \<open>tcp_full_table\<close>, \<open>tcp_index_shifts\<close>, \<open>long_timeout_returns_at_once\<close>, \<open>deletion_races\<close>, \<open>single_reporter_deadlock\<close>.

  \<^bold>\<open>Bounds and fuel.\<close> Loops are total functions; the recursion of the fail callback through
  \<^verbatim>\<open>doForAllEnabled\<close> takes fuel \<open>callback_fuel\<close>, the number of transport types, which is
  proved to be enough because every nested call is preceded by disabling one more layer
  (\<open>announcing_ends\<close>). Loops that poll or wait consume a list of future answers of the system and
  end in the fault \<open>Waits_Forever\<close> if the list ends first; the termination theorems say which
  answers are enough. Limits are those of the non-FreeRTOS build.

  \<^bold>\<open>Not modelled.\<close> Log output and help text; the formatting of addresses (\<^verbatim>\<open>inetNtoA\<close>); signals and the start of the iceoryx
  runtime; the system calls of sockets and the event loop of asio (the handlers it calls are modelled, and its completions are events);
  random hashes and the clock (arguments of the operations); the PCIe layer, whose sources are not part of the repository. Of the other functions of the
  sources, only the \<^verbatim>\<open>const\<close> overloads of accessors and those that just store a reference or a callback have no definition of
  their own. The
  machine of \<open>GatewaySystem\<close> takes handlers as atomic; the interleavings within handlers are those of \<open>WaitsetThreads\<close> and
  \<open>LockOrder\<close>.
\<close>

section \<open>From publisher to publisher\<close>

text \<open>
  C3. A message gets through. Writing a non-empty chunk to one device over UDP hands the network datagrams
  such that, in whatever order, at whatever times and over whatever devices they arrive at the
  receiving gateway, that gateway publishes exactly one chunk, with the user header and the
  payload that were written, and is otherwise as before.
\<close>

theorem message_gets_through:
  assumes net: "udp_network send up sent" "up (udp_net (ws_world s))"
    and layer: "di_type i = UDP" "s_transports (ws_ti s) ! index UDP = Some t" "isGood t"
    and sizes: "length hs = unat (userHeaderSize h)" "length ps = unat (userPayloadSize h)"
      "length hs + length ps + MAX_DATAGRAM_SIZE \<le> 2 ^ 32" "hs @ ps \<noteq> []"
    and header: "wf_header E h" "maxIoxChunkDatagramHeaderSerializationSize E < MAX_DATAGRAM_SIZE"
    and receiver: "loans_fresh G" "receiver_inv x" "table_room x" "vm_lookup (segmented x) (messageHash h) = None"
      "vm_wf cap m" "vm_lookup m (serviceHash h) = Some pub"
      "loan G (pub_ptr pub) (request_for G h) (chunks x) = Some (p, c)"
  shows "\<exists>w' grams. writeSegmented E (udp_ops send) cb rel h \<lparr>ch_chunk = q, ch_userHeader = hs, ch_userPayload = ps\<rparr> [i] mutex subscriber s
      = Inr (s\<lparr>ws_world := rel subscriber q w'\<rparr>) \<and>
    datagrams_to sent (m_devices (ws_world s)) (di_device i) w'
      = datagrams_to sent (m_devices (ws_world s)) (di_device i) (ws_world s) @ grams \<and>
    (\<forall>arrivals. mset (map (\<lambda>(now, dev, bytes). bytes) arrivals) = mset grams \<longrightarrow>
       (\<exists>x' c'. receiveAll E G mutex' m arrivals x = Inr x' \<and> ck_userPayload c' = ps \<and> (hs \<noteq> [] \<longrightarrow> ck_userHeader c' = hs) \<and>
          iox_events x' = iox_events x @ [Published (pub_ptr pub) p c'] \<and> chunks x' = chunks x \<and>
          vm_lookup (segmented x') = vm_lookup (segmented x)))"
proof -
  let ?k = "maxTransportPayloadSize E (udp_ops send) t" and ?devs = "m_devices (ws_world s)"
  let ?ck = "\<lparr>ch_chunk = q, ch_userHeader = hs, ch_userPayload = ps\<rparr>"
  have k: "unat ?k = MAX_DATAGRAM_SIZE - maxIoxChunkDatagramHeaderSerializationSize E" by (rule udp_payload_size [OF header(2)])
  have k0: "?k \<noteq> 0" using k header(2) by auto
  have small: "length hs + length ps + unat ?k \<le> 2 ^ 32" "length hs + length ps < 2 ^ 32"
    using sizes(3) k header(2) by linarith+
  obtain w' where w': "writeSegmented E (udp_ops send) cb rel h ?ck [i] mutex subscriber s = Inr (s\<lparr>ws_world := rel subscriber q w'\<rparr>)"
    "datagrams_to sent ?devs (di_device i) w' = datagrams_to sent ?devs (di_device i) (ws_world s) @ map (datagram E) (messageSegments h ?k hs ps)"
    using udp_network.udp_writes [OF net(1), of s i t E ?ck h cb rel mutex subscriber] net(2) layer header(2) sizes small(2) by auto
  have "maxIoxChunkDatagramHeaderSerializationSize E + unat ?k < 2 ^ 32" using k header(2) by (simp add: MAX_DATAGRAM_SIZE_def)
  note recv = receive_message [OF receiver(1-6) header(1) receiver(7) sizes(1,2) small(1) k0 this sizes(4)]
  show ?thesis using w' recv by (intro exI [of _ w'] exI [of _ "map (datagram E) (messageSegments h ?k hs ps)"]) blast
qed

theorem message_gets_through_witness:
  "\<exists>w' x' c'. writeSegmented sample_env (udp_ops ideal_send) None (\<lambda>_ _ w. w) sample_header
      \<lparr>ch_chunk = 9, ch_userHeader = [], ch_userPayload = [1, 2, 3, 4, 5]\<rparr> [\<lparr>di_type = UDP, di_device = 0\<rparr>] 0 1 sample_writer
      = Inr (sample_writer\<lparr>ws_world := w'\<rparr>) \<and>
    receiveAll sample_env pool_env 0 one_channel
      (map (\<lambda>g. (7, \<lparr>di_type = UDP, di_device = 2\<rparr>, g)) (datagrams_to (\<lambda>n. n) (m_devices sample_udp) 0 w')) sample_receiver = Inr x' \<and>
    iox_events x' = [Published 1 0 c'] \<and> ck_userPayload c' = [1, 2, 3, 4, 5]"
proof -
  let ?i = "\<lparr>di_type = UDP, di_device = 0\<rparr>" and ?t = "\<lparr>getType = UDP, m_status = GOOD\<rparr>"
  have x: "segmented sample_receiver = vm_empty" "chunks sample_receiver = (\<lambda>_. None)" "iox_events sample_receiver = []"
    by (simp_all add: sample_receiver_def t2i_initial_def)
  obtain c where loan: "loan pool_env (pub_ptr sample_publisher) (request_for pool_env sample_header) (chunks sample_receiver) = Some (0, c)"
    by (simp add: pool_env_def pool_loan_def x upt_rec)
  have writer: "ws_world sample_writer = sample_udp" "s_transports (ws_ti sample_writer) ! index UDP = Some ?t" "isGood ?t"
    by (simp_all add: sample_writer_def sample_registry_def isGood_def)
  have env: "wf_header sample_env sample_header" "maxIoxChunkDatagramHeaderSerializationSize sample_env < MAX_DATAGRAM_SIZE"
    by (simp_all add: wf_header_def sample_env_def sample_header_def maxIoxChunkDatagramHeaderSerializationSize_def MAX_DATAGRAM_SIZE_def)
  have "vm_lookup one_channel (serviceHash sample_header) = Some sample_publisher"
    "vm_lookup (segmented sample_receiver) (messageHash sample_header) = None"
    using one_channel_lookup by (simp_all add: sample_header_def x vm.lookup_empty)
  note recv = pool_loans_fresh sample_receiver_inv sample_receiver_room this(2) one_channel_lookup(1) this(1) loan
  have dev: "di_type ?i = UDP" by simp
  have sz: "length ([] :: byte list) = unat (userHeaderSize sample_header)"
    "length [1, 2, 3, 4, 5 :: byte] = unat (userPayloadSize sample_header)"
    "length ([] :: byte list) + length [1, 2, 3, 4, 5 :: byte] + MAX_DATAGRAM_SIZE \<le> 2 ^ 32" "[] @ [1, 2, 3, 4, 5 :: byte] \<noteq> []"
    by (simp_all add: sample_header_def MAX_DATAGRAM_SIZE_def)
  obtain w' grams where w: "writeSegmented sample_env (udp_ops ideal_send) None (\<lambda>_ _ w. w) sample_header
      \<lparr>ch_chunk = 9, ch_userHeader = [], ch_userPayload = [1, 2, 3, 4, 5]\<rparr> [?i] 0 1 sample_writer
      = Inr (sample_writer\<lparr>ws_world := w'\<rparr>)"
    "datagrams_to (\<lambda>n. n) (m_devices sample_udp) (di_device ?i) w'
      = datagrams_to (\<lambda>n. n) (m_devices sample_udp) (di_device ?i) sample_udp @ grams"
    "\<forall>arrivals. mset (map (\<lambda>(now, dev, bytes). bytes) arrivals) = mset grams \<longrightarrow>
       (\<exists>x' c'. receiveAll sample_env pool_env 0 one_channel arrivals sample_receiver = Inr x' \<and> ck_userPayload c' = [1, 2, 3, 4, 5] \<and>
          ([] \<noteq> [] \<longrightarrow> ck_userHeader c' = []) \<and> iox_events x' = iox_events sample_receiver @ [Published (pub_ptr sample_publisher) 0 c'] \<and>
          chunks x' = chunks sample_receiver \<and> vm_lookup (segmented x') = vm_lookup (segmented sample_receiver))"
    using message_gets_through [OF ideal.udp_network_axioms TrueI dev writer(2,3) sz env recv, of None "\<lambda>_ _ w. w" 9 0 1 0]
    unfolding writer(1) by blast
  have "datagrams_to (\<lambda>n. n) (m_devices sample_udp) 0 w' = grams" using w(2) by (simp add: datagrams_to_def sample_udp_def)
  moreover have "mset (map (\<lambda>(now, dev, bytes). bytes) (map (\<lambda>g. (7 :: time_point, \<lparr>di_type = UDP, di_device = 2\<rparr>, g)) grams)) = mset grams"
    by (simp add: comp_def)
  from mp [OF spec [OF w(3)] this]
  obtain x' c' where "receiveAll sample_env pool_env 0 one_channel (map (\<lambda>g. (7, \<lparr>di_type = UDP, di_device = 2\<rparr>, g)) grams)
      sample_receiver = Inr x'" "ck_userPayload c' = [1, 2, 3, 4, 5]" "iox_events x' = [Published 1 0 c']"
    unfolding x sample_publisher_def by auto
  ultimately show ?thesis using w(1) by blast
qed

lemma user_data_bytes:
  assumes "map (\<lambda>(now, dev, bytes). User_Data bytes dev) arrivals = map (\<lambda>m. User_Data m dev) ms"
  shows "map (\<lambda>(now, dev, bytes). bytes) arrivals = ms"
  using assms by (induction arrivals arbitrary: ms) (auto simp: map_eq_Cons_conv)

text \<open>
  C4. A message gets through over TCP as well: writing a non-empty chunk to the device of an open session
  appends bytes to the stream of that connection such that, however the reads of the receiving
  gateway's session complete over these bytes, the messages the session delivers make that
  gateway publish exactly one chunk, with the user header and the payload that were written.
\<close>

theorem tcp_message_gets_through:
  assumes conn: "tcp_connection wr up written" "tcp_ready up written p (di_device i) (ws_world s)"
    and layer: "di_type i = TCP" "s_transports (ws_ti s) ! index TCP = Some t" "isGood t"
    and sizes: "length hs = unat (userHeaderSize h)" "length ps = unat (userPayloadSize h)"
      "length hs + length ps + MAX_PACKET_SIZE \<le> 2 ^ 32" "hs @ ps \<noteq> []"
    and header: "wf_header E h" "maxIoxChunkDatagramHeaderSerializationSize E < MAX_PACKET_SIZE"
    and receiver: "loans_fresh G" "receiver_inv x" "table_room x" "vm_lookup (segmented x) (messageHash h) = None"
      "vm_wf cap m" "vm_lookup m (serviceHash h) = Some pub"
      "loan G (pub_ptr pub) (request_for G h) (chunks x) = Some (r, c)"
    and session: "reading q j st"
  shows "\<exists>w' stream. writeSegmented E (tcp_ops wr) cb rel h \<lparr>ch_chunk = ck, ch_userHeader = hs, ch_userPayload = ps\<rparr> [i] mutex subscriber s
      = Inr (s\<lparr>ws_world := rel subscriber ck w'\<rparr>) \<and>
    concat (written p (tcp_net w')) = concat (written p (tcp_net (ws_world s))) @ stream \<and>
    (\<exists>cs st' arrivals. concat cs = stream \<and>
       stream_reads E q cs (t', st) = Some (t', st', map (\<lambda>(now :: time_point, dev, bytes). User_Data bytes dev) arrivals)) \<and>
    (\<forall>cs t'' st' arrivals. concat cs = stream \<longrightarrow>
       stream_reads E q cs (t', st) = Some (t'', st', map (\<lambda>(now, dev, bytes). User_Data bytes dev) arrivals) \<longrightarrow>
       (\<exists>x' c'. receiveAll E G mutex' m arrivals x = Inr x' \<and> ck_userPayload c' = ps \<and> (hs \<noteq> [] \<longrightarrow> ck_userHeader c' = hs) \<and>
          iox_events x' = iox_events x @ [Published (pub_ptr pub) r c'] \<and> chunks x' = chunks x))"
proof -
  let ?ck = "\<lparr>ch_chunk = ck, ch_userHeader = hs, ch_userPayload = ps\<rparr>"
  let ?grams = "map (datagram E) (messageSegments h (tcp_payload E) hs ps)"
  note k = tcp_payload_size(2) [OF header(2)]
  have k0: "tcp_payload E \<noteq> 0" using k header(2) by auto
  have small: "length hs + length ps + unat (tcp_payload E) \<le> 2 ^ 32" "length hs + length ps < 2 ^ 32"
    "maxIoxChunkDatagramHeaderSerializationSize E + unat (tcp_payload E) < 2 ^ 32"
    using sizes(3) k header(2) by (simp_all add: MAX_PACKET_SIZE_def)
  note recv = receive_message [OF receiver(1-6) header(1) receiver(7) sizes(1,2) small(1) k0 small(3) sizes(4)]
  have cks: "length (ch_userHeader ?ck) = unat (userHeaderSize h)" "length (ch_userPayload ?ck) = unat (userPayloadSize h)"
    "length (ch_userHeader ?ck) + length (ch_userPayload ?ck) < 2 ^ 32"
    using sizes small(2) by simp_all
  note sent = tcp_connection.tcp_stream [OF conn layer header(2) cks]
  obtain w' where w': "writeSegmented E (tcp_ops wr) cb rel h ?ck [i] mutex subscriber s = Inr (s\<lparr>ws_world := rel subscriber ck w'\<rparr>)"
    "written p (tcp_net w') = written p (tcp_net (ws_world s)) @ frames ?grams"
    using sent(1) [where cb = cb and rel = rel and mutex = mutex and subscriber = subscriber] unfolding chunk_header.simps by blast
  have grams: "\<forall>g \<in> set ?grams. g \<noteq> [] \<and> length g \<le> MAX_PACKET_SIZE" using sent(2) unfolding chunk_header.simps .
  obtain st1 where read: "stream_reads E q (frames ?grams) (t', st) = Some (t', st1, map (\<lambda>m. User_Data m \<lparr>di_type = TCP, di_device = j\<rparr>) ?grams)"
    using read_frames [OF session, of ?grams E t'] grams by blast
  have pub: "\<exists>x' c'. receiveAll E G mutex' m arrivals x = Inr x' \<and> ck_userPayload c' = ps \<and> (hs \<noteq> [] \<longrightarrow> ck_userHeader c' = hs) \<and>
      iox_events x' = iox_events x @ [Published (pub_ptr pub) r c'] \<and> chunks x' = chunks x"
    if cs: "concat cs = concat (frames ?grams)"
      and out: "stream_reads E q cs (t', st) = Some (t'', st', map (\<lambda>(now, dev, bytes). User_Data bytes dev) arrivals)" for cs t'' st' arrivals
  proof -
    have "cs = frames ?grams" using reads_are_frames [OF session grams cs, of E t'] out by simp
    then have "map (\<lambda>(now, dev, bytes). User_Data bytes dev) arrivals = map (\<lambda>m. User_Data m \<lparr>di_type = TCP, di_device = j\<rparr>) ?grams"
      using out read by simp
    then have "map (\<lambda>(now, dev, bytes). bytes) arrivals = ?grams" by (rule user_data_bytes)
    then have "mset (map (\<lambda>(now, dev, bytes). bytes) arrivals) = mset ?grams" by (rule arg_cong)
    from recv [OF this, of mutex'] show ?thesis by blast
  qed
  show ?thesis
  proof (intro exI [of _ w'] exI [of _ "concat (frames ?grams)"] conjI allI impI)
    show "writeSegmented E (tcp_ops wr) cb rel h ?ck [i] mutex subscriber s = Inr (s\<lparr>ws_world := rel subscriber ck w'\<rparr>)" by (rule w'(1))
    show "concat (written p (tcp_net w')) = concat (written p (tcp_net (ws_world s))) @ concat (frames ?grams)" by (simp add: w'(2))
    show "\<exists>cs st' arrivals. concat cs = concat (frames ?grams) \<and>
        stream_reads E q cs (t', st) = Some (t', st', map (\<lambda>(now :: time_point, dev, bytes). User_Data bytes dev) arrivals)"
      by (rule exI [of _ "frames ?grams"], rule exI [of _ st1], rule exI [of _ "map (\<lambda>g. (0, \<lparr>di_type = TCP, di_device = j\<rparr>, g)) ?grams"])
        (use read in \<open>simp add: comp_def\<close>)
  qed (rule pub)
qed

definition tcp_registry :: transport_info where
  "tcp_registry = sample_registry\<lparr>s_transports := [None, None, None, Some \<lparr>getType = TCP, m_status = GOOD\<rparr>]\<rparr>"

definition tcp_writer :: "((byte list \<times> endpoint) list, nat \<Rightarrow> byte list list) tcp_state writer_state" where
  "tcp_writer = \<lparr>ws_ti = tcp_registry, ws_pending = vm_empty, ws_world = \<lparr>m_broadcast = sample_udp,
     m_transportSessions = [receiveTcpData (newClientSession 3 \<lparr>address = 5, port = DATA_PORT\<rparr>)], m_infoToReport = [],
     m_serverListeningSession = None, ts_next = 4, ts_dangling = [], tcp_net = (\<lambda>_. [])\<rparr>\<rparr>"

theorem tcp_message_gets_through_witness:
  "\<exists>w' cs st' arrivals x' c'. writeSegmented sample_env (tcp_ops record_write) None (\<lambda>_ _ w. w) sample_header
      \<lparr>ch_chunk = 9, ch_userHeader = [], ch_userPayload = [1, 2, 3, 4, 5]\<rparr> [\<lparr>di_type = TCP, di_device = 0\<rparr>] 0 1 tcp_writer
      = Inr (tcp_writer\<lparr>ws_world := w'\<rparr>) \<and>
    concat cs = concat (tcp_net w' 3) \<and>
    stream_reads sample_env 0 cs (fst sample_tcp, accepted_tcp)
      = Some (fst sample_tcp, st', map (\<lambda>(now, dev, bytes). User_Data bytes dev) arrivals) \<and>
    receiveAll sample_env pool_env 0 one_channel arrivals sample_receiver = Inr x' \<and>
    iox_events x' = [Published 1 0 c'] \<and> ck_userPayload c' = [1, 2, 3, 4, 5]"
proof -
  let ?i = "\<lparr>di_type = TCP, di_device = 0\<rparr>" and ?t = "\<lparr>getType = TCP, m_status = GOOD\<rparr>"
  have x: "segmented sample_receiver = vm_empty" "chunks sample_receiver = (\<lambda>_. None)" "iox_events sample_receiver = []"
    by (simp_all add: sample_receiver_def t2i_initial_def)
  obtain c where loan: "loan pool_env (pub_ptr sample_publisher) (request_for pool_env sample_header) (chunks sample_receiver) = Some (0, c)"
    by (simp add: pool_env_def pool_loan_def x upt_rec)
  have ready: "tcp_ready (\<lambda>_ _. True) (\<lambda>p c. c p) 3 (di_device ?i) (ws_world tcp_writer)"
    by (simp add: tcp_ready_def tcp_writer_def receiveTcpData_def newClientSession_def)
  have writer: "di_type ?i = TCP" "s_transports (ws_ti tcp_writer) ! index TCP = Some ?t" "isGood ?t"
    by (simp_all add: tcp_writer_def tcp_registry_def isGood_def)
  have env: "wf_header sample_env sample_header" "maxIoxChunkDatagramHeaderSerializationSize sample_env < MAX_PACKET_SIZE"
    by (simp_all add: wf_header_def sample_env_def sample_header_def maxIoxChunkDatagramHeaderSerializationSize_def MAX_PACKET_SIZE_def)
  have "vm_lookup one_channel (serviceHash sample_header) = Some sample_publisher"
    "vm_lookup (segmented sample_receiver) (messageHash sample_header) = None"
    using one_channel_lookup by (simp_all add: sample_header_def x vm.lookup_empty)
  note recv = pool_loans_fresh sample_receiver_inv sample_receiver_room this(2) one_channel_lookup(1) this(1) loan
  have sz: "length ([] :: byte list) = unat (userHeaderSize sample_header)"
    "length [1, 2, 3, 4, 5 :: byte] = unat (userPayloadSize sample_header)"
    "length ([] :: byte list) + length [1, 2, 3, 4, 5 :: byte] + MAX_PACKET_SIZE \<le> 2 ^ 32" "[] @ [1, 2, 3, 4, 5 :: byte] \<noteq> []"
    by (simp_all add: sample_header_def MAX_PACKET_SIZE_def)
  have session: "reading 0 0 accepted_tcp" unfolding reading_def using accepted_tcp_reading by blast
  have net: "concat (tcp_net (ws_world tcp_writer) 3) = []" by (simp add: tcp_writer_def)
  show ?thesis
    using tcp_message_gets_through [OF wire.tcp_connection_axioms ready writer sz env recv session,
        of None "\<lambda>_ _ w. w" 9 0 1 "fst sample_tcp" 0]
    unfolding net x sample_publisher_def publisher.simps append_Nil by blast
qed

section \<open>Discovery across two gateways\<close>

text \<open>
  C8. Subscribers are found. The message in which a gateway announces its subscribers fits the wire, and
  a gateway that receives it from a new peer stores it, so that from then on the chunks of every user
  publisher of the receiving host go to the device the message came from, for each service the peer
  subscribes to (provided that device is on the transport chosen for the peer).
\<close>

theorem subscribers_found:
  assumes "assigns_c_strings E" "wf_local E peer" "generateDiscoveryInfo DP tip (peer, wp) = (info, wp')"
    and "card (set (ls_userSubscribers (m_localState peer))) \<le> MAX_TOPICS" "srv \<in> set (ls_userSubscribers (m_localState peer))"
    and "ti_wf ti" "wf_local E d" "gw_inv w" "disc_inv d"
    and "m_gatewayHash peer \<notin> set (record_hashes (records (m_remoteState d)))" "length (records (m_remoteState d)) < MAX_DEVICE_COUNT"
  shows "\<exists>bytes ti' d' w'. serializeInfo E info = Inr bytes \<and>
    receiveRemoteDiscoveryInfo (gw_env E G S send) bytes (length bytes) dev (ti, (d, w)) = Inr (ti', (d', w')) \<and> disc_inv d' \<and>
    (di_type dev \<noteq> NONE \<longrightarrow> findMatchingType (s_bitset tip) (m_preferredType d) ti' = di_type dev \<longrightarrow>
      (\<forall>uid. known_publisher d' uid \<longrightarrow> dev \<in> set (snd (generateDeviceIndices E ti' d' uid (getClassHash E srv)))))"
proof -
  note info = generateDiscoveryInfo_fields [OF assms(3)]
  have wf: "wf_info E info" by (rule generateDiscoveryInfo_wf [OF assms(2,3)])
  obtain bytes where bytes: "serializeInfo E info = Inr bytes" using serializeInfo_ok [OF wf] by blast
  have des: "deserializeInfo (iox (gw_env E G S send)) bytes (length bytes) = Inr (info, length bytes)"
    using deserialize_serialize_info [OF assms(1) wf bytes, of "length bytes" "[]"] by simp
  have local: "wf_local (iox (gw_env E G S send)) d" using assms(7) by simp
  obtain ti' d' w' where r: "receiveRemoteDiscoveryInfo (gw_env E G S send) bytes (length bytes) dev (ti, (d, w)) = Inr (ti', (d', w'))"
    "records (m_remoteState d') = storeRecord info dev (records (m_remoteState d))"
    "deviceIndicesCache (m_remoteState d') = vm_empty" "m_preferredType d' = m_preferredType d"
    using gw.receive_ok [OF assms(6) local assms(8) des info(4), of dev] by blast
  let ?r = "\<lparr>dr_info = info, dr_deviceIndices = [dev]\<rparr>"
  have rec: "records (m_remoteState d') = records (m_remoteState d) @ [?r]"
    using r(2) storeRecord_new [of info _ dev] assms(10,11) info(3) by simp
  have inv: "disc_inv d'" and coh: "cache_coherent E ti' d'"
    using assms(9) r(2,3) storeRecord_wf by (simp_all add: disc_inv_def vm.invar_empty cache_coherent_def vm.lookup_empty)
  have "srv \<in> set (userSubscribers info)"
    using info(1) assms(4,5) pushUnique_complete [of "[]" "ls_userSubscribers (m_localState peer)" MAX_TOPICS] by simp
  then have subscribed: "subscribes E (getClassHash E srv) ?r" by (auto simp: subscribes_def)
  have "dev \<in> set (snd (generateDeviceIndices E ti' d' uid (getClassHash E srv)))"
    if "di_type dev \<noteq> NONE" "findMatchingType (s_bitset tip) (m_preferredType d) ti' = di_type dev" "known_publisher d' uid" for uid
  proof -
    have "recordIndex d' ti' ?r = Some dev" using that(1,2) r(4) info(2) by (simp add: recordIndex_def)
    then have "dev \<in> set (computeDeviceIndices E ti' d' (getClassHash E srv))"
      using computeDeviceIndices_set [of d' E ti' "getClassHash E srv"] subscribed rec inv
      by (auto simp: disc_inv_def wf_records_def)
    moreover have "vm_size (deviceIndicesCache (m_remoteState d')) \<noteq> MAX_TOPICS"
      by (simp add: r(3) vm_size_def vm_empty_def MAX_TOPICS_def)
    ultimately show ?thesis using generateDeviceIndices_known [OF inv coh that(3), of "getClassHash E srv"] by auto
  qed
  then show ?thesis using bytes r(1) inv by blast
qed

theorem subscribers_found_witness:
  "\<exists>bytes ti' d' w'. serializeInfo sample_env (fst (generateDiscoveryInfo quiet_env sample_registry (subscribing_discovery, ()))) = Inr bytes \<and>
    receiveRemoteDiscoveryInfo sample_gw_env bytes (length bytes) \<lparr>di_type = UDP, di_device = 0\<rparr>
      (sample_registry, (new_discovery 1 NONE, sample_world)) = Inr (ti', (d', w')) \<and> disc_inv d'"
proof -
  have peer: "wf_local sample_env subscribing_discovery" "sample_service \<in> set (ls_userSubscribers (m_localState subscribing_discovery))"
    "card (set (ls_userSubscribers (m_localState subscribing_discovery))) \<le> MAX_TOPICS" "m_gatewayHash subscribing_discovery = 9"
    by (simp_all add: subscribing_discovery_def wf_local_def wf_service_def wf_id_def sample_service_def sample_env_def new_discovery_def MAX_TOPICS_def)
  have local: "wf_local sample_env (new_discovery 1 NONE)" "disc_inv (new_discovery 1 NONE)"
    "9 \<notin> set (record_hashes (records (m_remoteState (new_discovery 1 NONE))))"
    "length (records (m_remoteState (new_discovery 1 NONE))) < MAX_DEVICE_COUNT"
    using new_discovery_inv by (auto simp: new_discovery_def wf_local_def MAX_DEVICE_COUNT_def)
  have gen: "generateDiscoveryInfo quiet_env sample_registry (subscribing_discovery, ())
      = (fst (generateDiscoveryInfo quiet_env sample_registry (subscribing_discovery, ())), ())"
    by (simp add: prod_eq_iff)
  show ?thesis
    using subscribers_found [OF sample_env_assigns peer(1) gen peer(3,2) sample_registry_wf local(1) sample_world_inv local(2),
        of pool_env numbered_subscribers ideal_send "\<lparr>di_type = UDP, di_device = 0\<rparr>"] peer(4) local(3,4) by auto
qed

end
